(* ===== verification/Xv6_Prelude.thy ===== *)
theory Xv6_Prelude
  imports Main "HOL-Library.Word"
begin

text \<open>
  The shared layer of the development.  It fixes the machine-integer types of
  \<^verbatim>\<open>kernel/types.h\<close>, the result type of kernel code that may panic, wait or not
  return, the sequencing operations every component is written with, and the generic
  rules (about sequencing, counted loops and early-return loops) the component proofs
  use.

  A kernel function that takes C arguments \<open>x\<close> and changes kernel state is a HOL function
  \<open>x \<Rightarrow> 's \<Rightarrow> ('a, 's) outcome\<close>.  The outcome says how the call ends:
  \<^item> \<open>Ok v s\<close>: it returns \<open>v\<close> in state \<open>s\<close>;
  \<^item> \<open>Waits w s\<close>: it cannot go on before another hart or process runs, either because it
    spins on a held spin lock or because it called \<open>swtch\<close> in \<open>sched\<close>; \<open>s\<close> is the state
    at that moment, from which the rest of the system continues;
  \<^item> \<open>Panic msg\<close>: \<open>panic(msg)\<close> was called, the machine stops;
  \<^item> \<open>Diverges\<close>: a fuel bound of the model was exceeded (used for recursions whose end
    depends on memory contents; the component proves how much fuel is enough).
\<close>

unbundle bit_operations_syntax

subsection \<open>Machine integers (kernel/types.h)\<close>

type_synonym u8 = "8 word"
type_synonym u16 = "16 word"
type_synonym u32 = "32 word"
type_synonym u64 = "64 word"

subsection \<open>Names of locks and sleep channels\<close>

text \<open>
  In C a spin lock is named by its address and a sleep channel is any kernel address.
  Distinct objects have distinct addresses, so the model uses one constructor per object.
\<close>

datatype sleeplock_id = SL_buf nat | SL_inode nat

datatype lockid =
    L_kmem | L_pid | L_wait | L_proc nat | L_ticks | L_bcache | L_log | L_itable
  | L_ftable | L_pipe u64 | L_cons | L_uart | L_vdisk | L_pr | L_sleep sleeplock_id

datatype chan =
    C_proc nat | C_ticks | C_sleeplock sleeplock_id | C_log
  | C_pipe_nread u64 | C_pipe_nwrite u64 | C_cons_r | C_uart_tx_r
  | C_disk_free | C_buf nat

subsection \<open>Outcomes and sequencing\<close>

datatype wait = Spins lockid | Switched

datatype ('a, 's) outcome = Ok 'a 's | Waits wait 's | Panic string | Diverges

type_synonym ('s, 'a) kfun = "'s \<Rightarrow> ('a, 's) outcome"

abbreviation ret :: "'a \<Rightarrow> ('s, 'a) kfun" where
  "ret \<equiv> Ok"

definition bnd :: "('s, 'a) kfun \<Rightarrow> ('a \<Rightarrow> ('s, 'b) kfun) \<Rightarrow> ('s, 'b) kfun" where
  "bnd m f = (\<lambda>s. case m s of Ok x t \<Rightarrow> f x t | Waits w t \<Rightarrow> Waits w t
                   | Panic msg \<Rightarrow> Panic msg | Diverges \<Rightarrow> Diverges)"

definition panic :: "string \<Rightarrow> ('s, 'a) kfun" where
  "panic msg = (\<lambda>s. Panic msg)"

definition gets :: "('s \<Rightarrow> 'a) \<Rightarrow> ('s, 'a) kfun" where
  "gets f = (\<lambda>s. Ok (f s) s)"

definition modify :: "('s \<Rightarrow> 's) \<Rightarrow> ('s, unit) kfun" where
  "modify f = (\<lambda>s. Ok () (f s))"

definition do_if :: "bool \<Rightarrow> ('s, unit) kfun \<Rightarrow> ('s, unit) kfun" where
  "do_if b m = (if b then m else ret ())"

text \<open>A counted \<^verbatim>\<open>for\<close> loop over a list of index values.\<close>

primrec for_each :: "'x list \<Rightarrow> ('x \<Rightarrow> ('s, unit) kfun) \<Rightarrow> ('s, unit) kfun" where
  "for_each [] f = ret ()"
| "for_each (x # xs) f = bnd (f x) (\<lambda>_. for_each xs f)"

text \<open>
  A counted \<^verbatim>\<open>for\<close> loop whose body may leave the loop (\<^verbatim>\<open>return\<close>, \<^verbatim>\<open>break\<close>, \<^verbatim>\<open>goto\<close>)
  with a value: \<open>Some r\<close> leaves with \<open>r\<close>, \<open>None\<close> goes on.
\<close>

primrec for_until :: "'x list \<Rightarrow> ('x \<Rightarrow> ('s, 'r option) kfun) \<Rightarrow> ('s, 'r option) kfun" where
  "for_until [] f = ret None"
| "for_until (x # xs) f =
     bnd (f x) (\<lambda>r. case r of Some v \<Rightarrow> ret (Some v) | None \<Rightarrow> for_until xs f)"

subsection \<open>Computation rules\<close>

lemma gets_apply [simp]: "gets f s = Ok (f s) s"
  by (simp add: gets_def)

lemma modify_apply [simp]: "modify f s = Ok () (f s)"
  by (simp add: modify_def)

lemma panic_apply [simp]: "panic msg s = Panic msg"
  by (simp add: panic_def)

lemma do_if_simps [simp]: "do_if True m = m" "do_if False m = ret ()"
  by (simp_all add: do_if_def)

text \<open>
  \<open>exec\<close> collects the equations that run code symbolically: a bind unfolds to a case
  distinction on the outcome of its first part.
\<close>

named_theorems exec \<open>equations that run kernel code on a state\<close>

lemma bnd_apply [exec]:
  "bnd m f s = (case m s of Ok x t \<Rightarrow> f x t | Waits w t \<Rightarrow> Waits w t
                 | Panic msg \<Rightarrow> Panic msg | Diverges \<Rightarrow> Diverges)"
  by (simp add: bnd_def)

lemma bnd_Ok: "m s = Ok x t \<Longrightarrow> bnd m f s = f x t"
  by (simp add: bnd_apply)

lemma bnd_Panic: "m s = Panic msg \<Longrightarrow> bnd m f s = Panic msg"
  by (simp add: bnd_apply)

lemma bnd_Waits: "m s = Waits w t \<Longrightarrow> bnd m f s = Waits w t"
  by (simp add: bnd_apply)

lemma bnd_ret_left [simp]: "bnd (ret x) f = f x"
  by (simp add: bnd_def)

lemma bnd_ret_right [simp]: "bnd m ret = m"
  by (simp add: bnd_def fun_eq_iff split: outcome.splits)

lemma bnd_assoc: "bnd (bnd m f) g = bnd m (\<lambda>x. bnd (f x) g)"
  by (simp add: bnd_def fun_eq_iff split: outcome.splits)

lemma bnd_eq_Ok_iff:
  "bnd m f s = Ok y u \<longleftrightarrow> (\<exists>x t. m s = Ok x t \<and> f x t = Ok y u)"
  by (auto simp: bnd_def split: outcome.splits)

lemma bnd_OkE:
  assumes "bnd m f s = Ok y u"
  obtains x t where "m s = Ok x t" "f x t = Ok y u"
  using assms by (auto simp: bnd_eq_Ok_iff)

text \<open>The congruence rule that lets a recursive definition call itself after a bind.\<close>

lemma bnd_cong [fundef_cong]:
  assumes "m s = m' s'" and "\<And>x t. m' s' = Ok x t \<Longrightarrow> f x t = f' x t"
  shows "bnd m f s = bnd m' f' s'"
  using assms by (auto simp: bnd_def split: outcome.splits)

lemma if_apply_cong [fundef_cong]:
  assumes "b = b'" and "b' \<Longrightarrow> m s = m' s" and "\<not> b' \<Longrightarrow> n s = n' s"
  shows "(if b then m else n) s = (if b' then m' else n') s"
  using assms by simp

lemma for_each_append:
  "for_each (xs @ ys) f = bnd (for_each xs f) (\<lambda>_. for_each ys f)"
  by (induction xs) (simp_all add: bnd_assoc)

subsection \<open>Invariants carried through sequencing\<close>

text \<open>
  \<open>keeps I m\<close>: wherever \<open>m\<close> leaves a state behind (it returned or waits), the invariant
  \<open>I\<close> still holds.  The rules in \<open>keeps_intros\<close> follow the structure of the code.
\<close>

definition keeps :: "('s \<Rightarrow> bool) \<Rightarrow> ('s, 'a) kfun \<Rightarrow> bool" where
  "keeps I m \<longleftrightarrow> (\<forall>s. I s \<longrightarrow>
     (case m s of Ok x t \<Rightarrow> I t | Waits w t \<Rightarrow> I t | Panic msg \<Rightarrow> True | Diverges \<Rightarrow> True))"

named_theorems keeps_intros \<open>rules for carrying an invariant through kernel code\<close>

lemma keepsI:
  assumes "\<And>s x t. I s \<Longrightarrow> m s = Ok x t \<Longrightarrow> I t"
    and "\<And>s w t. I s \<Longrightarrow> m s = Waits w t \<Longrightarrow> I t"
  shows "keeps I m"
  unfolding keeps_def
proof (intro allI impI)
  fix s assume "I s"
  from assms(1) [OF this] assms(2) [OF this]
  show "case m s of Ok x t \<Rightarrow> I t | Waits w t \<Rightarrow> I t | Panic msg \<Rightarrow> True | Diverges \<Rightarrow> True"
    by (cases "m s") simp_all
qed

lemma keepsD_Ok:
  assumes "keeps I m" and "I s" and "m s = Ok x t"
  shows "I t"
  using assms(1) [unfolded keeps_def, rule_format, OF assms(2)] assms(3) by simp

lemma keepsD_Waits:
  assumes "keeps I m" and "I s" and "m s = Waits w t"
  shows "I t"
  using assms(1) [unfolded keeps_def, rule_format, OF assms(2)] assms(3) by simp

lemma keeps_ret [keeps_intros]: "keeps I (ret x)"
  by (simp add: keeps_def)

lemma keeps_gets [keeps_intros]: "keeps I (gets f)"
  by (simp add: keeps_def)

lemma keeps_panic [keeps_intros]: "keeps I (panic msg)"
  by (simp add: keeps_def)

lemma keeps_modify [keeps_intros]: "(\<And>s. I s \<Longrightarrow> I (f s)) \<Longrightarrow> keeps I (modify f)"
  by (simp add: keeps_def)

lemma keeps_bnd [keeps_intros]:
  assumes "keeps I m" and "\<And>x. keeps I (f x)"
  shows "keeps I (bnd m f)"
proof (rule keepsI)
  fix s y u assume "I s" and "bnd m f s = Ok y u"
  then show "I u"
    by (auto elim!: bnd_OkE dest: keepsD_Ok [OF assms(1)] keepsD_Ok [OF assms(2)])
next
  fix s w u assume "I s" and "bnd m f s = Waits w u"
  then show "I u"
    by (auto simp: bnd_def split: outcome.splits
        dest: keepsD_Ok [OF assms(1)] keepsD_Waits [OF assms(1)] keepsD_Waits [OF assms(2)])
qed

lemma keeps_if [keeps_intros]:
  "(b \<Longrightarrow> keeps I m) \<Longrightarrow> (\<not> b \<Longrightarrow> keeps I n) \<Longrightarrow> keeps I (if b then m else n)"
  by simp

lemma keeps_do_if [keeps_intros]: "(b \<Longrightarrow> keeps I m) \<Longrightarrow> keeps I (do_if b m)"
  by (simp add: do_if_def keeps_ret)

lemma keeps_case_option [keeps_intros]:
  "keeps I n \<Longrightarrow> (\<And>v. keeps I (f v)) \<Longrightarrow> keeps I (case r of None \<Rightarrow> n | Some v \<Rightarrow> f v)"
  by (cases r) simp_all

lemma keeps_for_each [keeps_intros]: "(\<And>x. keeps I (f x)) \<Longrightarrow> keeps I (for_each xs f)"
  by (induction xs) (simp_all add: keeps_ret keeps_bnd)

lemma keeps_for_until [keeps_intros]: "(\<And>x. keeps I (f x)) \<Longrightarrow> keeps I (for_until xs f)"
  by (induction xs) (simp_all add: keeps_ret keeps_bnd split: option.splits)

lemma keeps_case_option_eq:
  "(r = None \<Longrightarrow> keeps I n) \<Longrightarrow> (\<And>v. r = Some v \<Longrightarrow> keeps I (f v)) \<Longrightarrow>
   keeps I (case r of None \<Rightarrow> n | Some v \<Rightarrow> f v)"
  by (cases r) simp_all

lemma keeps_case_prod [keeps_intros]: "(\<And>a b. p = (a, b) \<Longrightarrow> keeps I (f a b)) \<Longrightarrow> keeps I (case p of (a, b) \<Rightarrow> f a b)"
  by (cases p) simp

lemma keeps_case_sum [keeps_intros]:
  "(\<And>a. keeps I (f a)) \<Longrightarrow> (\<And>b. keeps I (g b)) \<Longrightarrow> keeps I (case r of Inl a \<Rightarrow> f a | Inr b \<Rightarrow> g b)"
  by (cases r) simp_all

lemma keeps_Let [keeps_intros]: "(\<And>x. keeps I (f x)) \<Longrightarrow> keeps I (let x = e in f x)"
  by (simp add: Let_def)

lemma keeps_diverges [keeps_intros]: "keeps I (\<lambda>s. Diverges)"
  by (simp add: keeps_def)

lemma keeps_waits [keeps_intros]: "keeps I (\<lambda>s. Waits w s)"
  by (simp add: keeps_def)

text \<open>
  \<open>holds I r\<close> is the same of one outcome; it serves the recursive definitions, whose induction
  fixes the state.
\<close>

definition holds :: "('s \<Rightarrow> bool) \<Rightarrow> ('a, 's) outcome \<Rightarrow> bool" where
  "holds I r \<longleftrightarrow> (case r of Ok x t \<Rightarrow> I t | Waits w t \<Rightarrow> I t | Panic msg \<Rightarrow> True | Diverges \<Rightarrow> True)"

lemma keeps_if_holds: "(\<And>s. I s \<Longrightarrow> holds I (m s)) \<Longrightarrow> keeps I m"
  by (simp add: keeps_def holds_def)

lemma holds_keeps: "keeps I m \<Longrightarrow> I s \<Longrightarrow> holds I (m s)"
  by (simp add: keeps_def holds_def)

lemma holds_bnd:
  assumes "keeps I m" and "I s" and "\<And>x t. m s = Ok x t \<Longrightarrow> I t \<Longrightarrow> holds I (f x t)"
  shows "holds I (bnd m f s)"
  using holds_keeps [OF assms(1,2)] assms(3) by (auto simp: holds_def bnd_def split: outcome.splits)

lemma holds_simps [simp]:
  "holds I (Ok x s) = I s" "holds I (Waits w s) = I s" "holds I (Panic msg)" "holds I Diverges"
  by (simp_all add: holds_def)

subsection \<open>Counted loops that compute a fold\<close>

lemma for_each_eq_fold:
  assumes "\<And>x s. x \<in> set xs \<Longrightarrow> I s \<Longrightarrow> f x s = Ok () (g x s)"
    and "\<And>x s. x \<in> set xs \<Longrightarrow> I s \<Longrightarrow> I (g x s)"
    and "I s"
  shows "for_each xs f s = Ok () (fold g xs s)"
  using assms
proof (induction xs arbitrary: s)
  case Nil
  then show ?case by simp
next
  case (Cons x xs)
  have "f x s = Ok () (g x s)" and "I (g x s)"
    using Cons.prems by simp_all
  moreover have "for_each xs f (g x s) = Ok () (fold g xs (g x s))"
    using Cons.prems(1,2) \<open>I (g x s)\<close> by (intro Cons.IH) simp_all
  ultimately show ?case by (simp add: exec)
qed

text \<open>An early-return loop whose body leaves the state alone until its test succeeds.\<close>

lemma for_until_skip:
  assumes "\<And>y. y \<in> set ys \<Longrightarrow> f y s = Ok None s"
  shows "for_until (ys @ zs) f s = for_until zs f s"
  using assms by (induction ys) (simp_all add: exec)

lemma for_until_none:
  assumes "\<And>y. y \<in> set ys \<Longrightarrow> f y s = Ok None s"
  shows "for_until ys f s = Ok None s"
  using for_until_skip [of ys f s "[]"] assms by simp

text \<open>An early-return loop whose body acts only where its test succeeds is a search.\<close>

lemma for_until_find:
  assumes "\<And>x. x \<in> set xs \<Longrightarrow> f x s = (if P x then Ok (Some (r x)) (t x) else Ok None s)"
  shows "for_until xs f s = (case List.find P xs of Some x \<Rightarrow> Ok (Some (r x)) (t x) | None \<Rightarrow> Ok None s)"
  using assms by (induction xs) (simp_all add: exec)

subsection \<open>Code that returns\<close>

text \<open>
  \<open>runs m s Q\<close>: started in \<open>s\<close>, the code \<open>m\<close> returns, with a result and a state in \<open>Q\<close>.  Code that
  waits, panics or does not end does not run in this sense.
\<close>

definition runs :: "('s, 'a) kfun \<Rightarrow> 's \<Rightarrow> ('a \<Rightarrow> 's \<Rightarrow> bool) \<Rightarrow> bool" where
  "runs m s Q \<longleftrightarrow> (\<exists>x t. m s = Ok x t \<and> Q x t)"

lemma runsI: "m s = Ok x t \<Longrightarrow> Q x t \<Longrightarrow> runs m s Q"
  by (auto simp: runs_def)

lemma runs_unit: "runs m s Q \<longleftrightarrow> (\<exists>t. m s = Ok () t \<and> Q () t)"
  by (simp add: runs_def)

lemma runs_ret [simp]: "runs (ret x) s Q = Q x s"
  by (simp add: runs_def)

lemma runs_gets [simp]: "runs (gets f) s Q = Q (f s) s"
  by (simp add: runs_def)

lemma runs_modify [simp]: "runs (modify f) s Q = Q () (f s)"
  by (simp add: runs_def)

lemma runs_bnd [simp]: "runs (bnd m f) s Q = runs m s (\<lambda>x t. runs (f x) t Q)"
  by (cases "m s") (simp_all add: runs_def bnd_def)

lemma runs_do_if: "(b \<Longrightarrow> runs m s Q) \<Longrightarrow> (\<not> b \<Longrightarrow> Q () s) \<Longrightarrow> runs (do_if b m) s Q"
  by (cases b) (simp_all add: do_if_def)

lemma runs_mono: "runs m s Q \<Longrightarrow> (\<And>x t. Q x t \<Longrightarrow> R x t) \<Longrightarrow> runs m s R"
  by (auto simp: runs_def)

lemma runs_for_each:
  assumes "\<And>i s. i < n \<Longrightarrow> I i s \<Longrightarrow> runs (f i) s (\<lambda>_ t. I (Suc i) t)" and "I 0 s" and "\<And>t. I n t \<Longrightarrow> Q () t"
  shows "runs (for_each [0..<n] f) s Q"
proof -
  have "runs (for_each [0..<n] f) s (\<lambda>_ t. I n t)"
    using assms(1)
  proof (induction n)
    case 0
    then show ?case using assms(2) by simp
  next
    case (Suc n)
    have "runs (for_each [0..<n] f) s (\<lambda>_ t. I n t)" using Suc by simp
    then obtain t where t: "for_each [0..<n] f s = Ok () t" "I n t" by (auto simp: runs_def)
    obtain u where "f n t = Ok () u" "I (Suc n) u" using Suc.prems [of n t] t(2) by (auto simp: runs_def)
    then show ?case using t by (auto simp: runs_def for_each_append exec)
  qed
  then show ?thesis by (rule runs_mono) (simp add: assms(3))
qed

subsection \<open>Generic list facts\<close>

lemma find_upt_eq_None: "List.find P [0..<n] = None \<longleftrightarrow> (\<forall>i<n. \<not> P i)"
  by (simp add: find_None_iff)

lemma find_upt_eq_Some: "List.find P [0..<n] = Some i \<longleftrightarrow> i < n \<and> P i \<and> (\<forall>j<i. \<not> P j)"
  unfolding find_Some_iff by (auto intro: exI [of _ i])


lemma find_upt_from:
  "List.find P [a..<n] = Some i \<Longrightarrow> a \<le> i \<and> i < n \<and> P i"
  "List.find P [a..<n] = Some i \<Longrightarrow> P j \<Longrightarrow> a \<le> j \<Longrightarrow> i \<le> j"
  "List.find P [a..<n] = None \<Longrightarrow> a \<le> j \<Longrightarrow> j < n \<Longrightarrow> \<not> P j"
proof -
  assume "List.find P [a..<n] = Some i"
  then show "a \<le> i \<and> i < n \<and> P i" by (auto simp: find_Some_iff)
next
  assume f: "List.find P [a..<n] = Some i" and "P j" "a \<le> j"
  then obtain k where k: "k < n - a" "i = a + k" "\<forall>m<k. \<not> P (a + m)"
    by (auto simp: find_Some_iff)
  show "i \<le> j"
  proof (rule ccontr)
    assume "\<not> i \<le> j"
    then have "j - a < k" using k(2) \<open>a \<le> j\<close> by simp
    then have "\<not> P (a + (j - a))" using k(3) by blast
    then show False using \<open>P j\<close> \<open>a \<le> j\<close> by simp
  qed
next
  assume "List.find P [a..<n] = None" "a \<le> j" "j < n"
  then show "\<not> P j" by (auto simp: find_None_iff)
qed

lemma find_upt_single: "a \<le> i \<Longrightarrow> i < n \<Longrightarrow> (\<And>j. P j \<longleftrightarrow> j = i) \<Longrightarrow> List.find P [a..<n] = Some i"
  by (cases "List.find P [a..<n]") (auto dest: find_upt_from)

lemma upt_split_at: "i < n \<Longrightarrow> [0..<n] = [0..<i] @ i # [Suc i..<n]"
  using upt_add_eq_append [of 0 i "n - i"] by (simp add: upt_conv_Cons)

lemma map_update_self: "i < length xs \<Longrightarrow> xs[i := xs ! i] = xs"
  by simp

subsection \<open>Generic word facts\<close>

lemma unat_add_no_wrap:
  fixes a b :: "'a::len word"
  assumes "unat a + unat b < 2 ^ LENGTH('a)"
  shows "unat (a + b) = unat a + unat b"
  using assms by (simp add: unat_word_ariths)

lemma unat_add_one:
  fixes i n :: "'a::len word"
  assumes "i < n"
  shows "unat (i + 1) = Suc (unat i)"
proof -
  have "unat n < 2 ^ LENGTH('a)"
    by (rule unsigned_less)
  then have "unat i + unat (1 :: 'a word) < 2 ^ LENGTH('a)"
    using assms unfolding word_less_nat_alt unat_1 by linarith
  then show ?thesis by (simp add: unat_add_no_wrap)
qed

lemma unat_sub_le: "b \<le> a \<Longrightarrow> unat (a - b) = unat a - unat (b :: 'a::len word)"
  by (simp add: unat_sub)

lemma unat_eqI: "unat a = unat b \<Longrightarrow> a = b"
  by (simp add: word_unat_eq_iff)

lemma unat_of_nat_small: "n < 2 ^ LENGTH('a) \<Longrightarrow> unat (of_nat n :: 'a::len word) = n"
  by (simp add: unat_of_nat take_bit_nat_eq_self)

end
