(* ===== verification/Xv6_Spinlock.thy ===== *)
theory Xv6_Spinlock
  imports Xv6_Prelude
begin

text \<open>
  Harts, interrupt enabling and spin locks: \<^verbatim>\<open>kernel/spinlock.c\<close>, \<^verbatim>\<open>kernel/spinlock.h\<close>,
  the supervisor-status accessors of \<^verbatim>\<open>kernel/riscv.h\<close> and \<open>cpuid\<close>, \<open>mycpu\<close> and
  \<open>myproc\<close> of \<^verbatim>\<open>kernel/proc.c\<close>.

  The record \<open>machine\<close> is the bottom layer of the kernel state; every later component
  extends it.  \<open>hart\<close> is the hart on which the code at hand runs (its \<open>tp\<close> register),
  \<open>sstatus\<close> the \<open>sstatus\<close> register of each hart, and \<open>locks\<close> the contents of every
  \<^verbatim>\<open>struct spinlock\<close>.

  The second half is a small-step model of several harts contending for locks, at the
  granularity of the single memory accesses of \<open>acquire\<close> and \<open>release\<close>.
\<close>

subsection \<open>State\<close>

record spinlock =
  locked :: u32
  lkname :: string
  lcpu :: "nat option"

record cpu =
  c_proc :: "nat option"
  noff :: int
  intena :: bool

record machine =
  hart :: nat
  cpus :: "nat \<Rightarrow> cpu"
  sstatus :: "nat \<Rightarrow> u64"
  locks :: "lockid \<Rightarrow> spinlock"

subsection \<open>Supervisor status register\<close>

definition SSTATUS_SPP :: u64 where "SSTATUS_SPP = push_bit 8 1"
definition SSTATUS_SPIE :: u64 where "SSTATUS_SPIE = push_bit 5 1"
definition SSTATUS_SIE :: u64 where "SSTATUS_SIE = push_bit 1 1"

definition r_sstatus :: "('a machine_scheme, u64) kfun" where
  "r_sstatus = gets (\<lambda>s. sstatus s (hart s))"

definition w_sstatus :: "u64 \<Rightarrow> ('a machine_scheme, unit) kfun" where
  "w_sstatus x = modify (\<lambda>s. s\<lparr>sstatus := (sstatus s)(hart s := x)\<rparr>)"

definition intr_on :: "('a machine_scheme, unit) kfun" where
  "intr_on = bnd r_sstatus (\<lambda>x. w_sstatus (x OR SSTATUS_SIE))"

definition intr_off :: "('a machine_scheme, unit) kfun" where
  "intr_off = bnd r_sstatus (\<lambda>x. w_sstatus (x AND NOT SSTATUS_SIE))"

definition intr_get :: "('a machine_scheme, bool) kfun" where
  "intr_get = bnd r_sstatus (\<lambda>x. ret (x AND SSTATUS_SIE \<noteq> 0))"

subsection \<open>The current hart and process\<close>

definition cpuid :: "('a machine_scheme, nat) kfun" where
  "cpuid = gets hart"

definition mycpu :: "('a machine_scheme, nat) kfun" where
  "mycpu = bnd cpuid (\<lambda>id. ret id)"

definition upd_cpu :: "nat \<Rightarrow> (cpu \<Rightarrow> cpu) \<Rightarrow> ('a machine_scheme, unit) kfun" where
  "upd_cpu c f = modify (\<lambda>s. s\<lparr>cpus := (cpus s)(c := f (cpus s c))\<rparr>)"

definition upd_lock :: "lockid \<Rightarrow> (spinlock \<Rightarrow> spinlock) \<Rightarrow> ('a machine_scheme, unit) kfun" where
  "upd_lock l f = modify (\<lambda>s. s\<lparr>locks := (locks s)(l := f (locks s l))\<rparr>)"

subsection \<open>push_off and pop_off\<close>

definition push_off :: "('a machine_scheme, unit) kfun" where
  "push_off =
     bnd intr_get (\<lambda>old.
     bnd intr_off (\<lambda>_.
     bnd mycpu (\<lambda>c.
     bnd (gets (\<lambda>s. noff (cpus s c) = 0)) (\<lambda>outermost.
     bnd (do_if outermost (upd_cpu c (\<lambda>r. r\<lparr>intena := old\<rparr>))) (\<lambda>_.
     upd_cpu c (\<lambda>r. r\<lparr>noff := noff r + 1\<rparr>))))))"

definition pop_off :: "('a machine_scheme, unit) kfun" where
  "pop_off =
     bnd mycpu (\<lambda>c.
     bnd intr_get (\<lambda>on.
     if on then panic ''pop_off - interruptible''
     else bnd (gets (\<lambda>s. noff (cpus s c) < 1)) (\<lambda>under.
       if under then panic ''pop_off''
       else bnd (upd_cpu c (\<lambda>r. r\<lparr>noff := noff r - 1\<rparr>)) (\<lambda>_.
            bnd (gets (\<lambda>s. noff (cpus s c) = 0 \<and> intena (cpus s c))) (\<lambda>reenable.
            do_if reenable intr_on)))))"

definition myproc :: "('a machine_scheme, nat option) kfun" where
  "myproc =
     bnd push_off (\<lambda>_.
     bnd mycpu (\<lambda>c.
     bnd (gets (\<lambda>s. c_proc (cpus s c))) (\<lambda>p.
     bnd pop_off (\<lambda>_. ret p))))"

subsection \<open>Locks\<close>

definition initlock :: "lockid \<Rightarrow> string \<Rightarrow> ('a machine_scheme, unit) kfun" where
  "initlock l nm = upd_lock l (\<lambda>lk. lk\<lparr>lkname := nm, locked := 0, lcpu := None\<rparr>)"

definition holding :: "lockid \<Rightarrow> ('a machine_scheme, bool) kfun" where
  "holding l = bnd mycpu (\<lambda>c. gets (\<lambda>s. locked (locks s l) \<noteq> 0 \<and> lcpu (locks s l) = Some c))"

text \<open>
  \<^verbatim>\<open>__sync_lock_test_and_set(&lk->locked, 1)\<close>: the atomic swap.  When it returns a
  non-zero value \<open>acquire\<close> spins, which lets the other harts run.
\<close>

definition test_and_set :: "lockid \<Rightarrow> ('a machine_scheme, u32) kfun" where
  "test_and_set l =
     bnd (gets (\<lambda>s. locked (locks s l))) (\<lambda>old.
     bnd (upd_lock l (\<lambda>lk. lk\<lparr>locked := 1\<rparr>)) (\<lambda>_. ret old))"

definition spin :: "lockid \<Rightarrow> ('a machine_scheme, unit) kfun" where
  "spin l = bnd (test_and_set l) (\<lambda>old. if old \<noteq> 0 then (\<lambda>s. Waits (Spins l) s) else ret ())"

definition acquire :: "lockid \<Rightarrow> ('a machine_scheme, unit) kfun" where
  "acquire l =
     bnd push_off (\<lambda>_.
     bnd (holding l) (\<lambda>h.
     if h then panic ''acquire''
     else bnd (spin l) (\<lambda>_.
          bnd mycpu (\<lambda>c. upd_lock l (\<lambda>lk. lk\<lparr>lcpu := Some c\<rparr>)))))"

definition release :: "lockid \<Rightarrow> ('a machine_scheme, unit) kfun" where
  "release l =
     bnd (holding l) (\<lambda>h.
     if \<not> h then panic ''release''
     else bnd (upd_lock l (\<lambda>lk. lk\<lparr>lcpu := None\<rparr>)) (\<lambda>_.
          bnd (upd_lock l (\<lambda>lk. lk\<lparr>locked := 0\<rparr>)) (\<lambda>_. pop_off)))"

text \<open>A critical section: \<open>acquire\<close>, the code, \<open>release\<close> on every way out.\<close>

definition locking :: "lockid \<Rightarrow> ('a machine_scheme, 'b) kfun \<Rightarrow> ('a machine_scheme, 'b) kfun" where
  "locking l m = bnd (acquire l) (\<lambda>_. bnd m (\<lambda>r. bnd (release l) (\<lambda>_. ret r)))"

subsection \<open>What nesting and critical sections do to the machine state\<close>

text \<open>
  \<open>cpu_ok\<close>: the bookkeeping of the current hart is consistent: outside every
  \<open>push_off\<close> the saved flag agrees with the register, inside one interrupts are off.
\<close>

definition sie_on :: "'a machine_scheme \<Rightarrow> bool" where
  "sie_on s \<longleftrightarrow> sstatus s (hart s) AND SSTATUS_SIE \<noteq> 0"

definition cpu_ok :: "'a machine_scheme \<Rightarrow> bool" where
  "cpu_ok s \<longleftrightarrow>
     (noff (cpus s (hart s)) = 0 \<and> intena (cpus s (hart s)) = sie_on s) \<or>
     (noff (cpus s (hart s)) > 0 \<and> \<not> sie_on s)"

definition lock_free :: "lockid \<Rightarrow> 'a machine_scheme \<Rightarrow> bool" where
  "lock_free l s \<longleftrightarrow> locked (locks s l) = 0 \<and> lcpu (locks s l) = None"

definition off_state :: "'a machine_scheme \<Rightarrow> 'a machine_scheme" where
  "off_state s = s\<lparr>cpus := (cpus s)(hart s := (cpus s (hart s))\<lparr>
                     intena := (if noff (cpus s (hart s)) = 0 then sie_on s
                                else intena (cpus s (hart s))),
                     noff := noff (cpus s (hart s)) + 1\<rparr>),
                   sstatus := (sstatus s)(hart s := sstatus s (hart s) AND NOT SSTATUS_SIE)\<rparr>"

definition take_lock :: "lockid \<Rightarrow> 'a machine_scheme \<Rightarrow> 'a machine_scheme" where
  "take_lock l s = (off_state s)\<lparr>locks := (locks s)(l := (locks s l)\<lparr>
                     locked := 1, lcpu := Some (hart s)\<rparr>)\<rparr>"

lemma bit_SIE [simp]: "bit SSTATUS_SIE n \<longleftrightarrow> n = 1"
  by (auto simp: SSTATUS_SIE_def bit_simps)

lemma and_SIE_iff: "x AND SSTATUS_SIE \<noteq> 0 \<longleftrightarrow> bit x 1"
  by (auto simp: bit_eq_iff [of "x AND SSTATUS_SIE" 0] bit_simps)

lemma SSTATUS_SIE_nonzero [simp]: "SSTATUS_SIE \<noteq> 0"
  by (simp add: SSTATUS_SIE_def)

lemma sie_bit [simp]: "(x AND NOT SSTATUS_SIE) AND SSTATUS_SIE = 0"
  using and_SIE_iff [of "x AND NOT SSTATUS_SIE"] by (simp add: bit_simps)

lemma sie_restore: "x AND SSTATUS_SIE \<noteq> 0 \<Longrightarrow> (x AND NOT SSTATUS_SIE) OR SSTATUS_SIE = x"
  by (rule bit_eqI) (auto simp: and_SIE_iff bit_simps dest: bit_imp_le_length)

lemma sie_clear_id: "x AND SSTATUS_SIE = 0 \<Longrightarrow> x AND NOT SSTATUS_SIE = x"
  using and_SIE_iff [of x] by (intro bit_eqI) (auto simp: bit_simps dest: bit_imp_le_length)

lemma intr_get_eq [exec]: "intr_get s = Ok (sie_on s) s"
  by (simp add: intr_get_def r_sstatus_def sie_on_def exec)

lemma push_off_eq [exec]: "push_off s = Ok () (off_state s)"
  by (simp add: push_off_def intr_off_def r_sstatus_def w_sstatus_def upd_cpu_def mycpu_def
      cpuid_def off_state_def do_if_def exec)

lemma hart_off_state [simp]: "hart (off_state s) = hart s"
  by (simp add: off_state_def)

lemma hart_take_lock [simp]: "hart (take_lock l s) = hart s"
  by (simp add: take_lock_def)

lemma machine_of_off_state [simp]:
  "locks (off_state s) = locks s"
  "sie_on (off_state s) = False"
  "noff (cpus (off_state s) (hart s)) = noff (cpus s (hart s)) + 1"
  "c_proc (cpus (off_state s) h) = c_proc (cpus s h)"
  by (simp_all add: off_state_def sie_on_def)

lemma pop_off_off_state: "cpu_ok s \<Longrightarrow> pop_off (off_state s) = Ok () s"
  by (auto simp: pop_off_def mycpu_def cpuid_def exec upd_cpu_def do_if_def cpu_ok_def
      off_state_def sie_on_def intr_on_def r_sstatus_def w_sstatus_def sie_restore sie_clear_id
      fun_upd_idem)

lemma myproc_eq [exec]: "cpu_ok s \<Longrightarrow> myproc s = Ok (c_proc (cpus s (hart s))) s"
  by (simp add: myproc_def exec mycpu_def cpuid_def pop_off_off_state)

lemma acquire_free: "lock_free l s \<Longrightarrow> acquire l s = Ok () (take_lock l s)"
  by (simp add: acquire_def exec holding_def mycpu_def cpuid_def lock_free_def spin_def
      test_and_set_def upd_lock_def take_lock_def)

lemma acquire_own:
  "locked (locks s l) \<noteq> 0 \<Longrightarrow> lcpu (locks s l) = Some (hart s) \<Longrightarrow> acquire l s = Panic ''acquire''"
  by (simp add: acquire_def exec holding_def mycpu_def cpuid_def)

lemma release_not_held:
  "\<not> (locked (locks s l) \<noteq> 0 \<and> lcpu (locks s l) = Some (hart s)) \<Longrightarrow>
   release l s = Panic ''release''"
  by (simp add: release_def exec holding_def mycpu_def cpuid_def)

lemma release_take_lock:
  assumes "lock_free l s" and "cpu_ok s"
  shows "release l (take_lock l s) = Ok () s"
proof -
  have eq: "(off_state s)\<lparr>locks := (locks s)(l := (locks s l)\<lparr>lcpu := None, locked := 0\<rparr>)\<rparr>
        = off_state s"
    using assms(1) by (simp add: lock_free_def off_state_def fun_upd_idem)
  then show ?thesis
    using assms(2) by (simp add: release_def exec holding_def mycpu_def cpuid_def take_lock_def
        upd_lock_def pop_off_off_state)
qed

lemma cpu_ok_take_lock [simp]: "cpu_ok s \<Longrightarrow> cpu_ok (take_lock l s)"
  by (auto simp: cpu_ok_def take_lock_def off_state_def sie_on_def)

lemma lock_free_take_lock [simp]: "lock_free l' (take_lock l s) \<longleftrightarrow> l' \<noteq> l \<and> lock_free l' s"
  by (auto simp: lock_free_def take_lock_def off_state_def)

lemma c_proc_take_lock [simp]: "c_proc (cpus (take_lock l s) h) = c_proc (cpus s h)"
  by (simp add: take_lock_def off_state_def)

text \<open>
  A critical section on a free lock is its body: if the body, run with the lock taken, ends
  in a state that is \<open>t\<close> with the lock taken, the whole section ends in \<open>t\<close>.
\<close>

lemma locking_Ok:
  assumes "lock_free l s" and "m (take_lock l s) = Ok r (take_lock l t)"
    and "lock_free l t" and "cpu_ok t"
  shows "locking l m s = Ok r t"
  using assms by (simp add: locking_def exec acquire_free release_take_lock)

lemma locking_Panic:
  assumes "lock_free l s" and "m (take_lock l s) = Panic msg"
  shows "locking l m s = Panic msg"
  using assms by (simp add: locking_def exec acquire_free)

lemma locking_gets [exec]:
  assumes "lock_free l s" and "cpu_ok s"
  shows "locking l (gets f) s = Ok (f (take_lock l s)) s"
  using assms by (intro locking_Ok) simp_all

lemma locking_modify:
  assumes "lock_free l s" and "cpu_ok s"
    and "f (take_lock l s) = take_lock l t" and "lock_free l t" and "cpu_ok t"
  shows "locking l (modify f) s = Ok () t"
  using assms by (intro locking_Ok) simp_all

subsection \<open>Invariants that do not mention locks and interrupts\<close>

lemma keeps_spin: "keeps I (upd_lock l f) \<Longrightarrow> (\<And>f. keeps I (upd_lock l f)) \<Longrightarrow> keeps I (spin l)"
  unfolding spin_def test_and_set_def
  by (intro keeps_bnd keeps_gets keeps_ret keeps_if) (auto simp: keeps_def)

lemma keeps_machine:
  assumes "\<And>s f. I s \<Longrightarrow> I (s\<lparr>cpus := f\<rparr>)" and "\<And>s f. I s \<Longrightarrow> I (s\<lparr>locks := f\<rparr>)"
    and "\<And>s f. I s \<Longrightarrow> I (s\<lparr>sstatus := f\<rparr>)"
  shows "keeps I push_off" and "keeps I pop_off" and "keeps I (acquire l)" and "keeps I (release l)"
    and "keeps I myproc" and "keeps I intr_on" and "keeps I (holding l)" and "keeps I mycpu"
    and "keeps I (upd_cpu c g)"
proof -
  have cpu: "keeps I (upd_cpu c f)" for c f by (simp add: upd_cpu_def keeps_modify assms(1))
  have lock: "keeps I (upd_lock l f)" for l f by (simp add: upd_lock_def keeps_modify assms(2))
  have st: "keeps I (w_sstatus x)" for x by (simp add: w_sstatus_def keeps_modify assms(3))
  have my: "keeps I mycpu" by (simp add: mycpu_def cpuid_def keeps_bnd keeps_gets keeps_ret)
  have get: "keeps I intr_get" "keeps I r_sstatus"
    by (simp_all add: intr_get_def r_sstatus_def keeps_bnd keeps_gets keeps_ret)
  have on: "keeps I intr_on" "keeps I intr_off"
    unfolding intr_on_def intr_off_def by (intro keeps_bnd get st)+
  show "keeps I push_off" unfolding push_off_def by (intro keeps_bnd keeps_gets keeps_do_if get on my cpu)
  then have push: "keeps I push_off" .
  show "keeps I pop_off" unfolding pop_off_def
    by (intro keeps_bnd keeps_gets keeps_do_if keeps_if keeps_panic get on my cpu)
  then have pop: "keeps I pop_off" .
  have hold: "keeps I (holding l)" for l unfolding holding_def by (intro keeps_bnd keeps_gets my)
  show "keeps I (acquire l)" unfolding acquire_def
    by (intro keeps_bnd keeps_if keeps_panic push hold my lock keeps_spin)
  show "keeps I (release l)" unfolding release_def
    by (intro keeps_bnd keeps_if keeps_panic pop hold lock)
  show "keeps I myproc" unfolding myproc_def by (intro keeps_bnd keeps_gets keeps_ret push pop my)
  show "keeps I intr_on" "keeps I (holding l)" "keeps I mycpu" "keeps I (upd_cpu c g)"
    using on hold my cpu by simp_all
qed

lemma keeps_locking:
  "keeps I (acquire l) \<Longrightarrow> keeps I m \<Longrightarrow> keeps I (release l) \<Longrightarrow> keeps I (locking l m)"
  unfolding locking_def by (intro keeps_bnd keeps_ret)

subsection \<open>Several harts contending for locks\<close>

text \<open>
  Each hart is between two memory accesses of \<open>acquire\<close> or \<open>release\<close>; a step performs
  the next one.  \<open>P_run\<close>: running other code.  \<open>P_check l\<close>: in \<open>acquire l\<close>, interrupts
  are off, \<open>holding\<close> comes next.  \<open>P_spin l\<close>: the atomic swap comes next.  \<open>P_cpu l\<close>: the
  swap returned 0, \<^verbatim>\<open>lk->cpu = mycpu()\<close> comes next.  \<open>P_unlock l\<close>: in \<open>release l\<close>, after
  \<^verbatim>\<open>lk->cpu = 0\<close>.  \<open>held h\<close> records, newest first, the locks whose swap hart \<open>h\<close> won and
  whose \<^verbatim>\<open>locked\<close> word it has not yet cleared; the code does not have this variable.
\<close>

datatype lockpc = P_run | P_check lockid | P_spin lockid | P_cpu lockid | P_unlock lockid

record harts =
  mach :: machine
  pcs :: "nat \<Rightarrow> lockpc"
  held :: "nat \<Rightarrow> lockid list"

abbreviation on_hart :: "nat \<Rightarrow> harts \<Rightarrow> machine" where
  "on_hart h g \<equiv> (mach g)\<lparr>hart := h\<rparr>"

inductive hart_step :: "harts \<Rightarrow> harts \<Rightarrow> bool" where
  acq_off: "\<lbrakk> pcs g h = P_run; push_off (on_hart h g) = Ok () m \<rbrakk>
     \<Longrightarrow> hart_step g (g\<lparr>mach := m, pcs := (pcs g)(h := P_check l)\<rparr>)"
| acq_check: "\<lbrakk> pcs g h = P_check l; holding l (on_hart h g) = Ok False m \<rbrakk>
     \<Longrightarrow> hart_step g (g\<lparr>mach := m, pcs := (pcs g)(h := P_spin l)\<rparr>)"
| acq_lost: "\<lbrakk> pcs g h = P_spin l; test_and_set l (on_hart h g) = Ok old m; old \<noteq> 0 \<rbrakk>
     \<Longrightarrow> hart_step g (g\<lparr>mach := m\<rparr>)"
| acq_won: "\<lbrakk> pcs g h = P_spin l; test_and_set l (on_hart h g) = Ok 0 m \<rbrakk>
     \<Longrightarrow> hart_step g (g\<lparr>mach := m, pcs := (pcs g)(h := P_cpu l),
                        held := (held g)(h := l # held g h)\<rparr>)"
| acq_cpu: "\<lbrakk> pcs g h = P_cpu l; upd_lock l (\<lambda>lk. lk\<lparr>lcpu := Some h\<rparr>) (on_hart h g) = Ok () m \<rbrakk>
     \<Longrightarrow> hart_step g (g\<lparr>mach := m, pcs := (pcs g)(h := P_run)\<rparr>)"
| rel_cpu: "\<lbrakk> pcs g h = P_run; holding l (on_hart h g) = Ok True m';
      upd_lock l (\<lambda>lk. lk\<lparr>lcpu := None\<rparr>) m' = Ok () m \<rbrakk>
     \<Longrightarrow> hart_step g (g\<lparr>mach := m, pcs := (pcs g)(h := P_unlock l)\<rparr>)"
| rel_unlock: "\<lbrakk> pcs g h = P_unlock l;
      bnd (upd_lock l (\<lambda>lk. lk\<lparr>locked := 0\<rparr>)) (\<lambda>_. pop_off) (on_hart h g) = Ok () m \<rbrakk>
     \<Longrightarrow> hart_step g (g\<lparr>mach := m, pcs := (pcs g)(h := P_run),
                        held := (held g)(h := remove1 l (held g h))\<rparr>)"

definition init_harts :: harts where
  "init_harts = \<lparr>mach = \<lparr>hart = 0, cpus = (\<lambda>_. \<lparr>c_proc = None, noff = 0, intena = False\<rparr>),
       sstatus = (\<lambda>_. SSTATUS_SIE), locks = (\<lambda>_. \<lparr>locked = 0, lkname = [], lcpu = None\<rparr>)\<rparr>,
     pcs = (\<lambda>_. P_run), held = (\<lambda>_. [])\<rparr>"

inductive harts_reachable :: "harts \<Rightarrow> bool" where
  init: "harts_reachable init_harts"
| step: "harts_reachable g \<Longrightarrow> hart_step g g' \<Longrightarrow> harts_reachable g'"

text \<open>Nesting depth that the position inside \<open>acquire\<close> adds to the locks held.\<close>

fun pending :: "lockpc \<Rightarrow> nat" where
  "pending (P_check l) = 1"
| "pending (P_spin l) = 1"
| "pending pc = 0"

text \<open>
  The invariant, clause by clause: the \<^verbatim>\<open>locked\<close> word says whether some hart owns the
  lock; owners are unique; no hart owns a lock twice; the recorded cpu is the owner except
  in the two windows of \<open>acquire\<close> and \<open>release\<close>; the nesting depth counts the locks; and
  interrupts are off while it is positive.
\<close>

definition inv_word :: "harts \<Rightarrow> bool" where
  "inv_word g \<longleftrightarrow> (\<forall>l. locked (locks (mach g) l) = (if \<exists>h. l \<in> set (held g h) then 1 else 0))"

definition inv_owner :: "harts \<Rightarrow> bool" where
  "inv_owner g \<longleftrightarrow> (\<forall>l h h'. l \<in> set (held g h) \<longrightarrow> l \<in> set (held g h') \<longrightarrow> h = h') \<and>
     (\<forall>h. distinct (held g h))"

definition inv_cpu :: "harts \<Rightarrow> bool" where
  "inv_cpu g \<longleftrightarrow> (\<forall>l h. lcpu (locks (mach g) l) = Some h \<longleftrightarrow>
        l \<in> set (held g h) \<and> pcs g h \<noteq> P_cpu l \<and> pcs g h \<noteq> P_unlock l) \<and>
     (\<forall>l h. pcs g h = P_cpu l \<or> pcs g h = P_unlock l \<longrightarrow> l \<in> set (held g h))"

definition inv_noff :: "harts \<Rightarrow> bool" where
  "inv_noff g \<longleftrightarrow>
     (\<forall>h. noff (cpus (mach g) h) = int (length (held g h) + pending (pcs g h))) \<and>
     (\<forall>h. noff (cpus (mach g) h) > 0 \<longrightarrow> sstatus (mach g) h AND SSTATUS_SIE = 0)"

definition lock_inv :: "harts \<Rightarrow> bool" where
  "lock_inv g \<longleftrightarrow> inv_word g \<and> inv_owner g \<and> inv_cpu g \<and> inv_noff g"

lemmas lock_inv_defs = lock_inv_def inv_word_def inv_owner_def inv_cpu_def inv_noff_def

lemmas lock_ops = exec holding_def mycpu_def cpuid_def test_and_set_def upd_lock_def

lemma pop_off_result:
  assumes "pop_off m = Ok () m'"
  shows "locks m' = locks m \<and> noff (cpus m (hart m)) > 0 \<and>
    cpus m' = (cpus m)(hart m := (cpus m (hart m))\<lparr>noff := noff (cpus m (hart m)) - 1\<rparr>) \<and>
    (\<forall>h. h \<noteq> hart m \<or> noff (cpus m' (hart m)) \<noteq> 0 \<longrightarrow> sstatus m' h = sstatus m h)"
  using assms
  by (auto simp: pop_off_def lock_ops upd_cpu_def do_if_def intr_on_def r_sstatus_def
      w_sstatus_def split: if_splits)

lemma lock_inv_init: "lock_inv init_harts"
  by (simp add: lock_inv_defs init_harts_def)

lemma lock_inv_acq_off:
  assumes "lock_inv g" and "pcs g h = P_run" and "push_off (on_hart h g) = Ok () m"
  shows "lock_inv (g\<lparr>mach := m, pcs := (pcs g)(h := P_check l)\<rparr>)"
  using assms by (auto simp: lock_inv_defs lock_ops off_state_def)

lemma lock_inv_acq_check:
  assumes "lock_inv g" and "pcs g h = P_check l" and "holding l (on_hart h g) = Ok False m"
  shows "lock_inv (g\<lparr>mach := m, pcs := (pcs g)(h := P_spin l)\<rparr>)"
  using assms by (auto simp: lock_inv_defs lock_ops)

lemma inv_cpuD:
  assumes "lock_inv g"
  shows "lcpu (locks (mach g) l) = Some h \<longleftrightarrow>
        l \<in> set (held g h) \<and> pcs g h \<noteq> P_cpu l \<and> pcs g h \<noteq> P_unlock l"
    and "pcs g h = P_cpu l \<or> pcs g h = P_unlock l \<Longrightarrow> l \<in> set (held g h)"
  using assms unfolding lock_inv_def inv_cpu_def by blast+

lemma inv_ownerD:
  assumes "lock_inv g"
  shows "l \<in> set (held g h) \<Longrightarrow> l \<in> set (held g h') \<Longrightarrow> h = h'" and "distinct (held g h)"
  using assms by (auto simp: lock_inv_def inv_owner_def)

lemma lock_inv_acq_lost:
  assumes inv: "lock_inv g" and run: "test_and_set l (on_hart h g) = Ok old m" and "old \<noteq> 0"
  shows "lock_inv (g\<lparr>mach := m\<rparr>)"
proof -
  have "locked (locks (mach g) l) = 1"
    using assms by (auto simp: lock_inv_defs lock_ops split: if_splits)
  then have "m = on_hart h g"
    using run by (simp add: lock_ops fun_upd_idem)
  then show ?thesis
    using inv by (simp add: lock_inv_defs)
qed

lemma lock_inv_acq_won:
  assumes inv: "lock_inv g" and pc: "pcs g h = P_spin l"
    and run: "test_and_set l (on_hart h g) = Ok 0 m"
  shows "lock_inv (g\<lparr>mach := m, pcs := (pcs g)(h := P_cpu l), held := (held g)(h := l # held g h)\<rparr>)"
    (is "lock_inv ?g")
proof -
  have m: "m = (on_hart h g)\<lparr>locks := (locks (mach g))(l := (locks (mach g) l)\<lparr>locked := 1\<rparr>)\<rparr>"
    and "locked (locks (mach g) l) = 0"
    using run by (simp_all add: lock_ops)
  then have free: "\<And>k. l \<notin> set (held g k)"
    using inv by (auto simp: lock_inv_defs split: if_splits)
  then have nocpu: "lcpu (locks (mach g) l) = None"
    using inv by (cases "lcpu (locks (mach g) l)") (auto simp: lock_inv_defs)
  have "(\<exists>k. x \<in> set (held ?g k)) \<longleftrightarrow> x = l \<or> (\<exists>k. x \<in> set (held g k))" for x
    by auto
  then have "inv_word ?g"
    using inv by (auto simp: m lock_inv_def inv_word_def)
  moreover have "inv_owner ?g"
    using inv free by (auto simp: lock_inv_def inv_owner_def)
  moreover have "inv_cpu ?g"
    using inv free nocpu pc by (auto simp: m lock_inv_def inv_cpu_def)
  moreover have "inv_noff ?g"
    using inv pc by (auto simp: m lock_inv_def inv_noff_def)
  ultimately show ?thesis by (simp add: lock_inv_def)
qed

lemma lock_inv_acq_cpu:
  assumes inv: "lock_inv g" and pc: "pcs g h = P_cpu l"
    and run: "upd_lock l (\<lambda>lk. lk\<lparr>lcpu := Some h\<rparr>) (on_hart h g) = Ok () m"
  shows "lock_inv (g\<lparr>mach := m, pcs := (pcs g)(h := P_run)\<rparr>)" (is "lock_inv ?g")
proof -
  have m: "m = (on_hart h g)\<lparr>locks := (locks (mach g))(l := (locks (mach g) l)\<lparr>lcpu := Some h\<rparr>)\<rparr>"
    using run by (simp add: lock_ops)
  have mine: "l \<in> set (held g h)"
    using pc inv_cpuD(2) [OF inv, of h l] by simp
  have own: "l \<in> set (held g k) \<longleftrightarrow> k = h" for k
    using mine inv_ownerD(1) [OF inv, of l k h] by blast
  have "inv_word ?g" using inv by (simp add: m lock_inv_def inv_word_def)
  moreover have "inv_owner ?g" using inv by (simp add: lock_inv_def inv_owner_def)
  moreover have "inv_noff ?g" using inv pc by (simp add: m lock_inv_def inv_noff_def)
  moreover have "inv_cpu ?g"
    unfolding inv_cpu_def
  proof (intro conjI allI)
    fix x k
    show "lcpu (locks (mach ?g) x) = Some k \<longleftrightarrow>
        x \<in> set (held ?g k) \<and> pcs ?g k \<noteq> P_cpu x \<and> pcs ?g k \<noteq> P_unlock x"
      using own pc inv_cpuD(1) [OF inv, of x k] by (cases "x = l"; cases "k = h") (auto simp: m)
    show "pcs ?g k = P_cpu x \<or> pcs ?g k = P_unlock x \<longrightarrow> x \<in> set (held ?g k)"
      using own pc inv_cpuD(2) [OF inv, of k x] by (cases "k = h") auto
  qed
  ultimately show ?thesis by (simp add: lock_inv_def)
qed

lemma lock_inv_rel_cpu:
  assumes inv: "lock_inv g" and pc: "pcs g h = P_run" and hold: "holding l (on_hart h g) = Ok True m'"
    and run: "upd_lock l (\<lambda>lk. lk\<lparr>lcpu := None\<rparr>) m' = Ok () m"
  shows "lock_inv (g\<lparr>mach := m, pcs := (pcs g)(h := P_unlock l)\<rparr>)" (is "lock_inv ?g")
proof -
  have cpu: "lcpu (locks (mach g) l) = Some h" and m': "m' = on_hart h g"
    using hold by (simp_all add: lock_ops)
  have m: "m = (on_hart h g)\<lparr>locks := (locks (mach g))(l := (locks (mach g) l)\<lparr>lcpu := None\<rparr>)\<rparr>"
    using run by (simp add: m' lock_ops)
  have mine: "l \<in> set (held g h)"
    using cpu inv_cpuD(1) [OF inv, of l h] by simp
  have own: "l \<in> set (held g k) \<longleftrightarrow> k = h" for k
    using mine inv_ownerD(1) [OF inv, of l k h] by blast
  have "inv_word ?g" using inv by (simp add: m lock_inv_def inv_word_def)
  moreover have "inv_owner ?g" using inv by (simp add: lock_inv_def inv_owner_def)
  moreover have "inv_noff ?g" using inv pc by (simp add: m lock_inv_def inv_noff_def)
  moreover have "inv_cpu ?g"
    unfolding inv_cpu_def
  proof (intro conjI allI)
    fix x k
    show "lcpu (locks (mach ?g) x) = Some k \<longleftrightarrow>
        x \<in> set (held ?g k) \<and> pcs ?g k \<noteq> P_cpu x \<and> pcs ?g k \<noteq> P_unlock x"
      using own pc inv_cpuD(1) [OF inv, of x k] by (cases "x = l"; cases "k = h") (auto simp: m)
    show "pcs ?g k = P_cpu x \<or> pcs ?g k = P_unlock x \<longrightarrow> x \<in> set (held ?g k)"
      using own pc inv_cpuD(2) [OF inv, of k x] by (cases "k = h") auto
  qed
  ultimately show ?thesis by (simp add: lock_inv_def)
qed

lemma lock_inv_rel_unlock:
  assumes inv: "lock_inv g" and pc: "pcs g h = P_unlock l"
    and run: "bnd (upd_lock l (\<lambda>lk. lk\<lparr>locked := 0\<rparr>)) (\<lambda>_. pop_off) (on_hart h g) = Ok () m"
  shows "lock_inv (g\<lparr>mach := m, pcs := (pcs g)(h := P_run), held := (held g)(h := remove1 l (held g h))\<rparr>)"
    (is "lock_inv ?g")
proof -
  let ?m = "(on_hart h g)\<lparr>locks := (locks (mach g))(l := (locks (mach g) l)\<lparr>locked := 0\<rparr>)\<rparr>"
  have "pop_off ?m = Ok () m"
    using run by (simp add: lock_ops)
  note m = pop_off_result [OF this]
  have mine: "l \<in> set (held g h)" and dist: "distinct (held g h)"
    using pc inv_cpuD(2) [OF inv, of h l] inv_ownerD(2) [OF inv] by simp_all
  have own: "l \<in> set (held g k) \<longleftrightarrow> k = h" for k
    using mine inv_ownerD(1) [OF inv, of l k h] by blast
  have held: "x \<in> set (held ?g k) \<longleftrightarrow> x \<in> set (held g k) \<and> x \<noteq> l" for x k
    using own dist by auto
  have "inv_word ?g"
    using inv m unfolding lock_inv_def inv_word_def held by auto
  moreover have "inv_owner ?g"
    using inv by (auto simp: held lock_inv_def inv_owner_def intro: distinct_remove1)
  moreover have "inv_cpu ?g"
    unfolding inv_cpu_def
  proof (intro conjI allI)
    fix x k
    have lk: "lcpu (locks m x) = lcpu (locks (mach g) x)"
      using m by simp
    show "lcpu (locks (mach ?g) x) = Some k \<longleftrightarrow>
        x \<in> set (held ?g k) \<and> pcs ?g k \<noteq> P_cpu x \<and> pcs ?g k \<noteq> P_unlock x"
      unfolding held using own pc inv_cpuD(1) [OF inv, of x k] lk
      by (cases "x = l"; cases "k = h") auto
    show "pcs ?g k = P_cpu x \<or> pcs ?g k = P_unlock x \<longrightarrow> x \<in> set (held ?g k)"
      unfolding held using own pc inv_cpuD(2) [OF inv, of k x] inv_cpuD(2) [OF inv, of k l]
      by (cases "k = h") auto
  qed
  moreover have "inv_noff ?g"
  proof -
    have "length (remove1 l (held g h)) = length (held g h) - 1" and "length (held g h) > 0"
      using mine by (auto simp: length_remove1)
    then have len: "int (length (remove1 l (held g h))) = int (length (held g h)) - 1"
      by linarith
    have old: "noff (cpus (mach g) k) = int (length (held g k) + pending (pcs g k))"
      "noff (cpus (mach g) k) > 0 \<longrightarrow> sstatus (mach g) k AND SSTATUS_SIE = 0" for k
      using inv by (simp_all add: lock_inv_def inv_noff_def)
    show ?thesis
      unfolding inv_noff_def
    proof (intro conjI allI impI)
      fix k
      show "noff (cpus (mach ?g) k) = int (length (held ?g k) + pending (pcs ?g k))"
        using m len old(1) [of k] pc by (cases "k = h") simp_all
      assume "noff (cpus (mach ?g) k) > 0"
      then show "sstatus (mach ?g) k AND SSTATUS_SIE = 0"
        using m old(2) [of k] by (cases "k = h") simp_all
    qed
  qed
  ultimately show ?thesis by (simp add: lock_inv_def)
qed

lemma hart_step_lock_inv: "hart_step g g' \<Longrightarrow> lock_inv g \<Longrightarrow> lock_inv g'"
  by (induction rule: hart_step.induct)
    (blast intro: lock_inv_acq_off lock_inv_acq_check lock_inv_acq_lost lock_inv_acq_won
      lock_inv_acq_cpu lock_inv_rel_cpu lock_inv_rel_unlock)+

lemma reachable_lock_inv: "harts_reachable g \<Longrightarrow> lock_inv g"
  by (induction rule: harts_reachable.induct) (auto intro: lock_inv_init hart_step_lock_inv)

subsection \<open>Properties\<close>

text \<open>
  Claim C2.  Mutual exclusion of \<open>acquire\<close>/\<open>release\<close> under every interleaving of the harts'
  memory accesses: a lock has at most one owner; while it has an owner, the atomic swap of
  every hart fails, so every other \<open>acquire\<close> keeps spinning; the owner runs with
  interrupts off; and once the owner is back in its own code, \<open>holding\<close> answers true for it,
  so its \<open>release\<close> does not panic.
\<close>

theorem spinlock_mutual_exclusion:
  assumes "harts_reachable g" and "l \<in> set (held g h)"
  shows "(\<forall>h'. l \<in> set (held g h') \<longrightarrow> h' = h) \<and>
    (\<forall>h' old m. test_and_set l (on_hart h' g) = Ok old m \<longrightarrow> old \<noteq> 0) \<and>
    intr_get (on_hart h g) = Ok False (on_hart h g) \<and>
    (pcs g h = P_run \<longrightarrow> holding l (on_hart h g) = Ok True (on_hart h g))"
proof -
  note inv = reachable_lock_inv [OF assms(1)]
  have word: "locked (locks (mach g) l) = 1"
    using inv assms(2) by (auto simp: lock_inv_def inv_word_def)
  have "length (held g h) > 0"
    using assms(2) by auto
  then have "noff (cpus (mach g) h) > 0"
    using inv by (simp add: lock_inv_def inv_noff_def add_pos_nonneg)
  then have "sstatus (mach g) h AND SSTATUS_SIE = 0"
    using inv by (simp add: lock_inv_def inv_noff_def)
  then have "intr_get (on_hart h g) = Ok False (on_hart h g)"
    by (simp add: exec sie_on_def)
  moreover have "pcs g h = P_run \<longrightarrow> lcpu (locks (mach g) l) = Some h"
    using inv_cpuD(1) [OF inv, of l h] assms(2) by simp
  moreover have "\<forall>h'. l \<in> set (held g h') \<longrightarrow> h' = h"
    using inv_ownerD(1) [OF inv _ assms(2)] by blast
  ultimately show ?thesis
    using word by (simp add: lock_ops)
qed

lemma hart_step_run_to_won:
  "harts_reachable ((init_harts\<lparr>pcs := (pcs init_harts)(0 := P_cpu L_kmem),
      mach := (take_lock L_kmem (mach init_harts))\<lparr>locks := (locks (mach init_harts))
        (L_kmem := (locks (mach init_harts) L_kmem)\<lparr>locked := 1\<rparr>)\<rparr>,
      held := (held init_harts)(0 := [L_kmem])\<rparr>))"
proof -
  let ?g1 = "init_harts\<lparr>mach := off_state (on_hart 0 init_harts), pcs := (pcs init_harts)(0 := P_check L_kmem)\<rparr>"
  have h: "on_hart 0 init_harts = mach init_harts"
    by (simp add: init_harts_def)
  have 1: "hart_step init_harts ?g1"
    by (rule hart_step.acq_off) (simp_all add: exec init_harts_def)
  let ?g2 = "?g1\<lparr>mach := on_hart 0 ?g1, pcs := (pcs ?g1)(0 := P_spin L_kmem)\<rparr>"
  have 2: "hart_step ?g1 ?g2"
    by (rule hart_step.acq_check) (simp_all add: lock_ops off_state_def init_harts_def)
  let ?m3 = "(on_hart 0 ?g2)\<lparr>locks := (locks (mach ?g2))(L_kmem := (locks (mach ?g2) L_kmem)\<lparr>locked := 1\<rparr>)\<rparr>"
  let ?g3 = "?g2\<lparr>mach := ?m3, pcs := (pcs ?g2)(0 := P_cpu L_kmem), held := (held ?g2)(0 := L_kmem # held ?g2 0)\<rparr>"
  have 3: "hart_step ?g2 ?g3"
    by (rule hart_step.acq_won) (simp_all add: lock_ops off_state_def init_harts_def)
  have "harts_reachable ?g3"
    by (intro harts_reachable.step [OF _ 3] harts_reachable.step [OF _ 2]
        harts_reachable.step [OF _ 1] harts_reachable.init)
  then show ?thesis
    by (simp add: h take_lock_def off_state_def init_harts_def)
qed

theorem spinlock_mutual_exclusion_witness:
  "\<exists>g. harts_reachable g \<and> L_kmem \<in> set (held g 0) \<and>
     (\<forall>h'. L_kmem \<in> set (held g h') \<longrightarrow> h' = 0) \<and>
     (\<forall>h' old m. test_and_set L_kmem (on_hart h' g) = Ok old m \<longrightarrow> old \<noteq> 0)"
proof -
  have "L_kmem \<in> set (held (init_harts\<lparr>pcs := (pcs init_harts)(0 := P_cpu L_kmem),
      mach := (take_lock L_kmem (mach init_harts))\<lparr>locks := (locks (mach init_harts))
        (L_kmem := (locks (mach init_harts) L_kmem)\<lparr>locked := 1\<rparr>)\<rparr>,
      held := (held init_harts)(0 := [L_kmem])\<rparr>) 0)"
    by simp
  with spinlock_mutual_exclusion [OF hart_step_run_to_won this] hart_step_run_to_won
  show ?thesis by blast
qed



end
