(* ===== verification/Xv6_Memory.thy ===== *)
theory Xv6_Memory
  imports Xv6_Prelude
begin

text \<open>
  Byte memory and the routines of \<^verbatim>\<open>kernel/string.c\<close>.  A memory is a total map from
  64-bit addresses to bytes; pointer arithmetic wraps as it does on the machine.  The C
  loops are written as recursive functions over the same variables, and each is proved
  equal to (or characterised by) a direct description of its effect, which the other
  components then use: \<open>mem_fill\<close> for \<open>memset\<close>, \<open>mem_copy\<close> for \<open>memmove\<close>.

  The theory also holds the little-endian view of memory as 64-bit words
  (\<open>load64\<close>, \<open>store64\<close>) through which the kernel reads list links and page-table entries.
\<close>

type_synonym memory = "u64 \<Rightarrow> u8"

subsection \<open>Direct descriptions\<close>

definition mem_fill :: "memory \<Rightarrow> u64 \<Rightarrow> nat \<Rightarrow> u8 \<Rightarrow> memory" where
  "mem_fill m a n c = (\<lambda>x. if unat (x - a) < n then c else m x)"

definition mem_copy :: "memory \<Rightarrow> u64 \<Rightarrow> u64 \<Rightarrow> nat \<Rightarrow> memory" where
  "mem_copy m d s n = (\<lambda>x. if unat (x - d) < n then m (s + (x - d)) else m x)"

definition read_bytes :: "memory \<Rightarrow> u64 \<Rightarrow> nat \<Rightarrow> u8 list" where
  "read_bytes m a n = map (\<lambda>i. m (a + of_nat i)) [0..<n]"

definition write_bytes :: "memory \<Rightarrow> u64 \<Rightarrow> u8 list \<Rightarrow> memory" where
  "write_bytes m a bs = (\<lambda>x. if unat (x - a) < length bs then bs ! unat (x - a) else m x)"

subsection \<open>Little-endian words\<close>

fun le_word :: "u8 list \<Rightarrow> 'a::len word" where
  "le_word [] = 0"
| "le_word (b # bs) = ucast b OR push_bit 8 (le_word bs)"

fun le_bytes :: "nat \<Rightarrow> 'a::len word \<Rightarrow> u8 list" where
  "le_bytes 0 w = []"
| "le_bytes (Suc n) w = ucast w # le_bytes n (drop_bit 8 w)"

definition load64 :: "memory \<Rightarrow> u64 \<Rightarrow> u64" where
  "load64 m a = le_word (read_bytes m a 8)"

definition store64 :: "memory \<Rightarrow> u64 \<Rightarrow> u64 \<Rightarrow> memory" where
  "store64 m a v = write_bytes m a (le_bytes 8 v)"

subsection \<open>kernel/string.c\<close>

text \<open>\<^verbatim>\<open>for(i = 0; i < n; i++) cdst[i] = c;\<close>\<close>

function memset_loop :: "memory \<Rightarrow> u64 \<Rightarrow> u8 \<Rightarrow> u32 \<Rightarrow> u32 \<Rightarrow> memory" where
  "memset_loop m dst c i n =
     (if i < n then memset_loop (m(dst + ucast i := c)) dst c (i + 1) n else m)"
  by pat_completeness auto
termination
proof (relation "measure (\<lambda>(m, dst, c, i, n). unat n - unat i)")
  fix m :: memory and dst :: u64 and c :: u8 and i n :: u32
  assume "i < n"
  then have "unat (i + 1) = unat i + 1" and "unat i < unat n"
    by (simp_all add: unat_add_one word_less_nat_alt)
  then show "((m(dst + ucast i := c), dst, c, i + 1, n), m, dst, c, i, n)
    \<in> measure (\<lambda>(m, dst, c, i, n). unat n - unat i)"
    by simp
qed simp

declare memset_loop.simps [simp del]

definition memset :: "memory \<Rightarrow> u64 \<Rightarrow> u32 \<Rightarrow> u32 \<Rightarrow> memory" where
  "memset m dst c n = memset_loop m dst (ucast c) 0 n"

text \<open>
  \<^verbatim>\<open>while(n-- > 0)\<close> runs its body \<open>n\<close> times, so the loops below recurse on the count.
  The result of \<open>memcmp\<close> and \<open>strncmp\<close> is a C \<^verbatim>\<open>int\<close>, the difference of two
  unsigned characters, which cannot overflow.
\<close>

fun memcmp :: "memory \<Rightarrow> u64 \<Rightarrow> u64 \<Rightarrow> nat \<Rightarrow> int" where
  "memcmp m s1 s2 0 = 0"
| "memcmp m s1 s2 (Suc n) =
     (if m s1 \<noteq> m s2 then uint (m s1) - uint (m s2) else memcmp m (s1 + 1) (s2 + 1) n)"

fun memmove_down :: "memory \<Rightarrow> u64 \<Rightarrow> u64 \<Rightarrow> nat \<Rightarrow> memory" where
  "memmove_down m d s 0 = m"
| "memmove_down m d s (Suc n) = memmove_down (m(d - 1 := m (s - 1))) (d - 1) (s - 1) n"

fun memmove_up :: "memory \<Rightarrow> u64 \<Rightarrow> u64 \<Rightarrow> nat \<Rightarrow> memory" where
  "memmove_up m d s 0 = m"
| "memmove_up m d s (Suc n) = memmove_up (m(d := m s)) (d + 1) (s + 1) n"

definition memmove :: "memory \<Rightarrow> u64 \<Rightarrow> u64 \<Rightarrow> u32 \<Rightarrow> memory" where
  "memmove m dst src n =
     (if n = 0 then m
      else if src < dst \<and> src + ucast n > dst
      then memmove_down m (dst + ucast n) (src + ucast n) (unat n)
      else memmove_up m dst src (unat n))"

definition memcpy :: "memory \<Rightarrow> u64 \<Rightarrow> u64 \<Rightarrow> u32 \<Rightarrow> memory" where
  "memcpy m dst src n = memmove m dst src n"

fun strncmp :: "memory \<Rightarrow> u64 \<Rightarrow> u64 \<Rightarrow> nat \<Rightarrow> int" where
  "strncmp m p q 0 = 0"
| "strncmp m p q (Suc n) =
     (if m p \<noteq> 0 \<and> m p = m q then strncmp m (p + 1) (q + 1) n
      else uint (m p) - uint (m q))"

text \<open>
  \<open>strncpy\<close>: the first loop returns the memory, the destination pointer and the count
  left over for the padding loop.
\<close>

fun strncpy_copy :: "memory \<Rightarrow> u64 \<Rightarrow> u64 \<Rightarrow> nat \<Rightarrow> memory \<times> u64 \<times> nat" where
  "strncpy_copy m s t 0 = (m, s, 0)"
| "strncpy_copy m s t (Suc n) =
     (if m t \<noteq> 0 then strncpy_copy (m(s := m t)) (s + 1) (t + 1) n
      else (m(s := m t), s + 1, n))"

fun strncpy_pad :: "memory \<Rightarrow> u64 \<Rightarrow> nat \<Rightarrow> memory" where
  "strncpy_pad m s 0 = m"
| "strncpy_pad m s (Suc n) = strncpy_pad (m(s := 0)) (s + 1) n"

definition strncpy :: "memory \<Rightarrow> u64 \<Rightarrow> u64 \<Rightarrow> int \<Rightarrow> memory" where
  "strncpy m s t n = (case strncpy_copy m s t (nat n) of (m', s', k) \<Rightarrow> strncpy_pad m' s' k)"

text \<open>\<open>safestrcpy\<close>: \<^verbatim>\<open>while(--n > 0 && (*s++ = *t++) != 0); *s = 0;\<close>\<close>

fun safestrcpy_loop :: "memory \<Rightarrow> u64 \<Rightarrow> u64 \<Rightarrow> nat \<Rightarrow> memory" where
  "safestrcpy_loop m s t 0 = m(s := 0)"
| "safestrcpy_loop m s t (Suc k) =
     (if m t \<noteq> 0 then safestrcpy_loop (m(s := m t)) (s + 1) (t + 1) k
      else m(s := 0, s + 1 := 0))"

definition safestrcpy :: "memory \<Rightarrow> u64 \<Rightarrow> u64 \<Rightarrow> int \<Rightarrow> memory" where
  "safestrcpy m s t n = (if n \<le> 0 then m else safestrcpy_loop m s t (nat n - 1))"

text \<open>\<open>strlen\<close> walks memory until it meets a zero byte; \<open>None\<close> if there is none.\<close>

partial_function (option) strlen_from :: "memory \<Rightarrow> u64 \<Rightarrow> nat \<Rightarrow> nat option" where
  "strlen_from m s n = (if m (s + of_nat n) = 0 then Some n else strlen_from m s (Suc n))"

definition strlen :: "memory \<Rightarrow> u64 \<Rightarrow> nat option" where
  "strlen m s = strlen_from m s 0"

subsection \<open>memset fills, memmove copies\<close>

lemma offset_eq_iff: "unat (x - a) = n \<longleftrightarrow> x = a + of_nat n" if "n < 2 ^ 64" for x a :: u64
proof
  assume "unat (x - a) = n"
  then have "x - a = of_nat n" by (metis of_nat_unat ucast_id)
  then show "x = a + of_nat n" by (simp add: algebra_simps)
next
  assume "x = a + of_nat n"
  then show "unat (x - a) = n" using that by (simp add: unat_of_nat_small)
qed

lemma memset_loop_eq:
  "memset_loop m dst c i n = (\<lambda>x. if unat i \<le> unat (x - dst) \<and> unat (x - dst) < unat n then c else m x)"
proof (induction m dst c i n rule: memset_loop.induct)
  case (1 m dst c i n)
  show ?case
  proof (cases "i < n")
    case True
    have off: "unat (x - dst) = unat i \<longleftrightarrow> x = dst + ucast i" for x
    proof -
      have "unat i < 2 ^ LENGTH(32)" by (rule unsigned_less)
      then show ?thesis using offset_eq_iff [of "unat i" x dst] by (simp add: of_nat_unat)
    qed
    have lt: "unat i < unat n" using True by (simp add: word_less_nat_alt)
    have rec: "memset_loop m dst c i n = memset_loop (m(dst + ucast i := c)) dst c (i + 1) n"
      using True by (subst memset_loop.simps) simp
    show ?thesis
    proof (rule ext)
      fix x
      show "memset_loop m dst c i n x
        = (if unat i \<le> unat (x - dst) \<and> unat (x - dst) < unat n then c else m x)"
        unfolding rec 1 [OF True] unat_add_one [OF True]
        using off [of x] lt by (cases "x = dst + ucast i") auto
    qed
  next
    case False
    then have "unat n \<le> unat i" by (simp add: word_less_nat_alt)
    with False show ?thesis by (subst memset_loop.simps) (auto simp: fun_eq_iff)
  qed
qed

lemma memset_eq_fill: "memset m dst c n = mem_fill m dst (unat n) (ucast c)"
  by (simp add: memset_def memset_loop_eq mem_fill_def)

lemma unat_minus_one: "x \<noteq> 0 \<Longrightarrow> unat (x - 1) = unat x - 1" for x :: u64
  by (simp add: unat_minus_one)

lemma memmove_up_eq:
  "s = d \<or> n \<le> unat (d - s) \<Longrightarrow> n < 2 ^ 64 \<Longrightarrow> memmove_up m d s n = mem_copy m d s n"
proof (induction n arbitrary: m d s)
  case 0
  then show ?case by (simp add: mem_copy_def)
next
  case (Suc n)
  have IH: "memmove_up (m(d := m s)) (d + 1) (s + 1) n = mem_copy (m(d := m s)) (d + 1) (s + 1) n"
    using Suc.prems by (intro Suc.IH) auto
  show ?case
  proof (rule ext)
    fix x
    show "memmove_up m d s (Suc n) x = mem_copy m d s (Suc n) x"
    proof (cases "x = d")
      case True
      have "unat (- 1 :: u64) = 2 ^ 64 - 1" by (simp add: unsigned_minus_1_eq_mask mask_eq_exp_minus_1)
      then show ?thesis using True IH Suc.prems(2) by (simp add: mem_copy_def)
    next
      case False
      then have k: "unat (x - d - 1) = unat (x - d) - 1" "unat (x - d) > 0"
        by (simp_all add: unat_minus_one unat_gt_0)
      have "s + (x - d) \<noteq> d" if "unat (x - d) < Suc n"
      proof
        assume "s + (x - d) = d"
        then have "d - s = x - d" by (simp add: algebra_simps)
        with Suc.prems(1) that False show False by auto
      qed
      then show ?thesis using False IH k by (auto simp: mem_copy_def algebra_simps)
    qed
  qed
qed

lemma memmove_down_eq:
  "s = d \<or> n \<le> unat (s - d) \<Longrightarrow> n < 2 ^ 64 \<Longrightarrow>
   memmove_down m (d + of_nat n) (s + of_nat n) n = mem_copy m d s n"
proof (induction n arbitrary: m)
  case 0
  then show ?case by (simp add: mem_copy_def)
next
  case (Suc n)
  let ?m = "m(d + of_nat n := m (s + of_nat n))"
  have IH: "memmove_down ?m (d + of_nat n) (s + of_nat n) n = mem_copy ?m d s n"
    using Suc.prems by (intro Suc.IH) auto
  have "mem_copy ?m d s n x = mem_copy m d s (Suc n) x" for x
  proof (cases "x = d + of_nat n")
    case True
    then have "unat (x - d) = n" using Suc.prems(2) by (simp add: unat_of_nat_small)
    then show ?thesis using True by (simp add: mem_copy_def)
  next
    case False
    then have "unat (x - d) \<noteq> n" using Suc.prems(2) offset_eq_iff [of n x d] by simp
    moreover have "s + (x - d) \<noteq> d + of_nat n" if k: "unat (x - d) < n"
    proof
      assume eq: "s + (x - d) = d + of_nat n"
      have "unat (of_nat n - (x - d)) = n - unat (x - d)"
        using k Suc.prems(2) by (subst unat_sub) (simp_all add: unat_of_nat_small word_le_nat_alt)
      moreover have "s - d = of_nat n - (x - d)"
      proof -
        have "s - d = (s + (x - d)) - (x - d) - d" by simp
        also have "\<dots> = of_nat n - (x - d)" unfolding eq by simp
        finally show ?thesis .
      qed
      ultimately have "unat (s - d) = n - unat (x - d)" by (simp only:)
      with Suc.prems(1) k show False by auto
    qed
    ultimately show ?thesis using False by (auto simp: mem_copy_def)
  qed
  then show ?case using IH by (simp add: algebra_simps fun_eq_iff)
qed

lemma memmove_eq_copy:
  assumes "unat src + unat n < 2 ^ 64" and "unat dst + unat n < 2 ^ 64"
  shows "memmove m dst src n = mem_copy m dst src (unat n)"
proof -
  have n: "(of_nat (unat n) :: u64) = ucast n" by (simp add: of_nat_unat)
  have un: "unat (ucast n :: u64) = unat n"
    unfolding n [symmetric] using assms by (intro unat_of_nat_small) simp
  have sum: "unat (src + ucast n) = unat src + unat n"
    using assms(1) by (subst unat_add_no_wrap) (simp_all add: un)
  have diff: "unat (a - b) = (if unat b \<le> unat a then unat a - unat b else unat a + 2 ^ 64 - unat b)"
    for a b :: u64
    by (simp add: unat_sub_if_size word_size)
  have small: "unat n < 2 ^ 64" using assms by simp
  consider "n = 0" | "n \<noteq> 0" "src < dst \<and> src + ucast n > dst"
    | "n \<noteq> 0" "\<not> (src < dst \<and> src + ucast n > dst)" by blast
  then show ?thesis
  proof cases
    case 1
    then show ?thesis by (simp add: memmove_def mem_copy_def)
  next
    case 2
    then have "unat n \<le> unat (src - dst)"
      unfolding diff [of src dst] using assms by (simp add: word_less_nat_alt sum)
    then show ?thesis
      using 2 memmove_down_eq [of src dst "unat n" m] small by (simp add: memmove_def n)
  next
    case 3
    then have "src = dst \<or> unat n \<le> unat (dst - src)"
      unfolding diff [of dst src] using assms
      by (auto simp: word_less_nat_alt sum word_unat_eq_iff)
    then show ?thesis
      using 3 memmove_up_eq [of src dst "unat n" m] small by (auto simp: memmove_def)
  qed
qed

lemma memcpy_eq_memmove: "memcpy m dst src n = memmove m dst src n"
  by (simp add: memcpy_def)

subsection \<open>Byte lists in memory\<close>

lemma length_read_bytes [simp]: "length (read_bytes m a n) = n"
  by (simp add: read_bytes_def)

lemma length_le_bytes [simp]: "length (le_bytes n w) = n"
  by (induction n arbitrary: w) simp_all

lemma nth_read_bytes [simp]: "i < n \<Longrightarrow> read_bytes m a n ! i = m (a + of_nat i)"
  by (simp add: read_bytes_def)

lemma read_bytes_0 [simp]: "read_bytes m a 0 = []"
  by (simp add: read_bytes_def)

lemma read_bytes_Suc: "read_bytes m a (Suc n) = m a # read_bytes m (a + 1) n"
  by (rule nth_equalityI) (auto simp: nth_Cons algebra_simps split: nat.splits)

lemma read_write_bytes:
  "length bs < 2 ^ 64 \<Longrightarrow> read_bytes (write_bytes m a bs) a (length bs) = bs"
  by (rule nth_equalityI) (simp_all add: write_bytes_def unat_of_nat_small)

lemma read_bytes_eqI:
  "(\<And>i. i < n \<Longrightarrow> m (a + of_nat i) = m' (a + of_nat i)) \<Longrightarrow> read_bytes m a n = read_bytes m' a n"
  by (rule nth_equalityI) simp_all

lemma write_bytes_apply:
  "write_bytes m a bs x = (if unat (x - a) < length bs then bs ! unat (x - a) else m x)"
  by (simp add: write_bytes_def)

lemma mem_copy_eq_write: "mem_copy m d s n = write_bytes m d (read_bytes m s n)"
  by (auto simp: mem_copy_def write_bytes_def fun_eq_iff of_nat_unat)

text \<open>Address ranges that do not meet, as offsets modulo the address space.\<close>

definition apart :: "u64 \<Rightarrow> nat \<Rightarrow> u64 \<Rightarrow> nat \<Rightarrow> bool" where
  "apart a n b k \<longleftrightarrow> n \<le> unat (b - a) \<and> k \<le> unat (a - b)"

lemma apart_sym: "apart a n b k \<longleftrightarrow> apart b k a n"
  by (auto simp: apart_def)

lemma apart_offset:
  assumes "apart a n b k" and "i < k"
  shows "\<not> unat (b + of_nat i - a) < n"
proof (cases "k = 0")
  case False
  have k: "k \<le> unat (a - b)" and n: "n \<le> unat (b - a)" using assms by (simp_all add: apart_def)
  have lt: "unat (a - b) < 2 ^ LENGTH(64)" by (rule unsigned_less)
  have i: "unat (of_nat i :: u64) = i" using assms(2) k lt by (intro unat_of_nat_small) simp
  have ne: "a \<noteq> b" using k False by auto
  have "unat b < 2 ^ LENGTH(64)" by (rule unsigned_less)
  then have "unat (b - a) = 2 ^ 64 - unat (a - b)"
    using ne by (auto simp: unat_sub_if_size word_size word_unat_eq_iff)
  then have "unat (b - a) + unat (of_nat i :: u64) < 2 ^ LENGTH(64)"
    using i assms(2) k lt by simp
  then have "unat (b - a + of_nat i) = unat (b - a) + i"
    using i by (subst unat_add_no_wrap) simp_all
  then show ?thesis using n by (simp add: algebra_simps)
qed (use assms in simp)

lemma read_write_apart:
  "apart a (length bs) b k \<Longrightarrow> read_bytes (write_bytes m a bs) b k = read_bytes m b k"
  by (rule read_bytes_eqI) (simp add: write_bytes_def apart_offset)

lemma read_fill_apart: "apart a n b k \<Longrightarrow> read_bytes (mem_fill m a n c) b k = read_bytes m b k"
  by (rule read_bytes_eqI) (simp add: mem_fill_def apart_offset)

subsection \<open>64-bit loads and stores\<close>

lemma le_word_le_bytes: "le_word (le_bytes n w) = take_bit (8 * n) (w :: 'a::len word)"
proof (induction n arbitrary: w)
  case (Suc n)
  show ?case
    by (rule bit_eqI) (auto simp: Suc bit_simps dest: bit_imp_le_length)
qed simp

lemma take_bit_64 [simp]: "take_bit 64 (w :: u64) = w"
  using take_bit_length_eq [of w] by simp

lemma load_store64_same [simp]: "load64 (store64 m a v) a = v"
proof -
  have "read_bytes (store64 m a v) a 8 = le_bytes 8 v"
    using read_write_bytes [of "le_bytes 8 v" m a] by (simp add: store64_def)
  then show ?thesis by (simp add: load64_def le_word_le_bytes)
qed

lemma load_store64_apart: "apart a 8 b 8 \<Longrightarrow> load64 (store64 m a v) b = load64 m b"
  by (simp add: load64_def store64_def read_write_apart)

lemma load_fill_apart: "apart a n b 8 \<Longrightarrow> load64 (mem_fill m a n c) b = load64 m b"
  by (simp add: load64_def read_fill_apart)

subsection \<open>Comparing and copying strings\<close>

abbreviation cstring :: "u8 list \<Rightarrow> u8 list" where
  "cstring \<equiv> takeWhile (\<lambda>c. c \<noteq> 0)"

lemma uint_eq_iff_u8: "uint a = uint b \<longleftrightarrow> a = b" for a b :: u8
  by (simp add: word_uint_eq_iff)

lemma strncmp_zero_iff:
  "strncmp m p q n = 0 \<longleftrightarrow> cstring (read_bytes m p n) = cstring (read_bytes m q n)"
proof (induction m p q n rule: strncmp.induct)
  case (2 m p q n)
  then show ?case
    by (cases "m p = 0"; cases "m q = 0"; cases "m p = m q")
      (simp_all add: read_bytes_Suc uint_eq_iff_u8 word_uint_eq_iff [of _ 0])
qed simp

lemma memcmp_zero_iff: "memcmp m p q n = 0 \<longleftrightarrow> read_bytes m p n = read_bytes m q n"
proof (induction m p q n rule: memcmp.induct)
  case (2 m p q n)
  then show ?case
    by (cases "m p = m q") (simp_all add: read_bytes_Suc uint_eq_iff_u8 word_uint_eq_iff [of _ 0])
qed simp

lemma safestrcpy_loop_frame:
  "k < 2 ^ 63 \<Longrightarrow> k < unat (x - s) \<Longrightarrow> safestrcpy_loop m s t k x = m x"
proof (induction k arbitrary: m s t)
  case 0
  then show ?case by (auto simp: unat_gt_0)
next
  case (Suc k)
  then have ne: "x - s \<noteq> 0" "x \<noteq> s" by auto
  then have *: "unat (x - (s + 1)) = unat (x - s) - 1"
    using unat_minus_one [of "x - s"] by (simp add: algebra_simps)
  with Suc.prems have "k < unat (x - (s + 1))" "x \<noteq> s + 1" by auto
  with Suc ne show ?case by simp
qed

lemma safestrcpy_loop_copies:
  assumes "\<And>i j. i \<le> k \<Longrightarrow> j < k \<Longrightarrow> s + of_nat i \<noteq> t + of_nat j" and "k < 2 ^ 63"
  shows "read_bytes (safestrcpy_loop m s t k) s (Suc (length (cstring (read_bytes m t k))))
       = cstring (read_bytes m t k) @ [0]"
  using assms
proof (induction k arbitrary: m s t)
  case 0
  then show ?case by (simp add: read_bytes_Suc)
next
  case (Suc k)
  show ?case
  proof (cases "m t = 0")
    case True
    then show ?thesis by (simp add: read_bytes_Suc)
  next
    case False
    have sep: "s + 1 + of_nat i \<noteq> t + 1 + of_nat j" if "i \<le> k" "j < k" for i j
      using Suc.prems(1) [of "Suc i" "Suc j"] that by (simp add: algebra_simps)
    have same: "read_bytes (m(s := m t)) (t + 1) k = read_bytes m (t + 1) k"
    proof (rule read_bytes_eqI)
      fix j assume "j < k"
      then have "s \<noteq> t + 1 + of_nat j" using Suc.prems(1) [of 0 "Suc j"] by (simp add: algebra_simps)
      then show "(m(s := m t)) (t + 1 + of_nat j) = m (t + 1 + of_nat j)" by simp
    qed
    have IH: "read_bytes (safestrcpy_loop (m(s := m t)) (s + 1) (t + 1) k) (s + 1)
         (Suc (length (cstring (read_bytes (m(s := m t)) (t + 1) k))))
       = cstring (read_bytes (m(s := m t)) (t + 1) k) @ [0]"
      by (rule Suc.IH) (use sep Suc.prems(2) in simp_all)
    have "unat (- 1 :: u64) = 2 ^ 64 - 1"
      by (simp add: unsigned_minus_1_eq_mask mask_eq_exp_minus_1)
    then have first: "safestrcpy_loop (m(s := m t)) (s + 1) (t + 1) k s = m t"
      using Suc.prems(2) by (subst safestrcpy_loop_frame) simp_all
    show ?thesis
      using IH False first
      by (simp add: read_bytes_Suc [of _ s] read_bytes_Suc [of _ t] same)
  qed
qed

subsection \<open>Properties\<close>

text \<open>
  Claim C17.  \<open>memmove\<close> copies correctly also when source and destination overlap: as long
  as neither range wraps around the address space, every destination byte ends up with the
  byte its source had before the call, and no other byte changes.
\<close>

theorem memmove_overlap_correct:
  assumes "unat src + unat n < 2 ^ 64" and "unat dst + unat n < 2 ^ 64"
  shows "memmove m dst src n x = (if unat (x - dst) < unat n then m (src + (x - dst)) else m x)"
  using memmove_eq_copy [OF assms] by (simp add: mem_copy_def)

theorem memmove_overlap_correct_witness:
  "unat (100 :: u64) + unat (8 :: u32) < 2 ^ 64 \<and> unat (104 :: u64) + unat (8 :: u32) < 2 ^ 64 \<and>
   memmove (\<lambda>x. ucast x) 104 100 8 107 = 103 \<and> memmove (\<lambda>x. ucast x) 104 100 8 112 = 112"
  using memmove_overlap_correct [of 100 8 104 "\<lambda>x. ucast x" 107]
    memmove_overlap_correct [of 100 8 104 "\<lambda>x. ucast x" 112] by simp

text \<open>
  Claim C18.  \<open>safestrcpy\<close> with a positive size, on buffers that do not overlap: the
  destination holds the source string, cut to at most \<open>n - 1\<close> characters, followed by a
  terminating zero; no byte outside the \<open>n\<close> bytes of the destination is written.
\<close>

theorem safestrcpy_terminates_string:
  assumes "0 < n" and "n < 2 ^ 31"
    and "\<And>i j. i < nat n \<Longrightarrow> j < nat n \<Longrightarrow> s + of_nat i \<noteq> t + of_nat j"
  shows "read_bytes (safestrcpy m s t n) s (Suc (length (cstring (read_bytes m t (nat n - 1)))))
           = cstring (read_bytes m t (nat n - 1)) @ [0] \<and>
         (\<forall>x. nat n \<le> unat (x - s) \<longrightarrow> safestrcpy m s t n x = m x)"
proof -
  have "nat n < 2 ^ 31" using assms(1,2) by (simp add: nat_less_iff)
  then have k: "nat n - 1 < 2 ^ 63" by simp
  have "s + of_nat i \<noteq> t + of_nat j" if "i \<le> nat n - 1" "j < nat n - 1" for i j
    using assms(3) [of i j] that assms(1) by linarith
  from safestrcpy_loop_copies [OF this k, of m]
  show ?thesis
    using safestrcpy_loop_frame [OF k, of _ s m t] assms(1) by (auto simp: safestrcpy_def)
qed

theorem safestrcpy_terminates_string_witness:
  "read_bytes (safestrcpy (\<lambda>x. if x = 0 then 97 else if x = 1 then 98 else 7) 100 0 3) 100 3
     = [97, 98, 0]"
proof -
  have sep: "(100 :: u64) + of_nat i \<noteq> 0 + of_nat j" if "i < nat 3" "j < nat 3" for i j
  proof -
    from that have "i \<in> {0, 1, 2}" "j \<in> {0, 1, 2}" by auto
    then show ?thesis by auto
  qed
  have "cstring (read_bytes (\<lambda>x. if x = 0 then 97 else if x = 1 then 98 else 7) 0 (nat 3 - 1)) = [97, 98]"
    by (simp add: read_bytes_def upt_rec)
  then show ?thesis
    using safestrcpy_terminates_string [of 3 100 0 "\<lambda>x. if x = 0 then 97 else if x = 1 then 98 else 7",
        OF _ _ sep]
    by (simp add: eval_nat_numeral)
qed

end
