(* ===== verification/Xv6_Riscv.thy ===== *)
theory Xv6_Riscv
  imports Xv6_Memory
begin

text \<open>
  The address arithmetic of \<^verbatim>\<open>kernel/riscv.h\<close> and the constants of
  \<^verbatim>\<open>kernel/memlayout.h\<close> and \<^verbatim>\<open>kernel/param.h\<close>: page rounding, page-table entries and
  their flag bits, and the split of a virtual address into three 9-bit indices.  The
  lemmas connect the C bit operations with arithmetic on natural numbers.
\<close>

subsection \<open>kernel/param.h\<close>

definition NPROC :: nat where "NPROC = 64"
definition NCPU :: nat where "NCPU = 8"
definition NOFILE :: nat where "NOFILE = 16"
definition NFILE :: nat where "NFILE = 100"
definition NINODE :: nat where "NINODE = 50"
definition NDEV :: int where "NDEV = 10"
definition ROOTDEV :: u32 where "ROOTDEV = 1"
definition MAXARG :: nat where "MAXARG = 32"
definition MAXOPBLOCKS :: int where "MAXOPBLOCKS = 10"
definition LOGSIZE :: int where "LOGSIZE = MAXOPBLOCKS * 3"
definition NBUF :: nat where "NBUF = nat (MAXOPBLOCKS * 3)"
definition FSSIZE :: nat where "FSSIZE = 2000"
definition MAXPATH :: nat where "MAXPATH = 128"

subsection \<open>Pages\<close>

definition PGSIZE :: u64 where "PGSIZE = 4096"
definition PGSHIFT :: nat where "PGSHIFT = 12"

definition PGROUNDUP :: "u64 \<Rightarrow> u64" where
  "PGROUNDUP sz = (sz + PGSIZE - 1) AND NOT (PGSIZE - 1)"

definition PGROUNDDOWN :: "u64 \<Rightarrow> u64" where
  "PGROUNDDOWN a = a AND NOT (PGSIZE - 1)"

subsection \<open>Page-table entries\<close>

definition PTE_V :: u64 where "PTE_V = push_bit 0 1"
definition PTE_R :: u64 where "PTE_R = push_bit 1 1"
definition PTE_W :: u64 where "PTE_W = push_bit 2 1"
definition PTE_X :: u64 where "PTE_X = push_bit 3 1"
definition PTE_U :: u64 where "PTE_U = push_bit 4 1"

definition PA2PTE :: "u64 \<Rightarrow> u64" where
  "PA2PTE pa = push_bit 10 (drop_bit 12 pa)"

definition PTE2PA :: "u64 \<Rightarrow> u64" where
  "PTE2PA pte = push_bit 12 (drop_bit 10 pte)"

definition PTE_FLAGS :: "u64 \<Rightarrow> u64" where
  "PTE_FLAGS pte = pte AND 0x3FF"

definition PXMASK :: u64 where "PXMASK = 0x1FF"

definition PXSHIFT :: "nat \<Rightarrow> nat" where
  "PXSHIFT level = PGSHIFT + 9 * level"

definition PX :: "nat \<Rightarrow> u64 \<Rightarrow> u64" where
  "PX level va = drop_bit (PXSHIFT level) va AND PXMASK"

definition MAXVA :: u64 where "MAXVA = push_bit (9 + 9 + 9 + 12 - 1) 1"

definition MAKE_SATP :: "u64 \<Rightarrow> u64" where
  "MAKE_SATP pagetable = push_bit 60 8 OR drop_bit 12 pagetable"

subsection \<open>kernel/memlayout.h\<close>

definition UART0 :: u64 where "UART0 = 0x10000000"
definition VIRTIO0 :: u64 where "VIRTIO0 = 0x10001000"
definition PLIC :: u64 where "PLIC = 0x0c000000"
definition KERNBASE :: u64 where "KERNBASE = 0x80000000"
definition PHYSTOP :: u64 where "PHYSTOP = KERNBASE + 128 * 1024 * 1024"
definition TRAMPOLINE :: u64 where "TRAMPOLINE = MAXVA - PGSIZE"
definition KSTACK :: "nat \<Rightarrow> u64" where "KSTACK p = TRAMPOLINE - (of_nat p + 1) * 2 * PGSIZE"
definition TRAPFRAME :: u64 where "TRAPFRAME = TRAMPOLINE - PGSIZE"

subsection \<open>Rounding to pages\<close>

lemma unat_PGSIZE [simp]: "unat PGSIZE = 4096"
  by (simp add: PGSIZE_def)

lemma bit_page_mask: "bit (PGSIZE - 1) n \<longleftrightarrow> n < 12"
proof -
  have "PGSIZE - 1 = mask 12" by (simp add: PGSIZE_def mask_eq_exp_minus_1)
  then show ?thesis by (auto simp: bit_simps)
qed

lemma PGROUNDDOWN_eq: "PGROUNDDOWN a = push_bit 12 (drop_bit 12 a)"
  by (rule bit_eqI) (auto simp: PGROUNDDOWN_def bit_page_mask bit_simps dest: bit_imp_le_length)

lemma unat_drop_bit: "unat (drop_bit n w) = unat w div 2 ^ n" for w :: u64
proof -
  have "unat w < 2 ^ LENGTH(64)" by (rule unsigned_less)
  then show ?thesis unfolding unsigned_drop_bit_eq by (simp add: drop_bit_eq_div take_bit_eq_mod)
qed

lemma unat_push_bit: "unat (push_bit n w) = unat w * 2 ^ n mod 2 ^ 64" for w :: u64
  unfolding unsigned_push_bit_eq by (simp add: push_bit_eq_mult take_bit_eq_mod)

lemma unat_PGROUNDDOWN: "unat (PGROUNDDOWN a) = 4096 * (unat a div 4096)"
proof -
  have "unat a < 2 ^ LENGTH(64)" by (rule unsigned_less)
  then have "4096 * (unat a div 4096) < 2 ^ 64" by simp
  then show ?thesis unfolding PGROUNDDOWN_eq by (simp add: unat_push_bit unat_drop_bit mult.commute)
qed

lemma PGROUNDUP_eq: "PGROUNDUP a = PGROUNDDOWN (a + (PGSIZE - 1))"
  by (simp add: PGROUNDUP_def PGROUNDDOWN_def add_diff_eq)

lemma unat_PGROUNDUP:
  assumes "unat a + 4095 < 2 ^ 64"
  shows "unat (PGROUNDUP a) = 4096 * ((unat a + 4095) div 4096)"
proof -
  have "unat (a + (PGSIZE - 1)) = unat a + 4095"
    using assms by (subst unat_add_no_wrap) (simp_all add: PGSIZE_def)
  then show ?thesis by (simp add: PGROUNDUP_eq unat_PGROUNDDOWN)
qed

lemma unat_mod_PGSIZE: "unat (a mod PGSIZE) = unat a mod 4096"
  by (simp add: unat_mod)

lemma mod_PGSIZE_eq_0_iff: "a mod PGSIZE = 0 \<longleftrightarrow> 4096 dvd unat a"
  by (simp add: word_unat_eq_iff unat_mod_PGSIZE dvd_eq_mod_eq_0)

text \<open>Distinct aligned blocks do not meet.\<close>

lemma aligned_apart:
  assumes "2 ^ k dvd unat p" and "2 ^ k dvd unat q" and "p \<noteq> q" and "k \<le> 64"
  shows "apart p (2 ^ k) q (2 ^ k)"
proof -
  have half: "2 ^ k \<le> unat (a - b)"
    if "2 ^ k dvd unat a" "2 ^ k dvd unat b" "a \<noteq> b" for a b :: u64
  proof -
    have "(2 :: nat) ^ k dvd 2 ^ 64" using assms(4) by (rule le_imp_power_dvd)
    then have "2 ^ k dvd unat (a - b)"
      using that(1,2) by (auto simp: unat_sub_if_size word_size intro!: dvd_diff_nat dvd_add)
    moreover have "unat (a - b) \<noteq> 0" using that(3) by (simp only: unat_eq_0 right_minus_eq not_False_eq_True)
    ultimately show ?thesis by (auto dest: dvd_imp_le)
  qed
  show ?thesis unfolding apart_def using half assms(1-3) by auto
qed

lemma page_apart: "4096 dvd unat p \<Longrightarrow> 4096 dvd unat q \<Longrightarrow> p \<noteq> q \<Longrightarrow> apart p 4096 q 4096"
  using aligned_apart [of 12 p q] by simp

lemma apart_mono: "apart a n b k \<Longrightarrow> n' \<le> n \<Longrightarrow> k' \<le> k \<Longrightarrow> apart a n' b k'"
  by (auto simp: apart_def)

subsection \<open>Entries and indices\<close>

lemma bit_flags_mask: "bit (0x3FF :: u64) n \<longleftrightarrow> n < 10"
proof -
  have mask: "(0x3FF :: u64) = mask 10" by (simp add: mask_eq_exp_minus_1)
  show ?thesis unfolding mask bit_mask_iff by auto
qed

lemma bit_PXMASK: "bit PXMASK n \<longleftrightarrow> n < 9"
proof -
  have mask: "PXMASK = mask 9" by (simp add: PXMASK_def mask_eq_exp_minus_1)
  show ?thesis unfolding mask bit_mask_iff by auto
qed

lemma unat_PX_less: "unat (PX l va) < 512"
proof -
  have "PX l va = take_bit 9 (drop_bit (PXSHIFT l) va)"
    by (rule bit_eqI) (auto simp: PX_def bit_PXMASK bit_simps)
  then have "unat (PX l va) = take_bit 9 (unat (drop_bit (PXSHIFT l) va))"
    by (simp add: unsigned_take_bit_eq)
  then show ?thesis by (simp add: take_bit_eq_mod)
qed

lemma bit_PTE_flags:
  "bit PTE_V n \<longleftrightarrow> n = 0" "bit PTE_R n \<longleftrightarrow> n = 1" "bit PTE_W n \<longleftrightarrow> n = 2"
  "bit PTE_X n \<longleftrightarrow> n = 3" "bit PTE_U n \<longleftrightarrow> n = 4"
  unfolding PTE_V_def PTE_R_def PTE_W_def PTE_X_def PTE_U_def bit_push_bit_iff
  by (auto simp: bit_1_iff)

lemma and_single_bit_iff: "x AND push_bit k 1 \<noteq> 0 \<longleftrightarrow> bit x k" if "k < 64" for x :: u64
  using that by (auto simp: bit_eq_iff [of "x AND 2 ^ k" 0] bit_simps dest: bit_imp_le_length)

lemma PTE_V_iff: "pte AND PTE_V \<noteq> 0 \<longleftrightarrow> bit pte 0"
  unfolding PTE_V_def by (rule and_single_bit_iff) simp

lemma PTE_U_iff: "pte AND PTE_U \<noteq> 0 \<longleftrightarrow> bit pte 4"
  unfolding PTE_U_def by (rule and_single_bit_iff) simp

lemma PTE_V_zero_iff [simp]: "pte AND PTE_V = 0 \<longleftrightarrow> \<not> bit pte 0"
  using PTE_V_iff by blast

lemma PTE_U_zero_iff [simp]: "pte AND PTE_U = 0 \<longleftrightarrow> \<not> bit pte 4"
  using PTE_U_iff by blast

lemma aligned_low_bits: "4096 dvd unat a \<Longrightarrow> n < 12 \<Longrightarrow> \<not> bit a n" for a :: u64
proof -
  assume "4096 dvd unat a" "n < 12"
  then have "PGROUNDDOWN a = a" by (intro unat_eqI) (simp add: unat_PGROUNDDOWN)
  then have "bit a n \<longleftrightarrow> bit (push_bit 12 (drop_bit 12 a)) n" by (simp add: PGROUNDDOWN_eq)
  with \<open>n < 12\<close> show ?thesis by (simp add: bit_simps)
qed

text \<open>
  Packing a page address and flags into an entry, and unpacking them: physical addresses
  have at most 56 bits, flags are the low ten bits.
\<close>

lemma PTE2PA_PA2PTE:
  assumes "4096 dvd unat pa" and "pa < push_bit 56 1" and "\<And>n. bit f n \<Longrightarrow> n < 10"
  shows "PTE2PA (PA2PTE pa OR f) = pa"
proof (rule bit_word_eqI)
  fix n
  assume "n < LENGTH(64)"
  have hi: "\<not> bit pa k" if "56 \<le> k" for k
  proof -
    have "unat pa < 2 ^ 56" using assms(2) by (simp add: word_less_nat_alt unat_push_bit)
    then have "unat pa < 2 ^ k" using that by (meson less_le_trans one_le_numeral power_increasing)
    then have "\<not> bit (unat pa) k" by (simp add: bit_iff_odd)
    then show ?thesis by (simp add: bit_unsigned_iff)
  qed
  show "bit (PTE2PA (PA2PTE pa OR f)) n = bit pa n"
  proof (cases "n < 12")
    case True
    then show ?thesis
      using aligned_low_bits [OF assms(1) True] by (simp add: PTE2PA_def PA2PTE_def bit_simps)
  next
    case False
    then show ?thesis
      using hi [of n] assms(3) [of "n - 2"] \<open>n < LENGTH(64)\<close>
      by (auto simp: PTE2PA_def PA2PTE_def bit_simps)
  qed
qed

lemma PTE_FLAGS_PA2PTE:
  "(\<And>n. bit f n \<Longrightarrow> n < 10) \<Longrightarrow> PTE_FLAGS (PA2PTE pa OR f) = f"
  unfolding PTE_FLAGS_def
  by (rule bit_eqI, unfold bit_and_iff bit_flags_mask) (auto simp: PA2PTE_def bit_simps not_le)

lemma PTE2PA_aligned: "4096 dvd unat (PTE2PA pte)"
proof -
  have "PGROUNDDOWN (PTE2PA pte) = PTE2PA pte"
    unfolding PGROUNDDOWN_eq by (rule bit_eqI) (auto simp: PTE2PA_def bit_simps)
  then have "unat (PTE2PA pte) = 4096 * (unat (PTE2PA pte) div 4096)"
    using unat_PGROUNDDOWN by metis
  then show ?thesis by (metis dvd_triv_left)
qed

text \<open>A virtual page below \<open>MAXVA\<close> is determined by its three indices.\<close>

lemma PX_determine_page:
  assumes "va < MAXVA" and "vb < MAXVA"
    and "PX 2 va = PX 2 vb" and "PX 1 va = PX 1 vb" and "PX 0 va = PX 0 vb"
  shows "PGROUNDDOWN va = PGROUNDDOWN vb"
proof (rule bit_eqI)
  fix n :: nat
  have hi: "\<not> bit v k" if "v < MAXVA" "38 \<le> k" for v :: u64 and k
  proof -
    have "unat v < 2 ^ 38" using that(1) by (simp add: word_less_nat_alt MAXVA_def unat_push_bit)
    then have "unat v < 2 ^ k" using that(2) by (meson less_le_trans one_le_numeral power_increasing)
    then have "\<not> bit (unat v) k" by (simp add: bit_iff_odd)
    then show ?thesis by (simp add: bit_unsigned_iff)
  qed
  have ix: "bit va (12 + 9 * l + i) = bit vb (12 + 9 * l + i)" if "PX l va = PX l vb" "i < 9" for l i
  proof -
    have "bit (PX l va) i = bit (PX l vb) i" using that(1) by simp
    with that(2) show ?thesis by (simp add: PX_def PXSHIFT_def PGSHIFT_def bit_PXMASK bit_simps)
  qed
  consider "n < 12" | "12 \<le> n" "n < 21" | "21 \<le> n" "n < 30" | "30 \<le> n" "n < 39" | "39 \<le> n"
    by linarith
  then show "bit (PGROUNDDOWN va) n = bit (PGROUNDDOWN vb) n"
    using ix [OF assms(5), of "n - 12"] ix [OF assms(4), of "n - 21"] ix [OF assms(3), of "n - 30"]
      hi [OF assms(1), of n] hi [OF assms(2), of n]
    by cases (auto simp: PGROUNDDOWN_eq bit_simps)
qed

end
