(* ===== verification/Xv6_Uart.thy ===== *)
theory Xv6_Uart
  imports Xv6_Spinlock Xv6_Riscv
begin

text \<open>
  Memory-mapped devices and the polled part of the UART driver, \<^verbatim>\<open>kernel/uart.c\<close>, with the
  interrupt controller \<^verbatim>\<open>kernel/plic.c\<close> and \<open>consputc\<close> of \<^verbatim>\<open>kernel/console.c\<close>.

  Nothing is assumed about the devices: \<open>mmio_in\<close> gives the value a device register returns
  for the sequence of accesses made so far, and \<open>mmio_log\<close> is that sequence.  A run of the
  machine with some particular environment is a run for some particular \<open>mmio_in\<close>.
\<close>

datatype io = Rd u64 | Wr u64 u32

record dev = machine +
  mmio_log :: "io list"
  mmio_in :: "io list \<Rightarrow> u64 \<Rightarrow> u32"
  panicked :: bool
  pr_locking :: bool

definition mmio_read :: "u64 \<Rightarrow> ('a dev_scheme, u32) kfun" where
  "mmio_read a =
     bnd (gets (\<lambda>s. mmio_in s (mmio_log s) a)) (\<lambda>v.
     bnd (modify (\<lambda>s. s\<lparr>mmio_log := mmio_log s @ [Rd a]\<rparr>)) (\<lambda>_.
     ret v))"

definition mmio_write :: "u64 \<Rightarrow> u32 \<Rightarrow> ('a dev_scheme, unit) kfun" where
  "mmio_write a v = modify (\<lambda>s. s\<lparr>mmio_log := mmio_log s @ [Wr a v]\<rparr>)"

subsection \<open>UART registers\<close>

definition RHR :: u64 where "RHR = 0"
definition THR :: u64 where "THR = 0"
definition IER :: u64 where "IER = 1"
definition IER_RX_ENABLE :: u8 where "IER_RX_ENABLE = push_bit 0 1"
definition IER_TX_ENABLE :: u8 where "IER_TX_ENABLE = push_bit 1 1"
definition FCR :: u64 where "FCR = 2"
definition FCR_FIFO_ENABLE :: u8 where "FCR_FIFO_ENABLE = push_bit 0 1"
definition FCR_FIFO_CLEAR :: u8 where "FCR_FIFO_CLEAR = push_bit 1 3"
definition LCR :: u64 where "LCR = 3"
definition LCR_EIGHT_BITS :: u8 where "LCR_EIGHT_BITS = push_bit 0 3"
definition LCR_BAUD_LATCH :: u8 where "LCR_BAUD_LATCH = push_bit 7 1"
definition LSR :: u64 where "LSR = 5"
definition LSR_RX_READY :: u8 where "LSR_RX_READY = push_bit 0 1"
definition LSR_TX_IDLE :: u8 where "LSR_TX_IDLE = push_bit 5 1"

definition ReadReg :: "u64 \<Rightarrow> ('a dev_scheme, u8) kfun" where
  "ReadReg reg = bnd (mmio_read (UART0 + reg)) (\<lambda>v. ret (ucast v))"

definition WriteReg :: "u64 \<Rightarrow> u8 \<Rightarrow> ('a dev_scheme, unit) kfun" where
  "WriteReg reg v = mmio_write (UART0 + reg) (ucast v)"

definition uartinit :: "('a dev_scheme, unit) kfun" where
  "uartinit =
     bnd (WriteReg IER 0) (\<lambda>_.
     bnd (WriteReg LCR LCR_BAUD_LATCH) (\<lambda>_.
     bnd (WriteReg 0 3) (\<lambda>_.
     bnd (WriteReg 1 0) (\<lambda>_.
     bnd (WriteReg LCR LCR_EIGHT_BITS) (\<lambda>_.
     bnd (WriteReg FCR (FCR_FIFO_ENABLE OR FCR_FIFO_CLEAR)) (\<lambda>_.
     bnd (WriteReg IER (IER_TX_ENABLE OR IER_RX_ENABLE)) (\<lambda>_.
     initlock L_uart ''uart'')))))))"

text \<open>
  \<^verbatim>\<open>while((ReadReg(LSR) & LSR_TX_IDLE) == 0);\<close> as a function of the accesses so far; \<open>None\<close> if
  the device never becomes ready.
\<close>

partial_function (option) poll_idle :: "(io list \<Rightarrow> u64 \<Rightarrow> u32) \<Rightarrow> io list \<Rightarrow> io list option" where
  "poll_idle inp lg =
     (if (ucast (inp lg (UART0 + LSR)) :: u8) AND LSR_TX_IDLE = 0
      then poll_idle inp (lg @ [Rd (UART0 + LSR)])
      else Some (lg @ [Rd (UART0 + LSR)]))"

definition uartputc_sync :: "u8 \<Rightarrow> ('a dev_scheme, unit) kfun" where
  "uartputc_sync c =
     bnd push_off (\<lambda>_.
     bnd (gets panicked) (\<lambda>stop.
     if stop then (\<lambda>s. Diverges)
     else bnd (\<lambda>s. case poll_idle (mmio_in s) (mmio_log s) of
                     None \<Rightarrow> Diverges | Some lg \<Rightarrow> Ok () (s\<lparr>mmio_log := lg\<rparr>)) (\<lambda>_.
          bnd (WriteReg THR c) (\<lambda>_.
          pop_off))))"

text \<open>\<^verbatim>\<open>-1\<close> (no input) is \<open>None\<close>.\<close>

definition uartgetc :: "('a dev_scheme, u8 option) kfun" where
  "uartgetc =
     bnd (ReadReg LSR) (\<lambda>v.
     if v AND LSR_RX_READY \<noteq> 0 then bnd (ReadReg RHR) (\<lambda>c. ret (Some c)) else ret None)"

subsection \<open>Console output\<close>

text \<open>The argument of \<open>consputc\<close> is an \<^verbatim>\<open>int\<close>: a character, or \<^verbatim>\<open>BACKSPACE\<close>.\<close>

definition BACKSPACE :: u32 where "BACKSPACE = 0x100"

definition consputc :: "u32 \<Rightarrow> ('a dev_scheme, unit) kfun" where
  "consputc c =
     (if c = BACKSPACE
      then bnd (uartputc_sync 8) (\<lambda>_.
           bnd (uartputc_sync 32) (\<lambda>_.
           uartputc_sync 8))
      else uartputc_sync (ucast c))"

subsection \<open>Interrupt controller\<close>

definition UART0_IRQ :: u32 where "UART0_IRQ = 10"
definition VIRTIO0_IRQ :: u32 where "VIRTIO0_IRQ = 1"
definition PLIC_SENABLE :: "nat \<Rightarrow> u64" where "PLIC_SENABLE h = PLIC + 0x2080 + of_nat h * 0x100"
definition PLIC_SPRIORITY :: "nat \<Rightarrow> u64" where "PLIC_SPRIORITY h = PLIC + 0x201000 + of_nat h * 0x2000"
definition PLIC_SCLAIM :: "nat \<Rightarrow> u64" where "PLIC_SCLAIM h = PLIC + 0x201004 + of_nat h * 0x2000"

definition plicinit :: "('a dev_scheme, unit) kfun" where
  "plicinit =
     bnd (mmio_write (PLIC + ucast UART0_IRQ * 4) 1) (\<lambda>_.
     mmio_write (PLIC + ucast VIRTIO0_IRQ * 4) 1)"

definition plicinithart :: "('a dev_scheme, unit) kfun" where
  "plicinithart =
     bnd cpuid (\<lambda>h.
     bnd (mmio_write (PLIC_SENABLE h) (push_bit (unat UART0_IRQ) 1 OR push_bit (unat VIRTIO0_IRQ) 1)) (\<lambda>_.
     mmio_write (PLIC_SPRIORITY h) 0))"

definition plic_claim :: "('a dev_scheme, u32) kfun" where
  "plic_claim = bnd cpuid (\<lambda>h. mmio_read (PLIC_SCLAIM h))"

definition plic_complete :: "u32 \<Rightarrow> ('a dev_scheme, unit) kfun" where
  "plic_complete irq = bnd cpuid (\<lambda>h. mmio_write (PLIC_SCLAIM h) irq)"

subsection \<open>What is transmitted\<close>

text \<open>The characters the UART was given to transmit, oldest first.\<close>

definition sent :: "io list \<Rightarrow> u8 list" where
  "sent lg = concat (map (\<lambda>a. case a of Wr r v \<Rightarrow> if r = UART0 + THR then [ucast v] else [] | Rd r \<Rightarrow> []) lg)"

lemma sent_append [simp]: "sent (xs @ ys) = sent xs @ sent ys"
  by (simp add: sent_def)

lemma sent_Rd [simp]: "sent [Rd r] = []"
  by (simp add: sent_def)

lemma sent_THR [simp]: "sent [Wr (UART0 + THR) (ucast c)] = [c]" for c :: u8
proof -
  have "(ucast (ucast c :: u32) :: u8) = c" by (rule bit_word_eqI) (simp add: bit_simps)
  then show ?thesis by (simp add: sent_def)
qed

text \<open>A device that is ready at once.\<close>

definition tx_ready :: "'a dev_scheme \<Rightarrow> bool" where
  "tx_ready s \<longleftrightarrow> \<not> panicked s \<and> (\<forall>lg. (ucast (mmio_in s lg (UART0 + LSR)) :: u8) AND LSR_TX_IDLE \<noteq> 0)"

lemma poll_idle_ready: "tx_ready s \<Longrightarrow> poll_idle (mmio_in s) lg = Some (lg @ [Rd (UART0 + LSR)])"
  by (subst poll_idle.simps) (simp add: tx_ready_def)

lemma dev_off_state [simp]:
  "mmio_log (off_state s) = mmio_log s" "mmio_in (off_state s) = mmio_in s"
  "panicked (off_state s) = panicked s" "tx_ready (off_state s) = tx_ready s"
  "off_state (s\<lparr>mmio_log := lg\<rparr>) = (off_state s)\<lparr>mmio_log := lg\<rparr>"
  by (simp_all add: off_state_def tx_ready_def sie_on_def)

lemma dev_frame [simp]:
  "lock_free l (s\<lparr>mmio_log := lg\<rparr>) = lock_free l s" "cpu_ok (s\<lparr>mmio_log := lg\<rparr>) = cpu_ok s"
  "tx_ready (s\<lparr>mmio_log := lg\<rparr>) = tx_ready s"
  by (simp_all add: lock_free_def cpu_ok_def sie_on_def tx_ready_def)

lemma uartputc_sync_eq:
  assumes "tx_ready s" and "cpu_ok s"
  shows "uartputc_sync c s
       = Ok () (s\<lparr>mmio_log := mmio_log s @ [Rd (UART0 + LSR), Wr (UART0 + THR) (ucast c)]\<rparr>)"
proof -
  let ?lg = "mmio_log s @ [Rd (UART0 + LSR), Wr (UART0 + THR) (ucast c)]"
  have "pop_off ((off_state s)\<lparr>mmio_log := ?lg\<rparr>) = Ok () (s\<lparr>mmio_log := ?lg\<rparr>)"
    using pop_off_off_state [of "s\<lparr>mmio_log := ?lg\<rparr>"] assms(2) by simp
  moreover have "\<not> panicked s" using assms(1) by (simp add: tx_ready_def)
  ultimately show ?thesis
    using assms(1) by (simp add: uartputc_sync_def exec poll_idle_ready WriteReg_def mmio_write_def)
qed

end
