(* ===== verification/Xv6_Printf.thy ===== *)
theory Xv6_Printf
  imports Xv6_Uart
begin

text \<open>
  Formatting of kernel messages, \<^verbatim>\<open>kernel/printf.c\<close>: \<open>printint\<close>, \<open>printptr\<close> and the
  interpretation of the format string, and \<open>printf\<close>, which sends the characters to the
  console under the lock.  A format string that asks for an
  argument that was not passed, or for one of another type, is undefined behaviour in C;
  the model then has no result.
\<close>

subsection \<open>Numbers\<close>

definition digits :: "nat \<Rightarrow> char" where
  "digits d = ''0123456789abcdef'' ! d"

text \<open>
  \<^verbatim>\<open>do { buf[i++] = digits[x % base]; } while((x /= base) != 0);\<close>  The digits come out least
  significant first.  The code only uses the bases 10 and 16.
\<close>

function printint_digits :: "u32 \<Rightarrow> u32 \<Rightarrow> string" where
  "printint_digits base x =
     digits (unat (x mod base)) #
       (if x div base = 0 \<or> base < 2 then [] else printint_digits base (x div base))"
  by pat_completeness auto
termination
proof (relation "measure (\<lambda>(base, x). unat x)")
  fix base x :: u32
  assume "\<not> (x div base = 0 \<or> base < 2)"
  then have "2 \<le> unat base" "unat x div unat base \<noteq> 0"
    by (auto simp: word_less_nat_alt word_unat_eq_iff unat_div)
  then show "((base, x div base), base, x) \<in> measure (\<lambda>(base, x). unat x)"
    by (simp add: unat_div) (metis div_less_dividend div_0 gr0I less_le_trans one_less_numeral_iff semiring_norm(76))
qed simp

declare printint_digits.simps [simp del]

definition printint_buf :: "u32 \<Rightarrow> u32 \<Rightarrow> bool \<Rightarrow> string" where
  "printint_buf xx base sign =
     (let neg = sign \<and> xx <s 0;
          x = (if neg then - xx else xx)
      in printint_digits base x @ (if neg then ''-'' else []))"

definition printint :: "u32 \<Rightarrow> u32 \<Rightarrow> bool \<Rightarrow> string" where
  "printint xx base sign = rev (printint_buf xx base sign)"

text \<open>\<open>x >> 60\<close> picks the top digit, \<open>x <<= 4\<close> moves the next one up.\<close>

primrec printptr_digits :: "nat \<Rightarrow> u64 \<Rightarrow> string" where
  "printptr_digits 0 x = []"
| "printptr_digits (Suc n) x = digits (unat (drop_bit 60 x)) # printptr_digits n (push_bit 4 x)"

definition printptr :: "u64 \<Rightarrow> string" where
  "printptr x = ''0x'' @ printptr_digits 16 x"

subsection \<open>Format strings\<close>

datatype fmtarg = A_int u32 | A_ptr u64 | A_str "string option"

fun fmt_next :: "char \<Rightarrow> fmtarg list \<Rightarrow> (string \<times> fmtarg list) option" where
  "fmt_next c args =
     (if c = CHR ''d'' then
        (case args of A_int x # rest \<Rightarrow> Some (printint x 10 True, rest) | _ \<Rightarrow> None)
      else if c = CHR ''x'' then
        (case args of A_int x # rest \<Rightarrow> Some (printint x 16 True, rest) | _ \<Rightarrow> None)
      else if c = CHR ''p'' then
        (case args of A_ptr x # rest \<Rightarrow> Some (printptr x, rest) | _ \<Rightarrow> None)
      else if c = CHR ''s'' then
        (case args of A_str (Some s) # rest \<Rightarrow> Some (s, rest)
         | A_str None # rest \<Rightarrow> Some (''(null)'', rest) | _ \<Rightarrow> None)
      else if c = CHR ''%'' then Some (''%'', args)
      else Some ([CHR ''%'', c], args))"

fun fmt_out :: "string \<Rightarrow> fmtarg list \<Rightarrow> string option" where
  "fmt_out [] args = Some []"
| "fmt_out [c] args = (if c \<noteq> CHR ''%'' then Some [c] else Some [])"
| "fmt_out (c # d # cs) args =
     (if c \<noteq> CHR ''%'' then map_option ((#) c) (fmt_out (d # cs) args)
      else case fmt_next d args of
             None \<Rightarrow> None
           | Some (out, rest) \<Rightarrow> map_option ((@) out) (fmt_out cs rest))"

subsection \<open>printf\<close>

definition char_u32 :: "char \<Rightarrow> u32" where
  "char_u32 c = of_nat (of_char c)"

definition printf :: "string \<Rightarrow> fmtarg list \<Rightarrow> ('a dev_scheme, unit) kfun" where
  "printf fmt args =
     bnd (gets pr_locking) (\<lambda>locked.
     bnd (do_if locked (acquire L_pr)) (\<lambda>_.
     bnd (case fmt_out fmt args of
            Some out \<Rightarrow> for_each out (\<lambda>c. consputc (char_u32 c))
          | None \<Rightarrow> (\<lambda>s. Diverges)) (\<lambda>_.
     do_if locked (release L_pr))))"

definition printfinit :: "('a dev_scheme, unit) kfun" where
  "printfinit = bnd (initlock L_pr ''pr'') (\<lambda>_. modify (\<lambda>s. s\<lparr>pr_locking := True\<rparr>))"

subsection \<open>What is printed\<close>

definition digit_value :: "char \<Rightarrow> nat" where
  "digit_value c = (if c \<in> set ''0123456789'' then of_char c - 48 else of_char c - 87)"

primrec digits_value :: "nat \<Rightarrow> string \<Rightarrow> nat" where
  "digits_value b [] = 0"
| "digits_value b (c # cs) = digit_value c + b * digits_value b cs"

lemma digit_value_digits: "d < 16 \<Longrightarrow> digit_value (digits d) = d"
proof -
  assume "d < 16"
  then have "d \<in> {0, 1, 2, 3, 4, 5, 6, 7, 8, 9, 10, 11, 12, 13, 14, 15}"
    by (simp add: less_Suc_eq numeral_eq_Suc)
  then show ?thesis by (auto simp: digits_def digit_value_def)
qed

lemma printint_digits_value:
  "2 \<le> base \<Longrightarrow> base \<le> 16 \<Longrightarrow> digits_value (unat base) (printint_digits base x) = unat x"
proof (induction base x rule: printint_digits.induct)
  case (1 base x)
  have b: "2 \<le> unat base" "unat base \<le> 16" using 1(2,3) by (simp_all add: word_le_nat_alt)
  have mod: "unat x mod unat base < 16" using b by (meson less_le_trans mod_less_divisor zero_less_numeral)
  have "\<not> base < 2" using 1(2) by simp
  show ?case
  proof (cases "x div base = 0")
    case True
    then have "unat x div unat base = 0" by (metis unat_0 unat_div)
    then have "unat x mod unat base = unat x" using b by (simp add: div_eq_0_iff)
    then show ?thesis
      using True mod by (subst printint_digits.simps) (simp add: digit_value_digits unat_mod)
  next
    case False
    then have IH: "digits_value (unat base) (printint_digits base (x div base)) = unat x div unat base"
      using 1 \<open>\<not> base < 2\<close> by (simp add: unat_div)
    have rec: "printint_digits base x = digits (unat (x mod base)) # printint_digits base (x div base)"
      using False \<open>\<not> base < 2\<close> by (subst printint_digits.simps) simp
    show ?thesis unfolding rec using IH mod by (simp add: digit_value_digits unat_mod)
  qed
qed

lemma printint_digits_length:
  "2 \<le> base \<Longrightarrow> unat x < unat base ^ Suc k \<Longrightarrow> length (printint_digits base x) \<le> Suc k"
proof (induction k arbitrary: x)
  case 0
  then have "x div base = 0" by (simp add: word_unat_eq_iff unat_div)
  then show ?case by (subst printint_digits.simps) simp
next
  case (Suc k)
  have "0 < unat base" using Suc.prems(1) by (auto simp: word_le_nat_alt)
  then have "unat (x div base) < unat base ^ Suc k"
    using Suc.prems(2) by (simp add: unat_div div_less_iff_less_mult mult.commute)
  then show ?case
    using Suc.IH [of "x div base"] Suc.prems(1) by (subst printint_digits.simps) simp
qed

subsection \<open>Properties\<close>

text \<open>
  Claim C23.  \<open>printint\<close> never overruns its 16-byte buffer, in base 10 and in base 16, for any
  32-bit argument.
\<close>

theorem printint_fits_buffer:
  "length (printint_buf xx 10 sign) \<le> 16 \<and> length (printint_buf xx 16 sign) \<le> 16"
proof -
  have u: "unat x < 2 ^ LENGTH(32)" for x :: u32 by (rule unsigned_less)
  have "length (printint_digits 10 x) \<le> Suc 9" for x
    by (rule printint_digits_length) (use u [of x] in simp_all)
  moreover have "length (printint_digits 16 x) \<le> Suc 9" for x
    by (rule printint_digits_length) (use u [of x] in simp_all)
  ultimately show ?thesis
    by (simp add: printint_buf_def Let_def) (meson le_trans numeral_le_iff semiring_norm)
qed

text \<open>
  Claim C22.  The digits \<open>printint\<close> prints in base 10 denote its signed argument: the digit
  string has the absolute value, and a minus sign is printed exactly for negative numbers.
\<close>

theorem printint_denotes:
  "printint xx 10 True =
     (if sint xx < 0 then CHR ''-'' # rev (printint_digits 10 (- xx)) else rev (printint_digits 10 xx)) \<and>
   int (digits_value 10 (printint_digits 10 (if sint xx < 0 then - xx else xx))) = \<bar>sint xx\<bar>"
proof -
  have "digits_value (unat (10 :: u32)) (printint_digits 10 x) = unat x" for x
    by (rule printint_digits_value) simp_all
  then have val: "digits_value 10 (printint_digits 10 x) = unat x" for x by simp
  have neg: "(xx <s 0) = (sint xx < 0)" by (simp add: word_sless_alt)
  have range: "- (2 ^ 31) \<le> sint xx" "sint xx < 2 ^ 31"
    using sint_ge [of xx] sint_lt [of xx] by simp_all
  have "int (unat (if sint xx < 0 then - xx else xx)) = \<bar>sint xx\<bar>"
  proof (cases "sint xx < 0")
    case True
    have "- xx = word_of_int (- sint xx)" by simp
    then have "uint (- xx) = (- sint xx) mod 2 ^ 32" by (simp only: uint_word_of_int) simp
    also have "\<dots> = - sint xx" using True range by (intro mod_pos_pos_trivial) simp_all
    finally show ?thesis using True by simp
  next
    case False
    have "uint xx = sint xx mod 2 ^ 32" using uint_sint [of xx] by (simp add: take_bit_eq_mod)
    also have "\<dots> = sint xx" using False range by (intro mod_pos_pos_trivial) simp_all
    finally show ?thesis using False by simp
  qed
  then show ?thesis
    unfolding val by (auto simp: printint_def printint_buf_def neg)
qed

end
