(* ===== verification/Xv6_Kalloc.thy ===== *)
theory Xv6_Kalloc
  imports Xv6_Uart
begin

text \<open>
  The physical page allocator, \<^verbatim>\<open>kernel/kalloc.c\<close>.  The free list is the linked list of
  the code: \<open>freelist\<close> holds the address of the first free page, and the first eight bytes
  of a free page hold the address of the next one.  \<open>kend\<close> is the address the linker gives
  to the symbol \<^verbatim>\<open>end\<close>.

  \<open>kmem_inv s ps\<close> says that the linked list of state \<open>s\<close> is the list \<open>ps\<close> of distinct,
  aligned pages inside RAM; every operation is shown to act on \<open>ps\<close> as a stack.
\<close>

subsection \<open>State and operations\<close>

record kmem = dev +
  mem :: memory
  freelist :: u64
  kend :: u64

definition memset_k :: "u64 \<Rightarrow> u32 \<Rightarrow> u32 \<Rightarrow> ('a kmem_scheme, unit) kfun" where
  "memset_k dst c n = modify (\<lambda>s. s\<lparr>mem := memset (mem s) dst c n\<rparr>)"

definition kfree :: "u64 \<Rightarrow> ('a kmem_scheme, unit) kfun" where
  "kfree pa =
     bnd (gets kend) (\<lambda>end_addr.
     if pa mod PGSIZE \<noteq> 0 \<or> pa < end_addr \<or> pa \<ge> PHYSTOP then panic ''kfree''
     else bnd (memset_k pa 1 (ucast PGSIZE)) (\<lambda>_.
          locking L_kmem
            (bnd (gets freelist) (\<lambda>f.
             bnd (modify (\<lambda>s. s\<lparr>mem := store64 (mem s) pa f\<rparr>)) (\<lambda>_.
             modify (\<lambda>s. s\<lparr>freelist := pa\<rparr>))))))"

definition kalloc :: "('a kmem_scheme, u64) kfun" where
  "kalloc =
     bnd (locking L_kmem
            (bnd (gets freelist) (\<lambda>r.
             bnd (do_if (r \<noteq> 0) (modify (\<lambda>s. s\<lparr>freelist := load64 (mem s) r\<rparr>))) (\<lambda>_.
             ret r)))) (\<lambda>r.
     bnd (do_if (r \<noteq> 0) (memset_k r 5 (ucast PGSIZE))) (\<lambda>_.
     ret r))"

text \<open>What a successful \<open>kfree\<close> says about its argument; it bounds the loop of \<open>freerange\<close>.\<close>

lemma kfree_Ok_less: "kfree p s = Ok u t \<Longrightarrow> p < PHYSTOP"
  by (auto simp: kfree_def exec split: if_splits)

lemma step_PHYSTOP: "p < PHYSTOP \<Longrightarrow> unat (p + PGSIZE) = unat p + 4096"
  by (rule trans [OF unat_add_no_wrap])
    (simp_all add: word_less_nat_alt PHYSTOP_def KERNBASE_def)

function freerange_loop :: "u64 \<Rightarrow> u64 \<Rightarrow> ('a kmem_scheme, unit) kfun" where
  "freerange_loop p pa_end s =
     (if p + PGSIZE \<le> pa_end
      then bnd (kfree p) (\<lambda>_. freerange_loop (p + PGSIZE) pa_end) s
      else ret () s)"
  by pat_completeness auto
termination
proof (relation "measure (\<lambda>(p, pa_end, s). unat PHYSTOP - unat p)")
  fix p pa_end :: u64 and s t :: "'a kmem_scheme" and u
  assume "kfree p s = Ok u t"
  then have "p < PHYSTOP" by (rule kfree_Ok_less)
  then show "((p + PGSIZE, pa_end, t), p, pa_end, s)
      \<in> measure (\<lambda>(p, pa_end, s). unat PHYSTOP - unat p)"
    by (simp add: step_PHYSTOP word_less_nat_alt)
qed simp

declare freerange_loop.simps [simp del]

definition freerange :: "u64 \<Rightarrow> u64 \<Rightarrow> ('a kmem_scheme, unit) kfun" where
  "freerange pa_start pa_end = freerange_loop (PGROUNDUP pa_start) pa_end"

definition kinit :: "('a kmem_scheme, unit) kfun" where
  "kinit =
     bnd (initlock L_kmem ''kmem'') (\<lambda>_.
     bnd (gets kend) (\<lambda>end_addr. freerange end_addr PHYSTOP))"

subsection \<open>The free list as a list of pages\<close>

definition page_ok :: "u64 \<Rightarrow> u64 \<Rightarrow> bool" where
  "page_ok end_addr p \<longleftrightarrow> 4096 dvd unat p \<and> end_addr \<le> p \<and> p < PHYSTOP"

fun chain :: "memory \<Rightarrow> u64 \<Rightarrow> u64 list \<Rightarrow> bool" where
  "chain m p [] \<longleftrightarrow> p = 0"
| "chain m p (q # qs) \<longleftrightarrow> p = q \<and> chain m (load64 m q) qs"

definition kmem_inv :: "'a kmem_scheme \<Rightarrow> u64 list \<Rightarrow> bool" where
  "kmem_inv s ps \<longleftrightarrow> lock_free L_kmem s \<and> cpu_ok s \<and> 0 < kend s \<and>
     chain (mem s) (freelist s) ps \<and> distinct ps \<and> (\<forall>p\<in>set ps. page_ok (kend s) p)"

lemma chain_unchanged:
  "(\<And>q. q \<in> set ps \<Longrightarrow> load64 m' q = load64 m q) \<Longrightarrow> chain m' p ps = chain m p ps"
  by (induction ps arbitrary: p) auto

lemma kmem_take_lock [simp]:
  "mem (take_lock l s) = mem s" "freelist (take_lock l s) = freelist s"
  "kend (take_lock l s) = kend s"
  "take_lock l (s\<lparr>mem := m\<rparr>) = (take_lock l s)\<lparr>mem := m\<rparr>"
  "take_lock l (s\<lparr>freelist := f\<rparr>) = (take_lock l s)\<lparr>freelist := f\<rparr>"
  by (simp_all add: take_lock_def off_state_def sie_on_def)

lemma kmem_frame [simp]:
  "lock_free l (s\<lparr>mem := m\<rparr>) = lock_free l s" "cpu_ok (s\<lparr>mem := m\<rparr>) = cpu_ok s"
  "lock_free l (s\<lparr>freelist := f\<rparr>) = lock_free l s" "cpu_ok (s\<lparr>freelist := f\<rparr>) = cpu_ok s"
  by (simp_all add: lock_free_def cpu_ok_def sie_on_def)

lemma unat_ucast_PGSIZE [simp]: "unat (ucast PGSIZE :: u32) = 4096"
  by (simp add: PGSIZE_def)

lemma kfree_eq:
  assumes "lock_free L_kmem s" and "cpu_ok s" and "page_ok (kend s) pa"
  shows "kfree pa s = Ok () (s\<lparr>mem := store64 (mem_fill (mem s) pa 4096 1) pa (freelist s),
                               freelist := pa\<rparr>)"
proof -
  let ?s = "s\<lparr>mem := mem_fill (mem s) pa 4096 1\<rparr>"
  have "locking L_kmem (bnd (gets freelist) (\<lambda>f.
          bnd (modify (\<lambda>s. s\<lparr>mem := store64 (mem s) pa f\<rparr>)) (\<lambda>_.
          modify (\<lambda>s. s\<lparr>freelist := pa\<rparr>)))) ?s
        = Ok () (?s\<lparr>mem := store64 (mem ?s) pa (freelist ?s), freelist := pa\<rparr>)"
    using assms(1,2) by (intro locking_Ok) (simp_all add: exec)
  then show ?thesis
    using assms(3)
    by (simp add: kfree_def exec page_ok_def mod_PGSIZE_eq_0_iff memset_k_def memset_eq_fill not_less not_le)
qed

lemma kfree_panics:
  assumes "\<not> page_ok (kend s) pa"
  shows "kfree pa s = Panic ''kfree''"
  using assms by (auto simp: kfree_def exec page_ok_def mod_PGSIZE_eq_0_iff not_less)

lemma kalloc_eq:
  assumes "lock_free L_kmem s" and "cpu_ok s"
  shows "kalloc s =
    (if freelist s = 0 then Ok 0 s
     else Ok (freelist s) (s\<lparr>mem := mem_fill (mem s) (freelist s) 4096 5,
                             freelist := load64 (mem s) (freelist s)\<rparr>))"
proof (cases "freelist s = 0")
  case True
  have "locking L_kmem (bnd (gets freelist) (\<lambda>r.
          bnd (do_if (r \<noteq> 0) (modify (\<lambda>s. s\<lparr>freelist := load64 (mem s) r\<rparr>))) (\<lambda>_. ret r))) s
        = Ok 0 s"
    using assms True by (intro locking_Ok) (simp_all add: exec)
  then show ?thesis using True by (simp add: kalloc_def exec)
next
  case False
  have "locking L_kmem (bnd (gets freelist) (\<lambda>r.
          bnd (do_if (r \<noteq> 0) (modify (\<lambda>s. s\<lparr>freelist := load64 (mem s) r\<rparr>))) (\<lambda>_. ret r))) s
        = Ok (freelist s) (s\<lparr>freelist := load64 (mem s) (freelist s)\<rparr>)"
    using assms False by (intro locking_Ok) (simp_all add: exec)
  then show ?thesis using False by (simp add: kalloc_def exec memset_k_def memset_eq_fill)
qed

lemma page_ok_apart: "page_ok e p \<Longrightarrow> page_ok e q \<Longrightarrow> p \<noteq> q \<Longrightarrow> apart p 4096 q 8"
  by (rule apart_mono [OF page_apart]) (simp_all add: page_ok_def)

lemma page_ok_nonzero: "page_ok e p \<Longrightarrow> 0 < e \<Longrightarrow> p \<noteq> 0"
  by (auto simp: page_ok_def)

lemma kfree_inv:
  assumes "kmem_inv s ps" and "page_ok (kend s) pa" and "pa \<notin> set ps"
    and "t = s\<lparr>mem := store64 (mem_fill (mem s) pa 4096 1) pa (freelist s), freelist := pa\<rparr>"
  shows "kmem_inv t (pa # ps)"
proof -
  have "chain (mem t) (freelist s) ps = chain (mem s) (freelist s) ps"
  proof (rule chain_unchanged)
    fix q assume "q \<in> set ps"
    then have "apart pa 4096 q 8" using assms(1-3) by (intro page_ok_apart) (auto simp: kmem_inv_def)
    then show "load64 (mem t) q = load64 (mem s) q"
      using apart_mono [of pa 4096 q 8 8 8]
      by (simp add: assms(4) load_store64_apart load_fill_apart)
  qed
  then show ?thesis using assms by (simp add: kmem_inv_def)
qed

lemma kalloc_inv:
  assumes "kmem_inv s (p # ps)"
    and "t = s\<lparr>mem := mem_fill (mem s) p 4096 5, freelist := load64 (mem s) p\<rparr>"
  shows "kmem_inv t ps"
proof -
  have "chain (mem t) (load64 (mem s) p) ps = chain (mem s) (load64 (mem s) p) ps"
  proof (rule chain_unchanged)
    fix q assume "q \<in> set ps"
    then have "apart p 4096 q 8" using assms(1) by (intro page_ok_apart) (auto simp: kmem_inv_def)
    then show "load64 (mem t) q = load64 (mem s) q"
      by (simp add: assms(2) load_fill_apart)
  qed
  then show ?thesis using assms by (simp add: kmem_inv_def)
qed

subsection \<open>The allocator interface\<close>

text \<open>
  What the rest of the kernel relies on: a pool of pages handed out and taken back, where
  an operation touches no byte outside the page it moves.
\<close>

locale page_pool =
  fixes alloc :: "('s, u64) kfun"
    and free :: "u64 \<Rightarrow> ('s, unit) kfun"
    and inv :: "'s \<Rightarrow> u64 list \<Rightarrow> bool"
    and usable :: "'s \<Rightarrow> u64 \<Rightarrow> bool"
    and contents :: "'s \<Rightarrow> memory"
  assumes alloc_none: "inv s [] \<Longrightarrow> alloc s = Ok 0 s"
    and alloc_some: "inv s (p # ps) \<Longrightarrow> \<exists>t. alloc s = Ok p t \<and> inv t ps \<and> usable t = usable s \<and>
          (\<forall>x. 4096 \<le> unat (x - p) \<longrightarrow> contents t x = contents s x)"
    and free_ok: "inv s ps \<Longrightarrow> usable s p \<Longrightarrow> p \<notin> set ps \<Longrightarrow>
          \<exists>t. free p s = Ok () t \<and> inv t (p # ps) \<and> usable t = usable s \<and>
          (\<forall>x. 4096 \<le> unat (x - p) \<longrightarrow> contents t x = contents s x)"
    and free_bad: "\<not> usable s p \<Longrightarrow> \<exists>msg. free p s = Panic msg"
    and inv_pages: "inv s ps \<Longrightarrow> distinct ps \<and> 0 \<notin> set ps \<and> (\<forall>p\<in>set ps. usable s p)"
begin

lemma free_then_alloc:
  assumes "inv s ps" and "usable s p" and "p \<notin> set ps"
  shows "\<exists>t. bnd (free p) (\<lambda>_. alloc) s = Ok p t \<and> inv t ps \<and>
           (\<forall>x. 4096 \<le> unat (x - p) \<longrightarrow> contents t x = contents s x)"
proof -
  obtain t where t: "free p s = Ok () t" "inv t (p # ps)"
      "\<forall>x. 4096 \<le> unat (x - p) \<longrightarrow> contents t x = contents s x"
    using free_ok [OF assms] by blast
  obtain u where "alloc t = Ok p u" "inv u ps"
      "\<forall>x. 4096 \<le> unat (x - p) \<longrightarrow> contents u x = contents t x"
    using alloc_some [OF t(2)] by blast
  with t show ?thesis by (auto simp: exec)
qed

lemma alloc_zero_iff: "inv s ps \<Longrightarrow> alloc s = Ok r t \<Longrightarrow> r = 0 \<longleftrightarrow> ps = []"
  using alloc_none alloc_some inv_pages by (cases ps) fastforce+

text \<open>Allocating as often as there are pages hands out every page once, in order.\<close>

lemma alloc_all:
  "inv s ps \<Longrightarrow> \<exists>t. inv t [] \<and> alloc t = Ok 0 t \<and>
     for_each ps (\<lambda>p. bnd alloc (\<lambda>r. if r = p then ret () else panic [])) s = Ok () t"
proof (induction ps arbitrary: s)
  case Nil
  then show ?case using alloc_none by auto
next
  case (Cons p ps)
  obtain u where "alloc s = Ok p u" "inv u ps" using alloc_some [OF Cons.prems] by blast
  with Cons.IH [of u] show ?case by (auto simp: exec)
qed

end

lemma mem_fill_outside: "n \<le> unat (x - a) \<Longrightarrow> mem_fill m a n c x = m x"
  by (simp add: mem_fill_def)

lemma store64_outside: "8 \<le> unat (x - a) \<Longrightarrow> store64 m a v x = m x"
  by (simp add: store64_def write_bytes_def)

interpretation kpool: page_pool kalloc kfree kmem_inv "\<lambda>s. page_ok (kend s)" mem
proof
  fix s :: "'a kmem_scheme" and p :: u64 and ps
  show "kalloc s = Ok 0 s" if "kmem_inv s []"
    using that by (subst kalloc_eq) (auto simp: kmem_inv_def)
  show "\<exists>t. kalloc s = Ok p t \<and> kmem_inv t ps \<and> page_ok (kend t) = page_ok (kend s) \<and>
          (\<forall>x. 4096 \<le> unat (x - p) \<longrightarrow> mem t x = mem s x)" if "kmem_inv s (p # ps)"
  proof -
    from that have "freelist s = p" "p \<noteq> 0" by (auto simp: kmem_inv_def page_ok_def)
    then show ?thesis
      using that kalloc_inv [OF that refl]
      by (subst kalloc_eq) (auto simp: kmem_inv_def mem_fill_outside)
  qed
  show "\<exists>t. kfree p s = Ok () t \<and> kmem_inv t (p # ps) \<and> page_ok (kend t) = page_ok (kend s) \<and>
          (\<forall>x. 4096 \<le> unat (x - p) \<longrightarrow> mem t x = mem s x)"
    if "kmem_inv s ps" "page_ok (kend s) p" "p \<notin> set ps"
    using that kfree_inv [OF that refl]
    by (subst kfree_eq) (auto simp: kmem_inv_def mem_fill_outside store64_outside)
  show "\<exists>msg. kfree p s = Panic msg" if "\<not> page_ok (kend s) p"
    using kfree_panics [OF that] by blast
  show "distinct ps \<and> 0 \<notin> set ps \<and> (\<forall>p\<in>set ps. page_ok (kend s) p)" if "kmem_inv s ps"
    using that page_ok_nonzero by (auto simp: kmem_inv_def)
qed

subsection \<open>Building the free list at boot\<close>

primrec range_pages :: "u64 \<Rightarrow> nat \<Rightarrow> u64 list" where
  "range_pages p 0 = []"
| "range_pages p (Suc n) = p # range_pages (p + PGSIZE) n"

lemma unat_PHYSTOP: "unat PHYSTOP = 0x88000000"
  by (simp add: PHYSTOP_def KERNBASE_def)

lemma set_range_pages:
  assumes "4096 dvd unat p" and "unat p + 4096 * n \<le> unat PHYSTOP"
  shows "set (range_pages p n)
       = {q. 4096 dvd unat q \<and> unat p \<le> unat q \<and> unat q < unat p + 4096 * n}"
  using assms
proof (induction n arbitrary: p)
  case 0
  then show ?case by auto
next
  case (Suc n)
  have p: "unat (p + PGSIZE) = unat p + 4096"
    using Suc.prems(2) by (intro step_PHYSTOP) (simp add: word_less_nat_alt)
  have IH: "set (range_pages (p + PGSIZE) n)
      = {q. 4096 dvd unat q \<and> unat (p + PGSIZE) \<le> unat q \<and> unat q < unat (p + PGSIZE) + 4096 * n}"
    using Suc.prems p by (intro Suc.IH) simp_all
  have "q = p \<or> unat p + 4096 \<le> unat q" if q: "4096 dvd unat q" "unat p \<le> unat q" for q
  proof -
    obtain a b where "unat p = 4096 * a" "unat q = 4096 * b"
      using q(1) Suc.prems(1) unfolding dvd_def by blast
    with q(2) show ?thesis by (auto simp: word_unat_eq_iff)
  qed
  then show ?case using IH p Suc.prems(1) by auto
qed

lemma freerange_loop_builds:
  assumes "kmem_inv s ps" and "4096 dvd unat p" and "kend s \<le> p"
    and "unat p + 4096 * n = unat PHYSTOP" and "\<And>q. q \<in> set ps \<Longrightarrow> q < p"
  shows "\<exists>t. freerange_loop p PHYSTOP s = Ok () t \<and> kend t = kend s \<and>
           kmem_inv t (rev (range_pages p n) @ ps)"
  using assms
proof (induction n arbitrary: s p ps)
  case 0
  then have "p = PHYSTOP" by (simp add: word_unat_eq_iff)
  then have "\<not> p + PGSIZE \<le> PHYSTOP" by (simp add: PHYSTOP_def KERNBASE_def PGSIZE_def)
  then show ?case using 0 by (subst freerange_loop.simps) simp
next
  case (Suc n)
  have lt: "p < PHYSTOP" using Suc.prems(4) by (simp add: word_less_nat_alt)
  have p: "unat (p + PGSIZE) = unat p + 4096" using lt by (rule step_PHYSTOP)
  have le: "p + PGSIZE \<le> PHYSTOP" using Suc.prems(4) by (simp add: word_le_nat_alt p)
  have ok: "page_ok (kend s) p" using Suc.prems lt by (simp add: page_ok_def)
  have fresh: "p \<notin> set ps" using Suc.prems(5) by blast
  let ?t = "s\<lparr>mem := store64 (mem_fill (mem s) p 4096 1) p (freelist s), freelist := p\<rparr>"
  have free: "kfree p s = Ok () ?t"
    using Suc.prems(1) ok by (intro kfree_eq) (simp_all add: kmem_inv_def)
  have inv: "kmem_inv ?t (p # ps)" using Suc.prems(1) ok fresh refl by (rule kfree_inv)
  have "\<exists>t. freerange_loop (p + PGSIZE) PHYSTOP ?t = Ok () t \<and> kend t = kend ?t \<and>
           kmem_inv t (rev (range_pages (p + PGSIZE) n) @ p # ps)"
  proof (rule Suc.IH [OF inv])
    show "4096 dvd unat (p + PGSIZE)" using Suc.prems(2) by (simp add: p)
    show "kend ?t \<le> p + PGSIZE" using Suc.prems(3) by (simp add: word_le_nat_alt p)
    show "unat (p + PGSIZE) + 4096 * n = unat PHYSTOP" using Suc.prems(4) by (simp add: p)
    show "q < p + PGSIZE" if "q \<in> set (p # ps)" for q
    proof -
      have "unat q \<le> unat p" using that Suc.prems(5) [of q] by (auto simp: word_less_nat_alt)
      then show ?thesis by (simp add: word_less_nat_alt p)
    qed
  qed
  then show ?case using le free by (subst freerange_loop.simps) (auto simp: exec)
qed

subsection \<open>Properties\<close>

text \<open>A machine at boot, used to evaluate the properties: hart 0, every lock free.\<close>

definition boot_kmem :: kmem where
  "boot_kmem = \<lparr>hart = 0, cpus = (\<lambda>_. \<lparr>c_proc = None, noff = 0, intena = False\<rparr>),
     sstatus = (\<lambda>_. 0), locks = (\<lambda>_. \<lparr>locked = 0, lkname = [], lcpu = None\<rparr>),
     mmio_log = [], mmio_in = (\<lambda>lg a. 0), panicked = False, pr_locking = False,
     mem = (\<lambda>_. 0), freelist = 0, kend = 0x80030000\<rparr>"

text \<open>
  Claim C13.  \<open>kinit\<close> puts every usable page of RAM on the free list exactly once: the pages
  that are aligned, do not lie below \<^verbatim>\<open>end\<close> and lie below \<^verbatim>\<open>PHYSTOP\<close>.
\<close>

theorem kinit_frees_all_pages:
  assumes "0 < kend s" and "kend s \<le> PHYSTOP" and "freelist s = 0" and "cpu_ok s"
  shows "\<exists>t ps. kinit s = Ok () t \<and> kmem_inv t ps \<and> distinct ps \<and> set ps = {p. page_ok (kend s) p}"
proof -
  let ?s = "s\<lparr>locks := (locks s)(L_kmem := (locks s L_kmem)\<lparr>lkname := ''kmem'', locked := 0, lcpu := None\<rparr>)\<rparr>"
  let ?p = "PGROUNDUP (kend s)"
  have init: "initlock L_kmem ''kmem'' s = Ok () ?s"
    by (simp add: initlock_def upd_lock_def)
  have inv: "kmem_inv ?s []"
    using assms by (simp add: kmem_inv_def lock_free_def cpu_ok_def sie_on_def)
  have up: "unat ?p = 4096 * ((unat (kend s) + 4095) div 4096)"
    using assms(2) by (intro unat_PGROUNDUP) (simp add: word_le_nat_alt unat_PHYSTOP)
  have al: "4096 dvd unat ?p" by (simp add: up)
  have ge: "unat (kend s) \<le> unat ?p" and lt: "unat ?p < unat (kend s) + 4096"
    unfolding up by linarith+
  obtain a where a: "unat ?p = 4096 * a" using al by (auto elim: dvdE)
  have le: "unat ?p \<le> unat PHYSTOP"
    using lt assms(2) a by (auto simp: word_le_nat_alt unat_PHYSTOP)
  define n where "n = (unat PHYSTOP - unat ?p) div 4096"
  have n: "unat ?p + 4096 * n = unat PHYSTOP" using le a by (simp add: n_def unat_PHYSTOP)
  have "\<exists>t. freerange_loop ?p PHYSTOP ?s = Ok () t \<and> kend t = kend ?s \<and>
          kmem_inv t (rev (range_pages ?p n) @ [])"
    using inv al n ge by (intro freerange_loop_builds) (simp_all add: word_le_nat_alt)
  then obtain t where t: "freerange_loop ?p PHYSTOP ?s = Ok () t" "kend t = kend s"
      "kmem_inv t (rev (range_pages ?p n))" by auto
  have run: "kinit s = Ok () t"
    using t(1) init by (simp add: kinit_def exec freerange_def)
  have "set (range_pages ?p n) = {p. page_ok (kend s) p}"
  proof -
    have "unat ?p \<le> unat q" if "unat (kend s) \<le> unat q" "4096 dvd unat q" for q
      using that lt a by (auto elim!: dvdE)
    then show ?thesis
      using set_range_pages [OF al, of n] n ge
      by (auto simp: page_ok_def word_le_nat_alt word_less_nat_alt)
  qed
  with run t(3) show ?thesis by (intro exI [of _ t] exI [of _ "rev (range_pages ?p n)"])
      (auto simp: kmem_inv_def)
qed

theorem kinit_frees_all_pages_witness:
  "\<exists>t ps. kinit boot_kmem = Ok () t \<and> kmem_inv t ps \<and> distinct ps \<and>
     set ps = {p. page_ok 0x80030000 p} \<and> 0x80031000 \<in> set ps"
proof -
  have "0 < kend boot_kmem" "kend boot_kmem \<le> PHYSTOP" "freelist boot_kmem = 0" "cpu_ok boot_kmem"
    by (simp_all add: boot_kmem_def PHYSTOP_def KERNBASE_def cpu_ok_def sie_on_def)
  then obtain t ps where "kinit boot_kmem = Ok () t" "kmem_inv t ps" "distinct ps"
      "set ps = {p. page_ok (kend boot_kmem) p}"
    using kinit_frees_all_pages [of boot_kmem] by blast
  moreover have "page_ok 0x80030000 0x80031000"
    by (simp add: page_ok_def PHYSTOP_def KERNBASE_def)
  moreover have "kend boot_kmem = 0x80030000" by (simp add: boot_kmem_def)
  ultimately show ?thesis by auto
qed

text \<open>
  Claim C14.  \<open>kalloc\<close> pops the first page of the free list (all its bytes then are 5) and
  changes no byte outside that page; on an empty list it returns 0 and changes nothing.
\<close>

theorem kalloc_pops:
  assumes "kmem_inv s ps"
  shows "(case ps of
            [] \<Rightarrow> kalloc s = Ok 0 s
          | p # qs \<Rightarrow> \<exists>t. kalloc s = Ok p t \<and> kmem_inv t qs \<and> p \<noteq> 0 \<and> p \<notin> set qs \<and>
              (\<forall>x. mem t x = (if unat (x - p) < 4096 then 5 else mem s x)))"
proof (cases ps)
  case Nil
  then show ?thesis using assms kpool.alloc_none by simp
next
  case (Cons p qs)
  have p: "freelist s = p" "p \<noteq> 0" "p \<notin> set qs"
    using assms Cons kpool.inv_pages [OF assms] by (auto simp: kmem_inv_def)
  then show ?thesis
    using Cons assms kalloc_inv [of s p qs, OF _ refl]
    by (subst kalloc_eq) (auto simp: kmem_inv_def mem_fill_def)
qed

theorem kalloc_pops_witness:
  "\<exists>s :: kmem. kmem_inv s [0x80031000] \<and> (\<exists>t. kalloc s = Ok 0x80031000 t \<and> kmem_inv t [])"
proof -
  let ?s = "boot_kmem\<lparr>freelist := 0x80031000\<rparr>"
  have "load64 (\<lambda>_. 0) 0x80031000 = 0"
    by (simp add: load64_def read_bytes_def upt_rec)
  then have "kmem_inv ?s [0x80031000]"
    by (simp add: kmem_inv_def boot_kmem_def lock_free_def cpu_ok_def sie_on_def page_ok_def
        PHYSTOP_def KERNBASE_def)
  with kalloc_pops [of ?s "[0x80031000]"] show ?thesis by auto
qed

text \<open>
  Claim C15.  \<open>kfree\<close> pushes a page that is aligned, inside RAM and not already free; any
  argument that is not such an address makes it panic before it touches memory.  A page
  freed and then allocated again is handed out first.
\<close>

theorem kfree_pushes:
  assumes "kmem_inv s ps"
  shows "(page_ok (kend s) pa \<and> pa \<notin> set ps \<longrightarrow>
            (\<exists>t. kfree pa s = Ok () t \<and> kmem_inv t (pa # ps) \<and>
               (\<forall>x. 4096 \<le> unat (x - pa) \<longrightarrow> mem t x = mem s x)) \<and>
            (\<exists>t. bnd (kfree pa) (\<lambda>_. kalloc) s = Ok pa t \<and> kmem_inv t ps)) \<and>
         (\<not> page_ok (kend s) pa \<longrightarrow> kfree pa s = Panic ''kfree'')"
  using kpool.free_ok [OF assms] kpool.free_then_alloc [OF assms] kfree_panics by blast

theorem kfree_pushes_witness:
  "\<exists>s :: kmem. kmem_inv s [] \<and> (\<exists>t. kfree 0x80031000 s = Ok () t \<and> kmem_inv t [0x80031000]) \<and>
       kfree 0x80031004 s = Panic ''kfree''"
proof -
  have inv: "kmem_inv boot_kmem []"
    by (simp add: kmem_inv_def boot_kmem_def lock_free_def cpu_ok_def sie_on_def)
  have "page_ok (kend boot_kmem) 0x80031000" "\<not> page_ok (kend boot_kmem) 0x80031004"
    by (simp_all add: page_ok_def boot_kmem_def PHYSTOP_def KERNBASE_def)
  with kfree_pushes [OF inv, where pa = "0x80031000"]
    kfree_pushes [OF inv, where pa = "0x80031004"] inv
  show ?thesis by auto
qed

end
