(* ===== verification/Xv6_VM.thy ===== *)
theory Xv6_VM
  imports Xv6_Kalloc
begin

text \<open>
  Page tables, \<^verbatim>\<open>kernel/vm.c\<close>: the Sv39 walk, mapping and unmapping, growing, copying and
  freeing address spaces, and copying between kernel and user memory.  Page tables live in
  the byte memory of \<^theory_text>\<open>Xv6_Kalloc\<close>, entry by entry, as in the code.

  Kernel buffers are passed by value: \<open>copyout\<close> takes the bytes to copy, \<open>copyin\<close> and
  \<open>copyinstr\<close> return the bytes they stored at the destination together with the C result,
  also when they fail half way.  Fences and the TLB have no counterpart in the model.
\<close>

subsection \<open>Walking and mapping\<close>

record kvm = kmem +
  kernel_pagetable :: u64
  satp :: "nat \<Rightarrow> u64"

definition store_k :: "u64 \<Rightarrow> u64 \<Rightarrow> ('a kmem_scheme, unit) kfun" where
  "store_k a v = modify (\<lambda>s. s\<lparr>mem := store64 (mem s) a v\<rparr>)"

definition load_k :: "u64 \<Rightarrow> ('a kmem_scheme, u64) kfun" where
  "load_k a = gets (\<lambda>s. load64 (mem s) a)"

fun walk_levels :: "nat \<Rightarrow> u64 \<Rightarrow> u64 \<Rightarrow> bool \<Rightarrow> ('a kmem_scheme, u64) kfun" where
  "walk_levels 0 pagetable va alloc = ret (pagetable + 8 * PX 0 va)"
| "walk_levels (Suc l) pagetable va alloc =
     (let pte = pagetable + 8 * PX (Suc l) va in
      bnd (load_k pte) (\<lambda>e.
      if e AND PTE_V \<noteq> 0 then walk_levels l (PTE2PA e) va alloc
      else if \<not> alloc then ret 0
      else bnd kalloc (\<lambda>pg.
           if pg = 0 then ret 0
           else bnd (memset_k pg 0 (ucast PGSIZE)) (\<lambda>_.
                bnd (store_k pte (PA2PTE pg OR PTE_V)) (\<lambda>_.
                walk_levels l pg va alloc)))))"

definition walk :: "u64 \<Rightarrow> u64 \<Rightarrow> bool \<Rightarrow> ('a kmem_scheme, u64) kfun" where
  "walk pagetable va alloc =
     (if va \<ge> MAXVA then panic ''walk'' else walk_levels 2 pagetable va alloc)"

definition walkaddr :: "u64 \<Rightarrow> u64 \<Rightarrow> ('a kmem_scheme, u64) kfun" where
  "walkaddr pagetable va =
     (if va \<ge> MAXVA then ret 0
      else bnd (walk pagetable va False) (\<lambda>pte.
        if pte = 0 then ret 0
        else bnd (load_k pte) (\<lambda>e.
          if e AND PTE_V = 0 then ret 0
          else if e AND PTE_U = 0 then ret 0
          else ret (PTE2PA e))))"

text \<open>The loops over pages end because a walk panics at \<^verbatim>\<open>MAXVA\<close>.\<close>

lemma walk_Ok_less: "walk pt va al s = Ok r t \<Longrightarrow> va < MAXVA"
  by (auto simp: walk_def split: if_splits)

lemma unat_MAXVA: "unat MAXVA = 2 ^ 38"
  by (simp add: MAXVA_def unat_push_bit)

lemma step_MAXVA: "a < MAXVA \<Longrightarrow> unat (a + PGSIZE) = unat a + 4096"
  by (rule trans [OF unat_add_no_wrap]) (simp_all add: word_less_nat_alt unat_MAXVA)

lemma step_MAXVA_decreases:
  "a < MAXVA \<Longrightarrow> 2 ^ 38 + 4096 - unat (a + PGSIZE) < 2 ^ 38 + 4096 - unat a"
  by (simp add: step_MAXVA word_less_nat_alt unat_MAXVA)

function mappages_loop :: "u64 \<Rightarrow> u64 \<Rightarrow> u64 \<Rightarrow> u64 \<Rightarrow> u64 \<Rightarrow> ('a kmem_scheme, int) kfun" where
  "mappages_loop pagetable a lst pa perm s =
     bnd (walk pagetable a True) (\<lambda>pte.
     if pte = 0 then ret (- 1)
     else bnd (load_k pte) (\<lambda>e.
       if e AND PTE_V \<noteq> 0 then panic ''mappages: remap''
       else bnd (store_k pte (PA2PTE pa OR perm OR PTE_V)) (\<lambda>_.
         if a = lst then ret 0
         else mappages_loop pagetable (a + PGSIZE) lst (pa + PGSIZE) perm))) s"
  by pat_completeness auto
termination
  by (relation "measure (\<lambda>(pagetable, a, lst, pa, perm, s). 2 ^ 38 + 4096 - unat a)")
    (auto dest!: walk_Ok_less simp: step_MAXVA_decreases [simplified] simp del: unat_add_lem)

declare mappages_loop.simps [simp del]

definition mappages :: "u64 \<Rightarrow> u64 \<Rightarrow> u64 \<Rightarrow> u64 \<Rightarrow> u64 \<Rightarrow> ('a kmem_scheme, int) kfun" where
  "mappages pagetable va sz pa perm =
     (if sz = 0 then panic ''mappages: size''
      else mappages_loop pagetable (PGROUNDDOWN va) (PGROUNDDOWN (va + sz - 1)) pa perm)"

definition kvmmap :: "u64 \<Rightarrow> u64 \<Rightarrow> u64 \<Rightarrow> u64 \<Rightarrow> u64 \<Rightarrow> ('a kmem_scheme, unit) kfun" where
  "kvmmap kpgtbl va pa sz perm =
     bnd (mappages kpgtbl va sz pa perm) (\<lambda>r. if r \<noteq> 0 then panic ''kvmmap'' else ret ())"

subsection \<open>The kernel page table\<close>

text \<open>\<open>proc_mapstacks\<close> is in \<^verbatim>\<open>kernel/proc.c\<close>; \<open>kvmmake\<close> calls it.\<close>

definition proc_mapstacks :: "u64 \<Rightarrow> ('a kmem_scheme, unit) kfun" where
  "proc_mapstacks kpgtbl =
     for_each [0..<NPROC] (\<lambda>i.
       bnd kalloc (\<lambda>pa.
       if pa = 0 then panic ''kalloc''
       else kvmmap kpgtbl (KSTACK i) pa PGSIZE (PTE_R OR PTE_W)))"

definition kvmmake :: "u64 \<Rightarrow> u64 \<Rightarrow> ('a kmem_scheme, u64) kfun" where
  "kvmmake etext trampoline =
     bnd kalloc (\<lambda>kpgtbl.
     bnd (memset_k kpgtbl 0 (ucast PGSIZE)) (\<lambda>_.
     bnd (kvmmap kpgtbl UART0 UART0 PGSIZE (PTE_R OR PTE_W)) (\<lambda>_.
     bnd (kvmmap kpgtbl VIRTIO0 VIRTIO0 PGSIZE (PTE_R OR PTE_W)) (\<lambda>_.
     bnd (kvmmap kpgtbl PLIC PLIC 0x400000 (PTE_R OR PTE_W)) (\<lambda>_.
     bnd (kvmmap kpgtbl KERNBASE KERNBASE (etext - KERNBASE) (PTE_R OR PTE_X)) (\<lambda>_.
     bnd (kvmmap kpgtbl etext etext (PHYSTOP - etext) (PTE_R OR PTE_W)) (\<lambda>_.
     bnd (kvmmap kpgtbl TRAMPOLINE trampoline PGSIZE (PTE_R OR PTE_X)) (\<lambda>_.
     bnd (proc_mapstacks kpgtbl) (\<lambda>_.
     ret kpgtbl)))))))))"

definition kvminit :: "u64 \<Rightarrow> u64 \<Rightarrow> ('a kvm_scheme, unit) kfun" where
  "kvminit etext trampoline =
     bnd (kvmmake etext trampoline) (\<lambda>pt. modify (\<lambda>s. s\<lparr>kernel_pagetable := pt\<rparr>))"

definition kvminithart :: "('a kvm_scheme, unit) kfun" where
  "kvminithart = modify (\<lambda>s. s\<lparr>satp := (satp s)(hart s := MAKE_SATP (kernel_pagetable s))\<rparr>)"

subsection \<open>User address spaces\<close>

function uvmunmap_loop :: "u64 \<Rightarrow> u64 \<Rightarrow> u64 \<Rightarrow> bool \<Rightarrow> ('a kmem_scheme, unit) kfun" where
  "uvmunmap_loop pagetable a end_va do_free s =
     (if a < end_va
      then bnd (walk pagetable a False) (\<lambda>pte.
           if pte = 0 then panic ''uvmunmap: walk''
           else bnd (load_k pte) (\<lambda>e.
             if e AND PTE_V = 0 then panic ''uvmunmap: not mapped''
             else if PTE_FLAGS e = PTE_V then panic ''uvmunmap: not a leaf''
             else bnd (do_if do_free (kfree (PTE2PA e))) (\<lambda>_.
                  bnd (store_k pte 0) (\<lambda>_.
                  uvmunmap_loop pagetable (a + PGSIZE) end_va do_free)))) s
      else ret () s)"
  by pat_completeness auto
termination
  by (relation "measure (\<lambda>(pagetable, a, end_va, do_free, s). 2 ^ 38 + 4096 - unat a)")
    (auto dest!: walk_Ok_less simp: step_MAXVA_decreases [simplified])

declare uvmunmap_loop.simps [simp del]

definition uvmunmap :: "u64 \<Rightarrow> u64 \<Rightarrow> u64 \<Rightarrow> bool \<Rightarrow> ('a kmem_scheme, unit) kfun" where
  "uvmunmap pagetable va npages do_free =
     (if va mod PGSIZE \<noteq> 0 then panic ''uvmunmap: not aligned''
      else uvmunmap_loop pagetable va (va + npages * PGSIZE) do_free)"

definition uvmcreate :: "('a kmem_scheme, u64) kfun" where
  "uvmcreate =
     bnd kalloc (\<lambda>pagetable.
     if pagetable = 0 then ret 0
     else bnd (memset_k pagetable 0 (ucast PGSIZE)) (\<lambda>_. ret pagetable))"

definition write_k :: "u64 \<Rightarrow> u8 list \<Rightarrow> ('a kmem_scheme, unit) kfun" where
  "write_k a bs = modify (\<lambda>s. s\<lparr>mem := write_bytes (mem s) a bs\<rparr>)"

definition uvmfirst :: "u64 \<Rightarrow> u8 list \<Rightarrow> ('a kmem_scheme, unit) kfun" where
  "uvmfirst pagetable src =
     (if length src \<ge> 4096 then panic ''uvmfirst: more than a page''
      else bnd kalloc (\<lambda>pg.
           bnd (memset_k pg 0 (ucast PGSIZE)) (\<lambda>_.
           bnd (mappages pagetable 0 PGSIZE pg (PTE_W OR PTE_R OR PTE_X OR PTE_U)) (\<lambda>_.
           write_k pg src))))"

text \<open>\<^verbatim>\<open>int npages\<close>: the page count is cut to 32 bits and sign-extended when passed on.\<close>

definition uvmdealloc :: "u64 \<Rightarrow> u64 \<Rightarrow> u64 \<Rightarrow> ('a kmem_scheme, u64) kfun" where
  "uvmdealloc pagetable oldsz newsz =
     (if newsz \<ge> oldsz then ret oldsz
      else bnd (do_if (PGROUNDUP newsz < PGROUNDUP oldsz)
             (let npages = ucast ((PGROUNDUP oldsz - PGROUNDUP newsz) div PGSIZE) :: u32
              in uvmunmap pagetable (PGROUNDUP newsz) (scast npages) True)) (\<lambda>_.
           ret newsz))"

lemma mappages_Ok_less:
  assumes "mappages pt a PGSIZE pa perm s = Ok r t"
  shows "PGROUNDDOWN a < MAXVA"
  using assms
  by (auto simp: mappages_def mappages_loop.simps [of pt "PGROUNDDOWN a"] exec split: if_splits outcome.splits
      dest: walk_Ok_less)

lemma PGROUNDDOWN_aligned: "4096 dvd unat a \<Longrightarrow> PGROUNDDOWN a = a"
  by (rule unat_eqI) (simp add: unat_PGROUNDDOWN)

lemma PGROUNDDOWN_less_MAXVA: "PGROUNDDOWN a < MAXVA \<longleftrightarrow> a < MAXVA"
proof -
  have "4096 * (unat a div 4096) < 2 ^ 38 \<longleftrightarrow> unat a < 2 ^ 38" by auto
  then show ?thesis by (simp add: word_less_nat_alt unat_MAXVA unat_PGROUNDDOWN)
qed

function uvmalloc_loop :: "u64 \<Rightarrow> u64 \<Rightarrow> u64 \<Rightarrow> u64 \<Rightarrow> u64 \<Rightarrow> ('a kmem_scheme, u64) kfun" where
  "uvmalloc_loop pagetable a oldsz newsz xperm s =
     (if a < newsz
      then bnd kalloc (\<lambda>pg.
           if pg = 0 then bnd (uvmdealloc pagetable a oldsz) (\<lambda>_. ret 0)
           else bnd (memset_k pg 0 (ucast PGSIZE)) (\<lambda>_.
                bnd (mappages pagetable a PGSIZE pg (PTE_R OR PTE_U OR xperm)) (\<lambda>r.
                if r \<noteq> 0
                then bnd (kfree pg) (\<lambda>_. bnd (uvmdealloc pagetable a oldsz) (\<lambda>_. ret 0))
                else uvmalloc_loop pagetable (a + PGSIZE) oldsz newsz xperm))) s
      else ret newsz s)"
  by pat_completeness auto
termination
  by (relation "measure (\<lambda>(pagetable, a, oldsz, newsz, xperm, s). 2 ^ 38 + 4096 - unat a)")
    (auto dest!: mappages_Ok_less simp: step_MAXVA_decreases [simplified] PGROUNDDOWN_less_MAXVA)

declare uvmalloc_loop.simps [simp del]

definition uvmalloc :: "u64 \<Rightarrow> u64 \<Rightarrow> u64 \<Rightarrow> u64 \<Rightarrow> ('a kmem_scheme, u64) kfun" where
  "uvmalloc pagetable oldsz newsz xperm =
     (if newsz < oldsz then ret oldsz
      else uvmalloc_loop pagetable (PGROUNDUP oldsz) (PGROUNDUP oldsz) newsz xperm)"

text \<open>
  \<open>freewalk\<close> recurses into every valid non-leaf entry; the depth of that recursion is
  whatever memory says, hence the fuel.
\<close>

fun freewalk :: "nat \<Rightarrow> u64 \<Rightarrow> ('a kmem_scheme, unit) kfun" where
  "freewalk 0 pagetable = (\<lambda>s. Diverges)"
| "freewalk (Suc fuel) pagetable =
     bnd (for_each [0..<512] (\<lambda>i.
       bnd (load_k (pagetable + 8 * of_nat i)) (\<lambda>pte.
       if pte AND PTE_V \<noteq> 0 \<and> pte AND (PTE_R OR PTE_W OR PTE_X) = 0
       then bnd (freewalk fuel (PTE2PA pte)) (\<lambda>_. store_k (pagetable + 8 * of_nat i) 0)
       else if pte AND PTE_V \<noteq> 0 then panic ''freewalk: leaf''
       else ret ()))) (\<lambda>_.
     kfree pagetable)"

text \<open>Three levels of page-table pages.\<close>

definition uvmfree :: "u64 \<Rightarrow> u64 \<Rightarrow> ('a kmem_scheme, unit) kfun" where
  "uvmfree pagetable sz =
     bnd (do_if (sz > 0) (uvmunmap pagetable 0 (PGROUNDUP sz div PGSIZE) True)) (\<lambda>_.
     freewalk 3 pagetable)"

definition memmove_k :: "u64 \<Rightarrow> u64 \<Rightarrow> u32 \<Rightarrow> ('a kmem_scheme, unit) kfun" where
  "memmove_k dst src n = modify (\<lambda>s. s\<lparr>mem := memmove (mem s) dst src n\<rparr>)"

text \<open>\<open>uvmcopy\<close>: on failure at page \<open>i\<close>, the pages below \<open>i\<close> are unmapped and freed.\<close>

definition uvmcopy_err :: "u64 \<Rightarrow> u64 \<Rightarrow> ('a kmem_scheme, int) kfun" where
  "uvmcopy_err new i = bnd (uvmunmap new 0 (i div PGSIZE) True) (\<lambda>_. ret (- 1))"

function uvmcopy_loop :: "u64 \<Rightarrow> u64 \<Rightarrow> u64 \<Rightarrow> u64 \<Rightarrow> ('a kmem_scheme, int) kfun" where
  "uvmcopy_loop old new i sz s =
     (if i < sz
      then bnd (walk old i False) (\<lambda>pte.
           if pte = 0 then panic ''uvmcopy: pte should exist''
           else bnd (load_k pte) (\<lambda>e.
             if e AND PTE_V = 0 then panic ''uvmcopy: page not present''
             else bnd kalloc (\<lambda>pg.
               if pg = 0 then uvmcopy_err new i
               else bnd (memmove_k pg (PTE2PA e) (ucast PGSIZE)) (\<lambda>_.
                    bnd (mappages new i PGSIZE pg (PTE_FLAGS e)) (\<lambda>r.
                    if r \<noteq> 0 then bnd (kfree pg) (\<lambda>_. uvmcopy_err new i)
                    else uvmcopy_loop old new (i + PGSIZE) sz))))) s
      else ret 0 s)"
  by pat_completeness auto
termination
  by (relation "measure (\<lambda>(old, new, i, sz, s). 2 ^ 38 + 4096 - unat i)")
    (auto dest!: walk_Ok_less simp: step_MAXVA_decreases [simplified])

declare uvmcopy_loop.simps [simp del]

definition uvmcopy :: "u64 \<Rightarrow> u64 \<Rightarrow> u64 \<Rightarrow> ('a kmem_scheme, int) kfun" where
  "uvmcopy old new sz = uvmcopy_loop old new 0 sz"

definition uvmclear :: "u64 \<Rightarrow> u64 \<Rightarrow> ('a kmem_scheme, unit) kfun" where
  "uvmclear pagetable va =
     bnd (walk pagetable va False) (\<lambda>pte.
     if pte = 0 then panic ''uvmclear''
     else bnd (load_k pte) (\<lambda>e. store_k pte (e AND NOT PTE_U)))"

subsection \<open>Copying between kernel and user memory\<close>

lemma unat_page_offset: "unat (a - PGROUNDDOWN a) = unat a mod 4096"
proof -
  have "PGROUNDDOWN a \<le> a" by (simp add: word_le_nat_alt unat_PGROUNDDOWN)
  then show ?thesis by (simp add: unat_sub unat_PGROUNDDOWN minus_mult_div_eq_mod)
qed

text \<open>Bytes handled in one round: to the end of the page, but not more than asked for.\<close>

definition chunk :: "u64 \<Rightarrow> nat \<Rightarrow> nat" where
  "chunk va len = min (4096 - unat (va - PGROUNDDOWN va)) len"

lemma chunk_bounds: "0 < len \<Longrightarrow> 0 < chunk va len" "chunk va len \<le> len" "chunk va len \<le> 4096"
  by (simp_all add: chunk_def unat_page_offset)

function copyout :: "u64 \<Rightarrow> u64 \<Rightarrow> u8 list \<Rightarrow> ('a kmem_scheme, int) kfun" where
  "copyout pagetable dstva src s =
     (if 0 < length src
      then bnd (walkaddr pagetable (PGROUNDDOWN dstva)) (\<lambda>pa0.
           if pa0 = 0 then ret (- 1)
           else let n = chunk dstva (length src) in
                bnd (write_k (pa0 + (dstva - PGROUNDDOWN dstva)) (take n src)) (\<lambda>_.
                copyout pagetable (PGROUNDDOWN dstva + PGSIZE) (drop n src))) s
      else ret 0 s)"
  by pat_completeness auto
termination
  by (relation "measure (\<lambda>(pagetable, dstva, src, s). length src)") (auto simp: chunk_bounds)

declare copyout.simps [simp del]

function copyin_loop :: "u64 \<Rightarrow> u64 \<Rightarrow> nat \<Rightarrow> u8 list \<Rightarrow> ('a kmem_scheme, int \<times> u8 list) kfun" where
  "copyin_loop pagetable srcva len acc s =
     (if 0 < len
      then bnd (walkaddr pagetable (PGROUNDDOWN srcva)) (\<lambda>pa0.
           if pa0 = 0 then ret (- 1, acc)
           else let n = chunk srcva len in
                bnd (gets (\<lambda>s. read_bytes (mem s) (pa0 + (srcva - PGROUNDDOWN srcva)) n)) (\<lambda>bs.
                copyin_loop pagetable (PGROUNDDOWN srcva + PGSIZE) (len - n) (acc @ bs))) s
      else ret (0, acc) s)"
  by pat_completeness auto
termination
  by (relation "measure (\<lambda>(pagetable, srcva, len, acc, s). len)") (auto simp: chunk_bounds)

declare copyin_loop.simps [simp del]

definition copyin :: "u64 \<Rightarrow> u64 \<Rightarrow> u64 \<Rightarrow> ('a kmem_scheme, int \<times> u8 list) kfun" where
  "copyin pagetable srcva len = copyin_loop pagetable srcva (unat len) []"

text \<open>
  The inner loop of \<open>copyinstr\<close>: it reports whether it met the terminating zero and the
  bytes stored so far, the zero included.
\<close>

fun copyinstr_page :: "memory \<Rightarrow> u64 \<Rightarrow> nat \<Rightarrow> u8 list \<Rightarrow> bool \<times> u8 list" where
  "copyinstr_page m p 0 acc = (False, acc)"
| "copyinstr_page m p (Suc n) acc =
     (if m p = 0 then (True, acc @ [0]) else copyinstr_page m (p + 1) n (acc @ [m p]))"

function copyinstr_loop :: "u64 \<Rightarrow> u64 \<Rightarrow> nat \<Rightarrow> u8 list \<Rightarrow> ('a kmem_scheme, int \<times> u8 list) kfun" where
  "copyinstr_loop pagetable srcva mx acc s =
     (if 0 < mx
      then bnd (walkaddr pagetable (PGROUNDDOWN srcva)) (\<lambda>pa0.
           if pa0 = 0 then ret (- 1, acc)
           else let n = chunk srcva mx in
                bnd (gets (\<lambda>s. copyinstr_page (mem s) (pa0 + (srcva - PGROUNDDOWN srcva)) n acc)) (\<lambda>r.
                if fst r then ret (0, snd r)
                else copyinstr_loop pagetable (PGROUNDDOWN srcva + PGSIZE) (mx - n) (snd r))) s
      else ret (- 1, acc) s)"
  by pat_completeness auto
termination
  by (relation "measure (\<lambda>(pagetable, srcva, mx, acc, s). mx)") (auto simp: chunk_bounds)

declare copyinstr_loop.simps [simp del]

definition copyinstr :: "u64 \<Rightarrow> u64 \<Rightarrow> u64 \<Rightarrow> ('a kmem_scheme, int \<times> u8 list) kfun" where
  "copyinstr pagetable srcva mx = copyinstr_loop pagetable srcva (unat mx) []"

subsection \<open>The tree of page-table pages\<close>

text \<open>
  \<open>pt_node m root p\<close> is the page-table page reached from \<open>root\<close> along the index path \<open>p\<close>.
  A well-formed tree has aligned pages inside RAM and reaches no page along two paths.
\<close>

fun pt_node :: "memory \<Rightarrow> u64 \<Rightarrow> u64 list \<Rightarrow> u64 option" where
  "pt_node m root [] = Some root"
| "pt_node m root (i # p) =
     (let e = load64 m (root + 8 * i) in if bit e 0 then pt_node m (PTE2PA e) p else None)"

definition path_ok :: "u64 list \<Rightarrow> bool" where
  "path_ok p \<longleftrightarrow> length p \<le> 2 \<and> (\<forall>i\<in>set p. i < 512)"

definition pt_path :: "u64 \<Rightarrow> u64 list" where
  "pt_path va = [PX 2 va, PX 1 va]"

definition pt_pages :: "memory \<Rightarrow> u64 \<Rightarrow> u64 set" where
  "pt_pages m root = {a. \<exists>p. path_ok p \<and> pt_node m root p = Some a}"

definition pt_wf :: "u64 \<Rightarrow> memory \<Rightarrow> u64 \<Rightarrow> bool" where
  "pt_wf e m root \<longleftrightarrow> (\<forall>a\<in>pt_pages m root. page_ok e a) \<and>
     (\<forall>p q a. path_ok p \<longrightarrow> path_ok q \<longrightarrow> pt_node m root p = Some a \<longrightarrow> pt_node m root q = Some a \<longrightarrow> p = q)"

definition pt_inv :: "'a kmem_scheme \<Rightarrow> u64 \<Rightarrow> u64 list \<Rightarrow> bool" where
  "pt_inv s root ps \<longleftrightarrow> kmem_inv s ps \<and> pt_wf (kend s) (mem s) root \<and> pt_pages (mem s) root \<inter> set ps = {}"

text \<open>The mapping a page table implements: the valid leaf entry for a virtual address.\<close>

definition vmap :: "memory \<Rightarrow> u64 \<Rightarrow> u64 \<Rightarrow> u64 option" where
  "vmap m root va =
     (case pt_node m root (pt_path va) of
        None \<Rightarrow> None
      | Some a \<Rightarrow> let e = load64 m (a + 8 * PX 0 va) in if bit e 0 then Some e else None)"

lemma PX_less [simp]: "PX l va < 512"
  using unat_PX_less [of l va] by (simp add: word_less_nat_alt)

lemma path_ok_pt_path [simp]: "path_ok (pt_path va)"
  by (simp add: path_ok_def pt_path_def)

lemma path_cases:
  assumes "path_ok p"
  obtains "p = []" | i where "p = [i]" "i < 512" | i j where "p = [i, j]" "i < 512" "j < 512"
proof (cases p)
  case Nil
  then show ?thesis using that by simp
next
  case (Cons i q)
  then show ?thesis using assms that by (cases q) (auto simp: path_ok_def)
qed

text \<open>Slots of page-table pages are disjoint eight-byte cells.\<close>

lemma unat_slot: "4096 dvd unat a \<Longrightarrow> i < 512 \<Longrightarrow> unat (a + 8 * i) = unat a + 8 * unat i"
  for a i :: u64
proof -
  assume a: "4096 dvd unat a" and i: "i < 512"
  have "unat a < 2 ^ LENGTH(64)" by (rule unsigned_less)
  with a have bound: "unat a + 4096 \<le> 2 ^ 64" by (auto elim!: dvdE)
  have "unat i < 512" using i by (simp add: word_less_nat_alt)
  moreover from this have "unat (8 * i) = 8 * unat i" by (simp add: unat_word_ariths)
  ultimately show ?thesis using bound by (subst unat_add_no_wrap) simp_all
qed

lemma page_of_slot: "4096 dvd unat a \<Longrightarrow> i < 512 \<Longrightarrow> PGROUNDDOWN (a + 8 * i) = a"
  by (rule unat_eqI) (auto simp: unat_PGROUNDDOWN unat_slot word_less_nat_alt elim!: dvdE)

lemma slot_apart:
  assumes "4096 dvd unat a" and "4096 dvd unat b" and "i < 512" and "j < 512"
    and "a \<noteq> b \<or> i \<noteq> j"
  shows "apart (a + 8 * i) 8 (b + 8 * j) 8"
proof -
  have "a + 8 * i \<noteq> b + 8 * j"
  proof
    assume eq: "a + 8 * i = b + 8 * j"
    then have "a = b" using page_of_slot assms(1-4) by metis
    moreover have "unat a + 8 * unat i = unat b + 8 * unat j"
      using eq unat_slot assms(1-4) by metis
    ultimately show False using assms(5) by (simp add: word_unat_eq_iff)
  qed
  moreover have "8 dvd unat a" "8 dvd unat b"
    using assms(1,2) by (auto intro: dvd_trans [of 8 4096])
  ultimately show ?thesis
    using aligned_apart [of 3 "a + 8 * i" "b + 8 * j"] assms by (simp add: unat_slot)
qed

lemma slot_in_page_apart:
  assumes "4096 dvd unat a" and "4096 dvd unat b" and "a \<noteq> b" and "i < 512"
  shows "apart b 4096 (a + 8 * i) 8"
proof -
  have p: "4096 \<le> unat (a - b)" "4096 \<le> unat (b - a)"
    using page_apart [OF assms(1-3)] by (simp_all add: apart_def)
  have i: "unat (8 * i) = 8 * unat i" "unat i < 512"
    using assms(4) by (auto simp: unat_word_ariths word_less_nat_alt)
  have al: "4096 dvd unat (a - b)"
    using assms(1,2) by (auto simp: unat_sub_if_size word_size intro!: dvd_diff_nat dvd_add)
  have "unat (a - b + 8 * i) = unat (a - b) + 8 * unat i"
    using unat_slot [OF al assms(4)] by simp
  moreover have "unat (b - a - 8 * i) = unat (b - a) - 8 * unat i"
    using i p by (subst unat_sub) (simp_all add: word_le_nat_alt)
  ultimately show ?thesis
    using i p by (simp add: apart_def algebra_simps)
qed

lemma walk_noalloc:
  assumes "va < MAXVA"
  shows "walk root va False s = Ok (case pt_node (mem s) root (pt_path va) of
           None \<Rightarrow> 0 | Some a \<Rightarrow> a + 8 * PX 0 va) s"
  using assms
  by (simp add: walk_def numeral_2_eq_2 exec load_k_def pt_path_def Let_def)

lemma walkaddr_eq:
  assumes "va < MAXVA" and "\<And>a. a \<in> pt_pages (mem s) root \<Longrightarrow> a + 8 * PX 0 va \<noteq> 0"
  shows "walkaddr root va s = Ok (case vmap (mem s) root va of
           Some e \<Rightarrow> if bit e 4 then PTE2PA e else 0 | None \<Rightarrow> 0) s"
proof (cases "pt_node (mem s) root (pt_path va)")
  case None
  then show ?thesis using assms(1)
    by (simp add: walkaddr_def exec walk_noalloc vmap_def not_le)
next
  case (Some a)
  then have "a + 8 * PX 0 va \<noteq> 0" using assms(2) path_ok_pt_path unfolding pt_pages_def by blast
  moreover have "\<not> MAXVA \<le> va" using assms(1) by simp
  ultimately show ?thesis using assms(1) Some
    by (simp add: walkaddr_def exec walk_noalloc vmap_def load_k_def Let_def)
qed

lemma pt_wf_page: "pt_wf e m root \<Longrightarrow> path_ok p \<Longrightarrow> pt_node m root p = Some a \<Longrightarrow> page_ok e a"
  by (auto simp: pt_wf_def pt_pages_def)

lemma pt_wf_inj:
  "pt_wf e m root \<Longrightarrow> path_ok p \<Longrightarrow> path_ok q \<Longrightarrow> pt_node m root p = Some a \<Longrightarrow>
   pt_node m root q = Some a \<Longrightarrow> p = q"
  by (auto simp: pt_wf_def)

lemma page_ok_aligned: "page_ok e a \<Longrightarrow> 4096 dvd unat a"
  by (simp add: page_ok_def)

lemma pt_node_aligned:
  "pt_wf e m root \<Longrightarrow> path_ok p \<Longrightarrow> pt_node m root p = Some a \<Longrightarrow> 4096 dvd unat a"
  by (rule page_ok_aligned) (rule pt_wf_page)

lemma slot_nonzero: "page_ok e a \<Longrightarrow> 0 < e \<Longrightarrow> i < 512 \<Longrightarrow> a + 8 * i \<noteq> 0"
  using unat_slot [of a i] by (auto simp: page_ok_def word_less_nat_alt word_unat_eq_iff word_le_nat_alt)

text \<open>A path only depends on the entries of the directory pages on the way.\<close>

lemma pt_node_cong:
  assumes "path_ok p" and "pt_node m' root [] = pt_node m root []"
    and "\<And>q d i. length q \<le> 1 \<Longrightarrow> path_ok q \<Longrightarrow> pt_node m root q = Some d \<Longrightarrow> i < 512 \<Longrightarrow>
           load64 m' (d + 8 * i) = load64 m (d + 8 * i)"
  shows "pt_node m' root p = pt_node m root p"
  using assms(1)
proof (cases rule: path_cases)
  case 1
  then show ?thesis by simp
next
  case (2 i)
  then show ?thesis using assms(3) [of "[]" root i] by (simp add: path_ok_def Let_def)
next
  case (3 i j)
  have i: "load64 m' (root + 8 * i) = load64 m (root + 8 * i)"
    using assms(3) [of "[]" root i] 3 by (simp add: path_ok_def)
  show ?thesis
    using 3 i assms(3) [of "[i]" "PTE2PA (load64 m (root + 8 * i))" j]
    by (auto simp: path_ok_def Let_def)
qed

text \<open>Writing a leaf entry changes the mapping of that page only.\<close>

lemma leaf_write_nodes:
  assumes "pt_wf e m root" and "pt_node m root (pt_path va) = Some a" and "path_ok p"
  shows "pt_node (store64 m (a + 8 * PX 0 va) v) root p = pt_node m root p"
proof (rule pt_node_cong [OF assms(3)])
  fix q d i assume q: "length q \<le> 1" "path_ok q" "pt_node m root q = Some d" "i < (512 :: u64)"
  have "a \<noteq> d"
    using pt_wf_inj [OF assms(1) path_ok_pt_path q(2) assms(2)] q by (auto simp: pt_path_def)
  then show "load64 (store64 m (a + 8 * PX 0 va) v) (d + 8 * i) = load64 m (d + 8 * i)"
    using q(4) pt_node_aligned [OF assms(1) path_ok_pt_path assms(2)] pt_node_aligned [OF assms(1) q(2,3)]
    by (intro load_store64_apart slot_apart) auto
qed simp

lemma PX_of_page:
  assumes "PGROUNDDOWN va = PGROUNDDOWN vb"
  shows "PX l va = PX l vb"
proof (rule bit_eqI)
  fix i
  have "bit (PGROUNDDOWN va) (12 + 9 * l + i) = bit (PGROUNDDOWN vb) (12 + 9 * l + i)"
    by (simp add: assms)
  then show "bit (PX l va) i = bit (PX l vb) i"
    by (auto simp: PX_def PXSHIFT_def PGSHIFT_def bit_PXMASK PGROUNDDOWN_eq bit_simps add.assoc
        dest: bit_imp_le_length)
qed

lemma pt_path_page:
  assumes "va < MAXVA" and "vb < MAXVA"
  shows "pt_path va = pt_path vb \<and> PX 0 va = PX 0 vb \<longleftrightarrow> PGROUNDDOWN va = PGROUNDDOWN vb"
  using PX_determine_page [OF assms] PX_of_page [of va vb] by (auto simp: pt_path_def)

lemma vmap_page:
  assumes "PGROUNDDOWN va = PGROUNDDOWN vb"
  shows "vmap m root va = vmap m root vb"
  unfolding vmap_def pt_path_def PX_of_page [OF assms] by (rule refl)

lemma leaf_write_vmap:
  assumes "pt_wf e m root" and "pt_node m root (pt_path va) = Some a"
    and "va < MAXVA" and "vb < MAXVA"
  shows "vmap (store64 m (a + 8 * PX 0 va) v) root vb
       = (if PGROUNDDOWN vb = PGROUNDDOWN va then if bit v 0 then Some v else None
          else vmap m root vb)"
proof (cases "pt_node m root (pt_path vb)")
  case None
  moreover have "PGROUNDDOWN vb \<noteq> PGROUNDDOWN va"
    using None assms(2) pt_path_page [OF assms(4,3)] by auto
  ultimately show ?thesis by (simp add: vmap_def leaf_write_nodes [OF assms(1,2)])
next
  case (Some b)
  show ?thesis
  proof (cases "PGROUNDDOWN vb = PGROUNDDOWN va")
    case True
    then have "pt_path vb = pt_path va" "PX 0 vb = PX 0 va"
      using pt_path_page [OF assms(4,3)] by auto
    moreover from this have "b = a" using Some assms(2) by simp
    ultimately show ?thesis
      using True assms(2) by (simp add: vmap_def leaf_write_nodes [OF assms(1,2)] Let_def)
  next
    case False
    then have "a \<noteq> b \<or> PX 0 va \<noteq> PX 0 vb"
      using pt_path_page [OF assms(4,3)] Some assms(1,2) pt_wf_inj path_ok_pt_path by metis
    then have "load64 (store64 m (a + 8 * PX 0 va) v) (b + 8 * PX 0 vb) = load64 m (b + 8 * PX 0 vb)"
      using assms(2) Some pt_node_aligned [OF assms(1) path_ok_pt_path]
      by (intro load_store64_apart slot_apart) auto
    then show ?thesis using False Some by (simp add: vmap_def leaf_write_nodes [OF assms(1,2)])
  qed
qed

text \<open>
  Adding a page-table page: \<open>pg\<close> is cleared and linked into the empty slot \<open>i\<close> of the
  directory page \<open>d\<close>.
\<close>

definition grow_mem :: "memory \<Rightarrow> u64 \<Rightarrow> u64 \<Rightarrow> u64 \<Rightarrow> memory" where
  "grow_mem m pg d i =
     store64 (mem_fill (mem_fill m pg 4096 5) pg 4096 0) (d + 8 * i) (PA2PTE pg OR PTE_V)"

lemma load64_zero: "(\<And>k. k < 8 \<Longrightarrow> m (a + of_nat k) = 0) \<Longrightarrow> load64 m a = 0"
proof -
  assume z: "\<And>k. k < 8 \<Longrightarrow> m (a + of_nat k) = 0"
  have "read_bytes m a 8 = replicate 8 0" using z by (intro nth_equalityI) simp_all
  moreover have "le_word (replicate n 0) = (0 :: u64)" for n by (induction n) simp_all
  ultimately show ?thesis by (simp add: load64_def)
qed

lemma load_fill_inside:
  assumes "4096 dvd unat pg" and "j < 512"
  shows "load64 (mem_fill m pg 4096 0) (pg + 8 * j) = 0"
proof (rule load64_zero)
  fix k :: nat assume k: "k < 8"
  have j: "unat (8 * j) = 8 * unat j" "unat j < 512"
    using assms(2) by (auto simp: unat_word_ariths word_less_nat_alt)
  have "unat (8 * j + of_nat k) = 8 * unat j + k"
    using j k by (subst unat_add_no_wrap) (simp_all add: unat_of_nat_small)
  then show "mem_fill m pg 4096 0 (pg + 8 * j + of_nat k) = 0"
    using j k by (simp add: mem_fill_def add.assoc)
qed

lemma grow_loads:
  assumes "4096 dvd unat pg" and "4096 dvd unat d" and "pg \<noteq> d" and "i < 512" and "j < 512"
  shows "load64 (grow_mem m pg d i) (d + 8 * i) = PA2PTE pg OR PTE_V"
    and "load64 (grow_mem m pg d i) (pg + 8 * j) = 0"
    and "4096 dvd unat b \<Longrightarrow> b \<noteq> pg \<Longrightarrow> b \<noteq> d \<or> j \<noteq> i \<Longrightarrow>
         load64 (grow_mem m pg d i) (b + 8 * j) = load64 m (b + 8 * j)"
proof -
  show "load64 (grow_mem m pg d i) (d + 8 * i) = PA2PTE pg OR PTE_V" by (simp add: grow_mem_def)
  show "load64 (grow_mem m pg d i) (pg + 8 * j) = 0"
    unfolding grow_mem_def using assms
    by (subst load_store64_apart) (auto intro!: slot_apart load_fill_inside)
  assume b: "4096 dvd unat b" "b \<noteq> pg" "b \<noteq> d \<or> j \<noteq> i"
  have "apart (d + 8 * i) 8 (b + 8 * j) 8" using b assms by (intro slot_apart) auto
  moreover have "apart pg 4096 (b + 8 * j) 8" using b assms by (intro slot_in_page_apart) auto
  ultimately show "load64 (grow_mem m pg d i) (b + 8 * j) = load64 m (b + 8 * j)"
    by (simp add: grow_mem_def load_store64_apart load_fill_apart)
qed

lemma entry_of_page:
  assumes "page_ok e pg"
  shows "PTE2PA (PA2PTE pg OR PTE_V) = pg" and "bit (PA2PTE pg OR PTE_V) 0"
proof -
  have "unat pg < 2 ^ 56" using assms by (simp add: page_ok_def word_less_nat_alt unat_PHYSTOP)
  then have "pg < push_bit 56 1" by (simp add: word_less_nat_alt unat_push_bit)
  then show "PTE2PA (PA2PTE pg OR PTE_V) = pg"
    using assms by (intro PTE2PA_PA2PTE) (auto simp: page_ok_def bit_PTE_flags)
  show "bit (PA2PTE pg OR PTE_V) 0" by (simp add: bit_or_iff bit_PTE_flags)
qed

lemma grow_nodes:
  assumes wf: "pt_wf e m root" and pg: "page_ok e pg" "pg \<notin> pt_pages m root"
    and q: "path_ok (q @ [i])" "pt_node m root q = Some d"
    and empty: "\<not> bit (load64 m (d + 8 * i)) 0" and p: "path_ok p"
  shows "pt_node (grow_mem m pg d i) root p = (if p = q @ [i] then Some pg else pt_node m root p)"
proof -
  let ?m = "grow_mem m pg d i"
  have q': "path_ok q" and i: "i < 512" and len: "length q \<le> 1"
    using q(1) by (auto simp: path_ok_def)
  have al: "4096 dvd unat pg" "4096 dvd unat d"
    using pg(1) pt_node_aligned [OF wf q' q(2)] by (simp_all add: page_ok_aligned)
  have ne: "pg \<noteq> d" using pg(2) q(2) q' unfolding pt_pages_def by blast
  have link: "load64 ?m (d + 8 * i) = PA2PTE pg OR PTE_V"
    by (rule grow_loads(1) [OF al ne i i])
  have new: "load64 ?m (pg + 8 * j) = 0" if "j < 512" for j
    by (rule grow_loads(2) [OF al ne i that])
  have old: "load64 ?m (b + 8 * j) = load64 m (b + 8 * j)"
    if "pt_node m root r = Some b" "path_ok r" "j < 512" "r \<noteq> q \<or> j \<noteq> i" for r b j
  proof (rule grow_loads(3) [OF al ne i that(3)])
    show "4096 dvd unat b" using pt_node_aligned [OF wf that(2,1)] .
    show "b \<noteq> pg" using that pg(2) unfolding pt_pages_def by blast
    show "b \<noteq> d \<or> j \<noteq> i" using that(4) pt_wf_inj [OF wf that(2) q' that(1)] q(2) by auto
  qed
  note pge = entry_of_page [OF pg(1)]
  show ?thesis
    using p
  proof (cases rule: path_cases)
    case 1
    then show ?thesis by simp
  next
    case (2 a)
    then show ?thesis
      using link pge old [of "[]" root a] len q(2) by (cases q) (auto simp: path_ok_def Let_def)
  next
    case (3 a b)
    show ?thesis
    proof (cases "q = [] \<and> a = i")
      case True
      then show ?thesis using 3 link pge new [of b] q(2) empty by (auto simp: Let_def)
    next
      case False
      have top: "load64 ?m (root + 8 * a) = load64 m (root + 8 * a)"
        using False 3 old [of "[]" root a] by (auto simp: path_ok_def)
      show ?thesis
      proof (cases "bit (load64 m (root + 8 * a)) 0")
        case True
        let ?c = "PTE2PA (load64 m (root + 8 * a))"
        have c: "pt_node m root [a] = Some ?c" using True by (simp add: Let_def)
        show ?thesis
        proof (cases "q = [a] \<and> b = i")
          case True
          then show ?thesis using 3 c q(2) link pge top by (auto simp: Let_def split: if_splits)
        next
          case False
          then show ?thesis
            using 3 old [OF c, of b] top by (auto simp: path_ok_def Let_def)
        qed
      next
        case no: False
        have "q \<noteq> [a]" using no q(2) by (auto simp: Let_def)
        with no show ?thesis using 3 top by (auto simp: Let_def)
      qed
    qed
  qed
qed

text \<open>
  \<open>extends root s ps t ps'\<close>: between \<open>s\<close> and \<open>t\<close> the page table at \<open>root\<close> may have taken
  pages from the free list to grow, without changing what it maps; no page is lost, and
  memory outside the page table and the free pages is untouched.
\<close>

definition extends :: "u64 \<Rightarrow> 'a kmem_scheme \<Rightarrow> u64 list \<Rightarrow> 'a kmem_scheme \<Rightarrow> u64 list \<Rightarrow> bool" where
  "extends root s ps t ps' \<longleftrightarrow> pt_inv t root ps' \<and>
     (\<exists>m f. t = s\<lparr>mem := m, freelist := f\<rparr>) \<and>
     pt_pages (mem t) root \<union> set ps' = pt_pages (mem s) root \<union> set ps \<and>
     vmap (mem t) root = vmap (mem s) root \<and>
     (\<forall>p a. path_ok p \<longrightarrow> pt_node (mem s) root p = Some a \<longrightarrow> pt_node (mem t) root p = Some a) \<and>
     (\<forall>x. PGROUNDDOWN x \<notin> pt_pages (mem s) root \<union> set ps \<longrightarrow> mem t x = mem s x)"

lemma extends_refl: "pt_inv s root ps \<Longrightarrow> extends root s ps s ps"
  unfolding extends_def by (intro conjI exI [of _ "mem s"] exI [of _ "freelist s"]) simp_all

lemma extends_trans:
  assumes "extends root s ps t ps'" and "extends root t ps' u ps''"
  shows "extends root s ps u ps''"
proof -
  obtain m f m' f' where "t = s\<lparr>mem := m, freelist := f\<rparr>" "u = t\<lparr>mem := m', freelist := f'\<rparr>"
    using assms unfolding extends_def by blast
  then have "u = s\<lparr>mem := m', freelist := f'\<rparr>" by simp
  then have "\<exists>m f. u = s\<lparr>mem := m, freelist := f\<rparr>" by blast
  with assms show ?thesis unfolding extends_def by auto
qed

lemma page_of_offset: "4096 dvd unat p \<Longrightarrow> unat (x - p) < 4096 \<Longrightarrow> PGROUNDDOWN x = p"
  for x p :: u64
proof -
  assume p: "4096 dvd unat p" and x: "unat (x - p) < 4096"
  have "unat p < 2 ^ LENGTH(64)" by (rule unsigned_less)
  with p have "unat p + 4096 \<le> 2 ^ 64" by (auto elim!: dvdE)
  then have "unat (p + (x - p)) = unat p + unat (x - p)"
    using x by (intro unat_add_no_wrap) simp
  then have "unat x = unat p + unat (x - p)" by simp
  then show ?thesis using p x by (intro unat_eqI) (auto simp: unat_PGROUNDDOWN elim!: dvdE)
qed

lemma slot_outside:
  assumes "4096 dvd unat d" and "i < 512" and "PGROUNDDOWN x \<noteq> d"
  shows "8 \<le> unat (x - (d + 8 * i))"
proof (rule ccontr)
  assume "\<not> ?thesis"
  then have lt: "unat (x - (d + 8 * i)) < 8" by simp
  have i: "unat (8 * i) = 8 * unat i" "unat i < 512"
    using assms(2) by (auto simp: unat_word_ariths word_less_nat_alt)
  have "unat (8 * i + (x - (d + 8 * i))) = 8 * unat i + unat (x - (d + 8 * i))"
    using lt i by (subst unat_add_no_wrap) simp_all
  then have "unat (x - d) < 4096" using lt i by (simp add: algebra_simps)
  with assms(1,3) page_of_offset show False by blast
qed

lemma grow_outside:
  assumes "4096 dvd unat pg" and "4096 dvd unat d" and "i < 512"
    and "PGROUNDDOWN x \<noteq> pg" and "PGROUNDDOWN x \<noteq> d"
  shows "grow_mem m pg d i x = m x"
proof -
  have "4096 \<le> unat (x - pg)" using page_of_offset assms(1,4) not_le by blast
  moreover have "8 \<le> unat (x - (d + 8 * i))" using assms(2,3,5) by (rule slot_outside)
  ultimately show ?thesis
    by (simp add: grow_mem_def store64_outside mem_fill_outside)
qed

lemma grow_extends:
  assumes inv: "pt_inv s root (pg # ps)"
    and q: "path_ok (q @ [i])" "pt_node (mem s) root q = Some d"
    and empty: "\<not> bit (load64 (mem s) (d + 8 * i)) 0"
    and t: "t = s\<lparr>mem := grow_mem (mem s) pg d i, freelist := load64 (mem s) pg\<rparr>"
  shows "extends root s (pg # ps) t ps" and "pt_node (mem t) root (q @ [i]) = Some pg"
proof -
  let ?m = "mem s"
  have wf: "pt_wf (kend s) ?m root" and km: "kmem_inv s (pg # ps)"
    and dis: "pt_pages ?m root \<inter> set (pg # ps) = {}"
    using inv by (simp_all add: pt_inv_def)
  have pg: "page_ok (kend s) pg" "pg \<notin> pt_pages ?m root" "pg \<notin> set ps"
    using km dis by (auto simp: kmem_inv_def)
  have q': "path_ok q" and i: "i < 512" using q(1) by (auto simp: path_ok_def)
  have al: "4096 dvd unat pg" "4096 dvd unat d"
    using pg(1) pt_node_aligned [OF wf q' q(2)] by (simp_all add: page_ok_aligned)
  have d: "d \<in> pt_pages ?m root" using q' q(2) by (auto simp: pt_pages_def)
  have node: "pt_node (mem t) root p = (if p = q @ [i] then Some pg else pt_node ?m root p)"
    if "path_ok p" for p
    using grow_nodes [OF wf pg(1,2) q empty that] by (simp add: t)
  have none: "pt_node ?m root (q @ [i]) = None"
  proof -
    have "q = [] \<or> (\<exists>a. q = [a])" using q(1) by (cases q) (auto simp: path_ok_def)
    then show ?thesis using q(2) empty by (auto simp: Let_def split: if_splits)
  qed
  show newnode: "pt_node (mem t) root (q @ [i]) = Some pg" using node [OF q(1)] by simp
  have pages: "pt_pages (mem t) root = insert pg (pt_pages ?m root)"
    using node q(1) none unfolding pt_pages_def by (auto split: if_splits) force
  have frame: "mem t x = ?m x" if "PGROUNDDOWN x \<noteq> pg" "PGROUNDDOWN x \<noteq> d" for x
    using grow_outside [OF al i that] by (simp add: t)
  have inj: "a \<noteq> pg" if "path_ok p" "pt_node ?m root p = Some a" for p a
    using that pg(2) by (auto simp: pt_pages_def)
  have wf': "pt_wf (kend t) (mem t) root"
    unfolding pt_wf_def pages
  proof (intro conjI ballI allI impI)
    show "page_ok (kend t) a" if "a \<in> insert pg (pt_pages ?m root)" for a
      using that pg(1) wf by (auto simp: pt_wf_def t)
    show "p = r" if "path_ok p" "path_ok r" "pt_node (mem t) root p = Some a"
        "pt_node (mem t) root r = Some a" for p r a
      using that inj pt_wf_inj [OF wf that(1,2)] by (auto simp: node split: if_splits)
  qed
  have chainpart: "kmem_inv t ps"
  proof -
    have "load64 (mem t) x = load64 ?m x" if "x \<in> set ps" for x
    proof -
      have x: "page_ok (kend s) x" "x \<noteq> pg" "x \<noteq> d"
        using that km dis d pg(3) by (auto simp: kmem_inv_def)
      have "load64 (grow_mem ?m pg d i) (x + 8 * 0) = load64 ?m (x + 8 * 0)"
        using x pg(2) d by (intro grow_loads(3) [OF al _ i]) (auto simp: page_ok_aligned)
      then show ?thesis by (simp add: t)
    qed
    then have "chain (mem t) (load64 ?m pg) ps = chain ?m (load64 ?m pg) ps"
      by (rule chain_unchanged)
    then show ?thesis using km by (simp add: kmem_inv_def t)
  qed
  have vm: "vmap (mem t) root v = vmap ?m root v" for v
  proof (cases "pt_path v = q @ [i]")
    case True
    have "load64 (mem t) (pg + 8 * PX 0 v) = 0"
      using grow_loads(2) [OF al _ i PX_less] d pg(2) by (auto simp: t)
    then show ?thesis using True newnode none by (simp add: vmap_def)
  next
    case False
    then have same: "pt_node (mem t) root (pt_path v) = pt_node ?m root (pt_path v)"
      using node by simp
    show ?thesis
    proof (cases "pt_node ?m root (pt_path v)")
      case (Some a)
      have len: "length q \<le> 1" using q(1) by (simp add: path_ok_def)
      have "a \<noteq> d" using pt_wf_inj [OF wf path_ok_pt_path q' Some] q(2) len
        by (auto simp: pt_path_def)
      moreover have "a \<noteq> pg" using inj Some path_ok_pt_path by blast
      ultimately have "load64 (mem t) (a + 8 * PX 0 v) = load64 ?m (a + 8 * PX 0 v)"
        using pt_node_aligned [OF wf path_ok_pt_path Some] d pg(2)
        unfolding t by (simp, intro grow_loads(3) [OF al _ i]) auto
      then show ?thesis using same Some by (simp add: vmap_def)
    qed (simp add: vmap_def same)
  qed
  show "extends root s (pg # ps) t ps"
    unfolding extends_def
  proof (intro conjI allI impI)
    show "pt_inv t root ps" using chainpart wf' dis pages pg(3) by (auto simp: pt_inv_def)
    show "\<exists>m f. t = s\<lparr>mem := m, freelist := f\<rparr>" using t by blast
    show "pt_pages (mem t) root \<union> set ps = pt_pages ?m root \<union> set (pg # ps)" using pages by auto
    show "vmap (mem t) root = vmap ?m root" using vm by (rule ext)
    show "pt_node (mem t) root p = Some a" if "path_ok p" "pt_node ?m root p = Some a" for p a
      using that node none by auto
    show "mem t x = ?m x" if "PGROUNDDOWN x \<notin> pt_pages ?m root \<union> set (pg # ps)" for x
      using that d by (intro frame) auto
  qed
qed

subsection \<open>Walking with allocation\<close>

definition next_dir :: "u64 \<Rightarrow> u64 \<Rightarrow> ('a kmem_scheme, u64 option) kfun" where
  "next_dir d i =
     bnd (load_k (d + 8 * i)) (\<lambda>e.
     if e AND PTE_V \<noteq> 0 then ret (Some (PTE2PA e))
     else bnd kalloc (\<lambda>pg.
          if pg = 0 then ret None
          else bnd (memset_k pg 0 (ucast PGSIZE)) (\<lambda>_.
               bnd (store_k (d + 8 * i) (PA2PTE pg OR PTE_V)) (\<lambda>_. ret (Some pg)))))"

lemma walk_levels_next:
  "walk_levels (Suc l) d va True =
     bnd (next_dir d (PX (Suc l) va)) (\<lambda>r. case r of None \<Rightarrow> ret 0 | Some c \<Rightarrow> walk_levels l c va True)"
  by (rule ext) (simp add: next_dir_def exec load_k_def memset_k_def store_k_def Let_def split: outcome.splits)

lemma next_dir_ok:
  assumes inv: "pt_inv s root ps" and q: "path_ok (q @ [i])" "pt_node (mem s) root q = Some d"
  shows "\<exists>r t ps'. next_dir d i s = Ok r t \<and> extends root s ps t ps' \<and>
           (case r of None \<Rightarrow> ps' = [] | Some c \<Rightarrow> pt_node (mem t) root (q @ [i]) = Some c)"
proof (cases "bit (load64 (mem s) (d + 8 * i)) 0")
  case True
  have "q = [] \<or> (\<exists>a. q = [a])" using q(1) by (cases q) (auto simp: path_ok_def)
  then have "pt_node (mem s) root (q @ [i]) = Some (PTE2PA (load64 (mem s) (d + 8 * i)))"
    using q(2) True by (auto simp: Let_def split: if_splits)
  then show ?thesis
    using True extends_refl [OF inv] by (auto simp: next_dir_def exec load_k_def)
next
  case False
  have km: "kmem_inv s ps" using inv by (simp add: pt_inv_def)
  then have fl: "lock_free L_kmem s" "cpu_ok s" by (simp_all add: kmem_inv_def)
  show ?thesis
  proof (cases ps)
    case Nil
    then show ?thesis
      using False inv extends_refl [OF inv] kpool.alloc_none [of s] km
      by (auto simp: next_dir_def exec load_k_def)
  next
    case (Cons pg qs)
    have fp: "freelist s = pg" "pg \<noteq> 0"
      using km Cons kpool.inv_pages [OF km] by (auto simp: kmem_inv_def)
    let ?t = "s\<lparr>mem := grow_mem (mem s) pg d i, freelist := load64 (mem s) pg\<rparr>"
    have "next_dir d i s = Ok (Some pg) ?t"
      using False fp fl
      by (simp add: next_dir_def exec load_k_def memset_k_def store_k_def kalloc_eq memset_eq_fill
          grow_mem_def)
    then show ?thesis
      using grow_extends [OF inv [unfolded Cons] q False refl] Cons by auto
  qed
qed

lemma walk_alloc:
  assumes inv: "pt_inv s root ps" and va: "va < MAXVA"
  shows "\<exists>r t ps'. walk root va True s = Ok r t \<and> extends root s ps t ps' \<and>
           (r = 0 \<and> ps' = [] \<or>
            (\<exists>a. pt_node (mem t) root (pt_path va) = Some a \<and> r = a + 8 * PX 0 va \<and> r \<noteq> 0))"
proof -
  obtain r1 t1 ps1 where 1: "next_dir root (PX 2 va) s = Ok r1 t1" "extends root s ps t1 ps1"
      "case r1 of None \<Rightarrow> ps1 = [] | Some c \<Rightarrow> pt_node (mem t1) root ([] @ [PX 2 va]) = Some c"
    using next_dir_ok [OF inv, of "[]" "PX 2 va" root] by (auto simp: path_ok_def)
  have w: "walk root va True = walk_levels 2 root va True" using va by (auto simp: walk_def dest: leD)
  show ?thesis
  proof (cases r1)
    case None
    then have "walk root va True s = Ok 0 t1"
      using 1(1) unfolding w numeral_2_eq_2 walk_levels_next by (simp add: exec)
    then show ?thesis using 1(2,3) None by auto
  next
    case (Some c)
    have inv1: "pt_inv t1 root ps1" using 1(2) by (simp add: extends_def)
    obtain r2 t2 ps2 where 2: "next_dir c (PX 1 va) t1 = Ok r2 t2" "extends root t1 ps1 t2 ps2"
        "case r2 of None \<Rightarrow> ps2 = [] | Some c \<Rightarrow> pt_node (mem t2) root ([PX 2 va] @ [PX 1 va]) = Some c"
      using next_dir_ok [OF inv1, of "[PX 2 va]" "PX 1 va" c] 1(3) Some by (auto simp: path_ok_def)
    have run: "walk root va True s =
        (case r2 of None \<Rightarrow> Ok 0 t2 | Some b \<Rightarrow> Ok (b + 8 * PX 0 va) t2)"
      using 1(1) 2(1) Some unfolding w numeral_2_eq_2 walk_levels_next
      by (simp add: exec split: option.splits)
    have ext: "extends root s ps t2 ps2" using extends_trans [OF 1(2) 2(2)] .
    show ?thesis
    proof (cases r2)
      case None
      then show ?thesis using run ext 2(3) by auto
    next
      case (Some b)
      then have b: "pt_node (mem t2) root (pt_path va) = Some b" using 2(3) by (simp add: pt_path_def)
      have "pt_wf (kend t2) (mem t2) root" "0 < kend t2"
        using ext by (auto simp: extends_def pt_inv_def kmem_inv_def)
      then have "b + 8 * PX 0 va \<noteq> 0" using slot_nonzero pt_wf_page [OF _ path_ok_pt_path b] PX_less by blast
      then show ?thesis using run ext Some b by auto
    qed
  qed
qed

text \<open>Writing a leaf entry keeps the tree and the free list.\<close>

lemma leaf_write_inv:
  assumes inv: "pt_inv s root ps" and a: "pt_node (mem s) root (pt_path va) = Some a"
    and t: "t = s\<lparr>mem := store64 (mem s) (a + 8 * PX 0 va) v\<rparr>"
  shows "pt_inv t root ps" and "pt_pages (mem t) root = pt_pages (mem s) root"
    and "PGROUNDDOWN x \<notin> pt_pages (mem s) root \<Longrightarrow> mem t x = mem s x"
proof -
  have wf: "pt_wf (kend s) (mem s) root" using inv by (simp add: pt_inv_def)
  have nodes: "pt_node (mem t) root p = pt_node (mem s) root p" if "path_ok p" for p
    using leaf_write_nodes [OF wf a that] by (simp add: t)
  show pages: "pt_pages (mem t) root = pt_pages (mem s) root"
    using nodes by (auto simp: pt_pages_def)
  have wf': "pt_wf (kend t) (mem t) root"
    using wf nodes unfolding pt_wf_def pages by (simp add: t)
  have ap: "a \<in> pt_pages (mem s) root" using a path_ok_pt_path unfolding pt_pages_def by blast
  have al: "4096 dvd unat a" using pt_node_aligned [OF wf path_ok_pt_path a] .
  have "load64 (mem t) x = load64 (mem s) x" if "x \<in> set ps" for x
  proof -
    have x: "4096 dvd unat x" "a \<noteq> x" using that inv ap by (auto simp: pt_inv_def kmem_inv_def page_ok_def)
    then have "apart (a + 8 * PX 0 va) 8 (x + 8 * 0) 8" using al by (intro slot_apart) auto
    then show ?thesis by (simp add: t load_store64_apart)
  qed
  then have "chain (mem t) (freelist s) ps = chain (mem s) (freelist s) ps" by (rule chain_unchanged)
  then show "pt_inv t root ps" using inv wf' pages by (simp add: pt_inv_def kmem_inv_def t)
  assume x: "PGROUNDDOWN x \<notin> pt_pages (mem s) root"
  have "8 \<le> unat (x - (a + 8 * PX 0 va))" using al ap x by (intro slot_outside) auto
  then show "mem t x = mem s x" by (simp add: t store64_outside)
qed

subsection \<open>Mapping pages\<close>

text \<open>
  \<open>remaps root s ps t ps' g\<close>: between \<open>s\<close> and \<open>t\<close> the mapping of \<open>root\<close> changed as \<open>g\<close> says,
  and pages moved from the free list into the page table only.
\<close>

definition remaps :: "u64 \<Rightarrow> 'a kmem_scheme \<Rightarrow> u64 list \<Rightarrow> 'a kmem_scheme \<Rightarrow> u64 list \<Rightarrow>
    ((u64 \<Rightarrow> u64 option) \<Rightarrow> u64 \<Rightarrow> u64 option) \<Rightarrow> bool" where
  "remaps root s ps t ps' g \<longleftrightarrow> pt_inv t root ps' \<and> (\<exists>m f. t = s\<lparr>mem := m, freelist := f\<rparr>) \<and>
     pt_pages (mem t) root \<union> set ps' = pt_pages (mem s) root \<union> set ps \<and>
     (\<forall>v < MAXVA. vmap (mem t) root v = g (vmap (mem s) root) v) \<and>
     (\<forall>x. PGROUNDDOWN x \<notin> pt_pages (mem s) root \<union> set ps \<longrightarrow> mem t x = mem s x)"

lemma remaps_of_extends: "extends root s ps t ps' \<Longrightarrow> remaps root s ps t ps' (\<lambda>f. f)"
  unfolding extends_def remaps_def by auto

lemma remaps_inv: "remaps root s ps t ps' g \<Longrightarrow> pt_inv t root ps'"
  by (simp add: remaps_def)

lemma remaps_trans:
  assumes "remaps root s ps t ps' g" and "remaps root t ps' u ps'' h"
    and "\<And>f f' v. v < MAXVA \<Longrightarrow> (\<And>w. w < MAXVA \<Longrightarrow> f w = f' w) \<Longrightarrow> h f v = h f' v"
  shows "remaps root s ps u ps'' (\<lambda>f. h (g f))"
proof -
  obtain m f m' f' where "t = s\<lparr>mem := m, freelist := f\<rparr>" "u = t\<lparr>mem := m', freelist := f'\<rparr>"
    using assms(1,2) unfolding remaps_def by blast
  then have "u = s\<lparr>mem := m', freelist := f'\<rparr>" by simp
  then have ex: "\<exists>m f. u = s\<lparr>mem := m, freelist := f\<rparr>" by blast
  have "vmap (mem u) root v = h (g (vmap (mem s) root)) v" if "v < MAXVA" for v
  proof -
    have "vmap (mem u) root v = h (vmap (mem t) root) v"
      using assms(2) that unfolding remaps_def by blast
    also have "\<dots> = h (g (vmap (mem s) root)) v"
      using assms(1) that by (intro assms(3)) (auto simp: remaps_def)
    finally show ?thesis .
  qed
  then show ?thesis using assms(1,2) ex unfolding remaps_def by auto
qed

definition map_page :: "u64 \<Rightarrow> u64 option \<Rightarrow> (u64 \<Rightarrow> u64 option) \<Rightarrow> u64 \<Rightarrow> u64 option" where
  "map_page va e f = (\<lambda>v. if PGROUNDDOWN v = PGROUNDDOWN va then e else f v)"

lemma map_page_cong:
  "v < MAXVA \<Longrightarrow> (\<And>w. w < MAXVA \<Longrightarrow> f w = f' w) \<Longrightarrow> map_page va e f v = map_page va e f' v"
  by (simp add: map_page_def)

text \<open>One round of the loop of \<open>mappages\<close> on an unmapped page.\<close>

lemma map_one:
  assumes inv: "pt_inv s root ps" and va: "va < MAXVA" and un: "vmap (mem s) root va = None"
  shows "(\<exists>t. walk root va True s = Ok 0 t \<and> remaps root s ps t [] (\<lambda>f. f)) \<or>
    (\<exists>pte t ps'. walk root va True s = Ok pte t \<and> pte \<noteq> 0 \<and> \<not> bit (load64 (mem t) pte) 0 \<and>
       remaps root s ps (t\<lparr>mem := store64 (mem t) pte (PA2PTE pa OR perm OR PTE_V)\<rparr>) ps'
         (map_page va (Some (PA2PTE pa OR perm OR PTE_V))))"
proof -
  let ?e = "PA2PTE pa OR perm OR PTE_V"
  obtain r t ps' where w: "walk root va True s = Ok r t" "extends root s ps t ps'"
      "r = 0 \<and> ps' = [] \<or>
       (\<exists>a. pt_node (mem t) root (pt_path va) = Some a \<and> r = a + 8 * PX 0 va \<and> r \<noteq> 0)"
    using walk_alloc [OF inv va] by blast
  from w(3) show ?thesis
  proof
    assume "r = 0 \<and> ps' = []"
    then show ?thesis using w(1,2) remaps_of_extends by blast
  next
    assume "\<exists>a. pt_node (mem t) root (pt_path va) = Some a \<and> r = a + 8 * PX 0 va \<and> r \<noteq> 0"
    then obtain a where a: "pt_node (mem t) root (pt_path va) = Some a" "r = a + 8 * PX 0 va" "r \<noteq> 0"
      by blast
    have invt: "pt_inv t root ps'" and wf: "pt_wf (kend t) (mem t) root"
      and vm: "vmap (mem t) root = vmap (mem s) root"
      using w(2) by (auto simp: extends_def pt_inv_def)
    let ?u = "t\<lparr>mem := store64 (mem t) r ?e\<rparr>"
    have u: "?u = t\<lparr>mem := store64 (mem t) (a + 8 * PX 0 va) ?e\<rparr>" using a(2) by simp
    have unm: "\<not> bit (load64 (mem t) r) 0"
      using un a(1,2) vm by (auto simp: vmap_def Let_def fun_eq_iff split: if_splits dest: spec [of _ va])
    have "remaps root t ps' ?u ps' (map_page va (Some ?e))"
      unfolding remaps_def
    proof (intro conjI allI impI)
      show "pt_inv ?u root ps'" using leaf_write_inv(1) [OF invt a(1) u] .
      show "\<exists>m f. ?u = t\<lparr>mem := m, freelist := f\<rparr>"
        by (intro exI [of _ "store64 (mem t) r ?e"] exI [of _ "freelist t"]) simp
      show "pt_pages (mem ?u) root \<union> set ps' = pt_pages (mem t) root \<union> set ps'"
        using leaf_write_inv(2) [OF invt a(1) u] by simp
      show "vmap (mem ?u) root v = map_page va (Some ?e) (vmap (mem t) root) v" if "v < MAXVA" for v
        using leaf_write_vmap [OF wf a(1) va that, of ?e] a(2)
        by (simp add: map_page_def bit_or_iff bit_PTE_flags)
      show "mem ?u x = mem t x" if "PGROUNDDOWN x \<notin> pt_pages (mem t) root \<union> set ps'" for x
        using leaf_write_inv(3) [OF invt a(1) u, of x] that by auto
    qed
    then have "remaps root s ps ?u ps' (map_page va (Some ?e))"
      by (rule remaps_trans [OF remaps_of_extends [OF w(2)]]) (simp add: map_page_def)
    then show ?thesis using w(1) a(3) unm by blast
  qed
qed

primrec map_range :: "u64 \<Rightarrow> u64 \<Rightarrow> u64 \<Rightarrow> nat \<Rightarrow> (u64 \<Rightarrow> u64 option) \<Rightarrow> u64 \<Rightarrow> u64 option" where
  "map_range va pa perm 0 f = f"
| "map_range va pa perm (Suc n) f =
     map_range (va + PGSIZE) (pa + PGSIZE) perm n (map_page va (Some (PA2PTE pa OR perm OR PTE_V)) f)"

lemma map_range_fun:
  "map_range va pa perm 0 = (\<lambda>f. f)"
  "map_range va pa perm (Suc n) =
     (\<lambda>f. map_range (va + PGSIZE) (pa + PGSIZE) perm n (map_page va (Some (PA2PTE pa OR perm OR PTE_V)) f))"
  by (simp_all add: fun_eq_iff)

lemma map_range_cong:
  "v < MAXVA \<Longrightarrow> (\<And>w. w < MAXVA \<Longrightarrow> f w = f' w) \<Longrightarrow> map_range va pa perm n f v = map_range va pa perm n f' v"
proof (induction n arbitrary: va pa f f')
  case (Suc n)
  show ?case
    unfolding map_range.simps
    by (rule Suc.IH [OF Suc.prems(1)]) (simp add: map_page_def Suc.prems(2))
qed simp

lemma map_range_apply:
  assumes "4096 dvd unat va" and "unat va + 4096 * n \<le> 2 ^ 38"
  shows "map_range va pa perm n f v =
    (if unat va \<le> unat (PGROUNDDOWN v) \<and> unat (PGROUNDDOWN v) < unat va + 4096 * n
     then Some (PA2PTE (pa + (PGROUNDDOWN v - va)) OR perm OR PTE_V) else f v)"
  using assms
proof (induction n arbitrary: va pa f)
  case (Suc n)
  have "va < MAXVA" using Suc.prems(2) by (simp add: word_less_nat_alt unat_MAXVA)
  note st = step_MAXVA [OF this]
  have pa: "pa + PGSIZE + (PGROUNDDOWN v - (va + PGSIZE)) = pa + (PGROUNDDOWN v - va)" by simp
  have al: "4096 dvd unat (PGROUNDDOWN v)" by (simp add: unat_PGROUNDDOWN)
  have next_page: "unat (PGROUNDDOWN v) = unat va \<or> unat va + 4096 \<le> unat (PGROUNDDOWN v)"
    if "unat va \<le> unat (PGROUNDDOWN v)"
    using that al Suc.prems(1) by (auto elim!: dvdE)
  have IH: "map_range (va + PGSIZE) (pa + PGSIZE) perm n (map_page va e f) v =
      (if unat (va + PGSIZE) \<le> unat (PGROUNDDOWN v) \<and> unat (PGROUNDDOWN v) < unat (va + PGSIZE) + 4096 * n
       then Some (PA2PTE (pa + PGSIZE + (PGROUNDDOWN v - (va + PGSIZE))) OR perm OR PTE_V)
       else map_page va e f v)" for e
    using Suc.prems st by (intro Suc.IH) simp_all
  show ?case
  proof (cases "PGROUNDDOWN v = va")
    case True
    then show ?thesis
      using IH st Suc.prems(1) by (simp add: map_page_def PGROUNDDOWN_aligned)
  next
    case False
    then have ne: "unat (PGROUNDDOWN v) \<noteq> unat va" by (simp add: word_unat_eq_iff)
    have "map_page va e f v = f v" for e
      using False Suc.prems(1) by (simp add: map_page_def PGROUNDDOWN_aligned)
    then show ?thesis
      unfolding map_range.simps IH pa st using ne next_page by auto
  qed
qed auto

lemma mappages_loop_ok:
  assumes "pt_inv s root ps" and "4096 dvd unat a" and "lst = a + PGSIZE * of_nat n"
    and "unat a + 4096 * Suc n \<le> 2 ^ 38"
    and "\<And>k. k \<le> n \<Longrightarrow> vmap (mem s) root (a + PGSIZE * of_nat k) = None"
  shows "\<exists>r t ps'. mappages_loop root a lst pa perm s = Ok r t \<and>
     (r = 0 \<and> remaps root s ps t ps' (map_range a pa perm (Suc n)) \<or>
      r = - 1 \<and> (\<exists>k \<le> n. remaps root s ps t [] (map_range a pa perm k)))"
  using assms
proof (induction n arbitrary: s ps a pa)
  case (0 s ps a pa)
  have a: "a < MAXVA" using 0 by (simp add: word_less_nat_alt unat_MAXVA)
  have un: "vmap (mem s) root a = None" using 0(5) [of 0] by simp
  have "lst = a" using 0 by simp
  then show ?case
    using map_one [OF 0(1) a un, of pa perm]
    by (subst mappages_loop.simps) (auto simp: exec load_k_def store_k_def map_range_fun)
next
  case (Suc n s ps a pa)
  let ?e = "PA2PTE pa OR perm OR PTE_V"
  have a: "a < MAXVA" using Suc.prems(4) by (simp add: word_less_nat_alt unat_MAXVA)
  have un: "vmap (mem s) root a = None" using Suc.prems(5) [of 0] by simp
  have off: "unat (a + PGSIZE * of_nat k) = unat a + 4096 * k" if "k \<le> Suc n" for k
  proof -
    have "unat (of_nat k :: u64) = k" using that Suc.prems(4) by (intro unat_of_nat_small) simp
    then have "unat (PGSIZE * of_nat k) = 4096 * k"
      using that Suc.prems(4) by (simp add: unat_word_ariths)
    then show ?thesis using that Suc.prems(4) by (subst unat_add_no_wrap) simp_all
  qed
  have ne: "a \<noteq> lst" using off [of "Suc n"] Suc.prems(3) by (auto simp: word_unat_eq_iff simp del: of_nat_Suc)
  note st = step_MAXVA [OF a]
  from map_one [OF Suc.prems(1) a un, of pa perm] show ?case
  proof
    assume "\<exists>t. walk root a True s = Ok 0 t \<and> remaps root s ps t [] (\<lambda>f. f)"
    then show ?thesis
      by (subst mappages_loop.simps) (auto simp: exec map_range_fun intro!: exI [of _ "0 :: nat"])
  next
    assume "\<exists>pte t ps'. walk root a True s = Ok pte t \<and> pte \<noteq> 0 \<and> \<not> bit (load64 (mem t) pte) 0 \<and>
       remaps root s ps (t\<lparr>mem := store64 (mem t) pte ?e\<rparr>) ps' (map_page a (Some ?e))"
    then obtain pte t ps' where w: "walk root a True s = Ok pte t" "pte \<noteq> 0" "\<not> bit (load64 (mem t) pte) 0"
       "remaps root s ps (t\<lparr>mem := store64 (mem t) pte ?e\<rparr>) ps' (map_page a (Some ?e))" by blast
    let ?t = "t\<lparr>mem := store64 (mem t) pte ?e\<rparr>"
    have run: "mappages_loop root a lst pa perm s = mappages_loop root (a + PGSIZE) lst (pa + PGSIZE) perm ?t"
      using w(1-3) ne by (subst mappages_loop.simps) (simp add: exec load_k_def store_k_def)
    have unm: "vmap (mem ?t) root (a + PGSIZE + PGSIZE * of_nat k) = None" if "k \<le> n" for k
    proof -
      let ?v = "a + PGSIZE + PGSIZE * of_nat k"
      have v: "?v = a + PGSIZE * of_nat (Suc k)" by (simp add: algebra_simps)
      have uv: "unat ?v = unat a + 4096 * Suc k" unfolding v using that by (intro off) simp
      have "?v < MAXVA" using uv that Suc.prems(4) by (simp add: word_less_nat_alt unat_MAXVA)
      then have "vmap (mem ?t) root ?v = map_page a (Some ?e) (vmap (mem s) root) ?v"
        using w(4) unfolding remaps_def by blast
      moreover have "vmap (mem s) root ?v = None"
        unfolding v using that by (intro Suc.prems(5)) simp
      moreover have "PGROUNDDOWN ?v \<noteq> PGROUNDDOWN a"
        using uv Suc.prems(2) by (auto simp: word_unat_eq_iff unat_PGROUNDDOWN elim!: dvdE)
      ultimately show ?thesis by (simp add: map_page_def)
    qed
    obtain r u ps'' where IH: "mappages_loop root (a + PGSIZE) lst (pa + PGSIZE) perm ?t = Ok r u"
       "(r = 0 \<and> remaps root ?t ps' u ps'' (map_range (a + PGSIZE) (pa + PGSIZE) perm (Suc n)) \<or>
        r = - 1 \<and> (\<exists>k \<le> n. remaps root ?t ps' u [] (map_range (a + PGSIZE) (pa + PGSIZE) perm k)))"
    proof -
      have "pt_inv ?t root ps'" using w(4) by (simp add: remaps_def)
      moreover have "4096 dvd unat (a + PGSIZE)" using Suc.prems(2) by (simp add: st)
      moreover have "lst = a + PGSIZE + PGSIZE * of_nat n" using Suc.prems(3) by (simp add: algebra_simps)
      moreover have "unat (a + PGSIZE) + 4096 * Suc n \<le> 2 ^ 38" using Suc.prems(4) by (simp add: st)
      ultimately show thesis using Suc.IH [of ?t ps' "a + PGSIZE" "pa + PGSIZE"] unm that by blast
    qed
    have ext: "remaps root s ps u ps'' (map_range a pa perm (Suc k))"
      if "remaps root ?t ps' u ps'' (map_range (a + PGSIZE) (pa + PGSIZE) perm k)" for u ps'' k
      unfolding map_range_fun(2) using w(4) that
    proof (rule remaps_trans)
      fix f f' :: "u64 \<Rightarrow> u64 option" and v :: u64
      assume "v < MAXVA" and "\<And>w. w < MAXVA \<Longrightarrow> f w = f' w"
      then show "map_range (a + PGSIZE) (pa + PGSIZE) perm k f v
          = map_range (a + PGSIZE) (pa + PGSIZE) perm k f' v"
        by (rule map_range_cong)
    qed
    from IH(2) show ?thesis
    proof
      assume "r = 0 \<and> remaps root ?t ps' u ps'' (map_range (a + PGSIZE) (pa + PGSIZE) perm (Suc n))"
      then have "r = 0" "remaps root s ps u ps'' (map_range a pa perm (Suc (Suc n)))"
        using ext by blast+
      then show ?thesis using IH(1) run by metis
    next
      assume "r = - 1 \<and> (\<exists>k \<le> n. remaps root ?t ps' u [] (map_range (a + PGSIZE) (pa + PGSIZE) perm k))"
      then obtain k where "r = - 1" "k \<le> n"
          "remaps root ?t ps' u [] (map_range (a + PGSIZE) (pa + PGSIZE) perm k)" by blast
      then have "r = - 1" "Suc k \<le> Suc n" "remaps root s ps u [] (map_range a pa perm (Suc k))"
        using ext by blast+
      then show ?thesis using IH(1) run by metis
    qed
  qed
qed

lemma mappages_refines:
  assumes inv: "pt_inv s root ps" and va: "4096 dvd unat va" and n: "0 < n"
    and top: "unat va + 4096 * n \<le> 2 ^ 38"
    and un: "\<And>k. k < n \<Longrightarrow> vmap (mem s) root (va + PGSIZE * of_nat k) = None"
  shows "\<exists>r t ps'. mappages root va (PGSIZE * of_nat n) pa perm s = Ok r t \<and>
     (r = 0 \<and> remaps root s ps t ps' (map_range va pa perm n) \<or>
      r = - 1 \<and> (\<exists>k < n. remaps root s ps t [] (map_range va pa perm k)))"
proof -
  obtain k where k: "n = Suc k" using n by (cases n) auto
  have un': "unat (of_nat n :: u64) = n" using top by (intro unat_of_nat_small) simp
  have size: "unat (PGSIZE * of_nat n) = 4096 * n"
    using un' top by (simp add: unat_word_ariths)
  have nz: "PGSIZE * of_nat n \<noteq> 0" using size n by auto
  have "unat (of_nat k :: u64) = k" using top k by (intro unat_of_nat_small) simp
  then have "unat (PGSIZE * of_nat k) = 4096 * k" using top k by (simp add: unat_word_ariths)
  then have lst: "unat (va + PGSIZE * of_nat k) = unat va + 4096 * k"
    using top k by (subst unat_add_no_wrap) simp_all
  have "va + PGSIZE * of_nat n - 1 = (va + PGSIZE * of_nat k) + 4095"
    by (simp add: k PGSIZE_def algebra_simps)
  moreover have "unat ((va + PGSIZE * of_nat k) + 4095) = unat va + 4096 * k + 4095"
    using lst top k by (subst unat_add_no_wrap) simp_all
  ultimately have "unat (va + PGSIZE * of_nat n - 1) = unat va + 4096 * k + 4095" by (simp only:)
  moreover obtain c where c: "unat va = 4096 * c" using va by (auto elim: dvdE)
  moreover have "(4096 * c + 4096 * k + 4095) div 4096 = c + k" for c k :: nat by linarith
  ultimately have "unat (PGROUNDDOWN (va + PGSIZE * of_nat n - 1)) = unat (va + PGSIZE * of_nat k)"
    unfolding unat_PGROUNDDOWN lst by simp
  then have "PGROUNDDOWN (va + PGSIZE * of_nat n - 1) = va + PGSIZE * of_nat k"
    by (rule unat_eqI)
  then have run: "mappages root va (PGSIZE * of_nat n) pa perm s
      = mappages_loop root va (va + PGSIZE * of_nat k) pa perm s"
    using nz va by (simp add: mappages_def PGROUNDDOWN_aligned)
  show ?thesis
    unfolding run using mappages_loop_ok [OF inv va refl, of k pa perm] top un k
    by (simp add: less_Suc_eq_le)
qed

subsection \<open>Properties of mapping\<close>

text \<open>
  A small machine for evaluating the properties: an empty page table at \<open>0x80032000\<close> and two
  free pages.
\<close>

definition vm_mem :: memory where
  "vm_mem = store64 (\<lambda>_. 0) 0x80040000 0x80041000"

definition vm_machine :: kmem where
  "vm_machine = boot_kmem\<lparr>mem := vm_mem, freelist := 0x80040000\<rparr>"

lemma load64_zeros [simp]: "load64 (\<lambda>_. 0) a = 0"
  by (rule load64_zero) simp

lemma vm_mem_slots: "4096 dvd unat a \<Longrightarrow> i < 512 \<Longrightarrow> a \<noteq> 0x80040000 \<Longrightarrow> load64 vm_mem (a + 8 * i) = 0"
  using slot_apart [of "0x80040000" a 0 i] by (simp add: vm_mem_def load_store64_apart)

lemma vm_mem_node: "path_ok p \<Longrightarrow> pt_node vm_mem 0x80032000 p = (if p = [] then Some 0x80032000 else None)"
  using vm_mem_slots [of "0x80032000"] by (cases p) (auto simp: path_ok_def)

lemma vm_machine_inv: "pt_inv vm_machine 0x80032000 [0x80040000, 0x80041000]"
proof -
  have pages: "pt_pages vm_mem 0x80032000 = {0x80032000}"
    using vm_mem_node by (auto simp: pt_pages_def path_ok_def split: if_splits intro!: exI [of _ "[]"])
  have ok: "page_ok 0x80030000 0x80032000" "page_ok 0x80030000 0x80040000" "page_ok 0x80030000 0x80041000"
    by (simp_all add: page_ok_def PHYSTOP_def KERNBASE_def)
  have "load64 vm_mem 0x80041000 = 0" using vm_mem_slots [of "0x80041000" 0] by simp
  moreover have "load64 vm_mem 0x80040000 = 0x80041000" by (simp add: vm_mem_def)
  ultimately have "kmem_inv vm_machine [0x80040000, 0x80041000]"
    using ok by (simp add: kmem_inv_def vm_machine_def boot_kmem_def lock_free_def cpu_ok_def sie_on_def)
  moreover have "pt_wf 0x80030000 vm_mem 0x80032000"
    using ok vm_mem_node unfolding pt_wf_def pages by (auto split: if_splits)
  ultimately show ?thesis using pages by (simp add: pt_inv_def vm_machine_def boot_kmem_def)
qed

lemma vm_machine_unmapped: "vmap (mem vm_machine) 0x80032000 v = None"
  using vm_mem_node [of "pt_path v"] by (simp add: vmap_def vm_machine_def pt_path_def path_ok_def)

text \<open>
  Claim C4.  \<open>mappages\<close> on a range of unmapped pages below \<^verbatim>\<open>MAXVA\<close> maps exactly that range:
  it returns 0 and afterwards every page of the range has the entry for the corresponding
  physical page with the permission bits given, every other address is mapped as before;
  or it returns -1, then no free page is left and an initial part of the range was mapped.
  The page-table tree stays well formed, pages only move from the free list into it, and
  memory outside both is not written.
\<close>

theorem mappages_maps_range:
  assumes "pt_inv s root ps" and "4096 dvd unat va" and "0 < n" and "unat va + 4096 * n \<le> 2 ^ 38"
    and "\<And>k. k < n \<Longrightarrow> vmap (mem s) root (va + PGSIZE * of_nat k) = None"
  shows "\<exists>r t ps'. mappages root va (PGSIZE * of_nat n) pa perm s = Ok r t \<and>
     (r = 0 \<and> remaps root s ps t ps' (\<lambda>f v.
        if unat va \<le> unat (PGROUNDDOWN v) \<and> unat (PGROUNDDOWN v) < unat va + 4096 * n
        then Some (PA2PTE (pa + (PGROUNDDOWN v - va)) OR perm OR PTE_V) else f v) \<or>
      r = - 1 \<and> (\<exists>k < n. remaps root s ps t [] (\<lambda>f v.
        if unat va \<le> unat (PGROUNDDOWN v) \<and> unat (PGROUNDDOWN v) < unat va + 4096 * k
        then Some (PA2PTE (pa + (PGROUNDDOWN v - va)) OR perm OR PTE_V) else f v)))"
proof -
  have eq: "map_range va pa perm k = (\<lambda>f v.
        if unat va \<le> unat (PGROUNDDOWN v) \<and> unat (PGROUNDDOWN v) < unat va + 4096 * k
        then Some (PA2PTE (pa + (PGROUNDDOWN v - va)) OR perm OR PTE_V) else f v)" if "k \<le> n" for k
    using assms(4) that by (intro ext map_range_apply [OF assms(2)]) simp
  obtain r t ps' where run: "mappages root va (PGSIZE * of_nat n) pa perm s = Ok r t"
    and res: "r = 0 \<and> remaps root s ps t ps' (map_range va pa perm n) \<or>
      r = - 1 \<and> (\<exists>k < n. remaps root s ps t [] (map_range va pa perm k))"
    using mappages_refines [OF assms(1-4), of pa perm] assms(5) by blast
  show ?thesis
  proof (intro exI conjI)
    show "mappages root va (PGSIZE * of_nat n) pa perm s = Ok r t" by (rule run)
  qed (use res eq [OF le_refl] eq [OF less_imp_le] in auto)
qed

theorem mappages_maps_range_witness:
  "\<exists>r t ps'. mappages 0x80032000 0 (PGSIZE * of_nat 1) 0x80050000 PTE_R vm_machine = Ok r t \<and>
     pt_inv t 0x80032000 ps'"
proof -
  have "4096 dvd unat (0 :: u64)" "0 < (1 :: nat)" "unat (0 :: u64) + 4096 * 1 \<le> 2 ^ 38" by simp_all
  from mappages_maps_range [OF vm_machine_inv this vm_machine_unmapped, of "0x80050000" PTE_R]
  show ?thesis using remaps_inv by blast
qed

subsection \<open>User memory through a page table\<close>

definition uaddr :: "memory \<Rightarrow> u64 \<Rightarrow> u64 \<Rightarrow> u64 option" where
  "uaddr m root va =
     (case vmap m root va of
        Some e \<Rightarrow> if bit e 4 then Some (PTE2PA e + (va - PGROUNDDOWN va)) else None
      | None \<Rightarrow> None)"

definition ubyte :: "memory \<Rightarrow> u64 \<Rightarrow> u64 \<Rightarrow> u8 option" where
  "ubyte m root va = map_option m (uaddr m root va)"

text \<open>User pages are no page-table pages, and distinct virtual pages have distinct frames.\<close>

definition user_sep :: "memory \<Rightarrow> u64 \<Rightarrow> bool" where
  "user_sep m root \<longleftrightarrow>
     (\<forall>v e. v < MAXVA \<longrightarrow> vmap m root v = Some e \<longrightarrow> bit e 4 \<longrightarrow>
        PTE2PA e \<notin> pt_pages m root \<and> PTE2PA e \<noteq> 0) \<and>
     (\<forall>v w e e'. v < MAXVA \<longrightarrow> w < MAXVA \<longrightarrow> vmap m root v = Some e \<longrightarrow> vmap m root w = Some e' \<longrightarrow>
        bit e 4 \<longrightarrow> bit e' 4 \<longrightarrow> PTE2PA e = PTE2PA e' \<longrightarrow> PGROUNDDOWN v = PGROUNDDOWN w)"

lemma user_sep_inj:
  "user_sep m root \<Longrightarrow> v < MAXVA \<Longrightarrow> w < MAXVA \<Longrightarrow> vmap m root v = Some e \<Longrightarrow> vmap m root w = Some e' \<Longrightarrow>
   bit e 4 \<Longrightarrow> bit e' 4 \<Longrightarrow> PTE2PA e = PTE2PA e' \<Longrightarrow> PGROUNDDOWN v = PGROUNDDOWN w"
  unfolding user_sep_def by blast

lemma load64_slot_cong:
  assumes "\<And>x. PGROUNDDOWN x = d \<Longrightarrow> m' x = m x" and "4096 dvd unat d" and "i < 512"
  shows "load64 m' (d + 8 * i) = load64 m (d + 8 * i)"
proof -
  have "PGROUNDDOWN (d + 8 * i + of_nat k) = d" if "k < 8" for k
  proof -
    have i: "unat (8 * i) = 8 * unat i" "unat i < 512"
      using assms(3) by (auto simp: unat_word_ariths word_less_nat_alt)
    have "unat (8 * i + of_nat k) = 8 * unat i + k"
      using i that by (subst unat_add_no_wrap) (simp_all add: unat_of_nat_small)
    then show ?thesis
      using i that by (intro page_of_offset [OF assms(2)]) (simp add: add.assoc)
  qed
  then have "read_bytes m' (d + 8 * i) 8 = read_bytes m (d + 8 * i) 8"
    using assms(1) by (intro read_bytes_eqI) blast
  then show ?thesis by (simp add: load64_def)
qed

lemma outside_pt:
  assumes wf: "pt_wf e m root" and same: "\<And>x. PGROUNDDOWN x \<in> pt_pages m root \<Longrightarrow> m' x = m x"
  shows "path_ok p \<Longrightarrow> pt_node m' root p = pt_node m root p"
    and "vmap m' root va = vmap m root va" and "pt_pages m' root = pt_pages m root"
proof -
  have ld: "load64 m' (d + 8 * i) = load64 m (d + 8 * i)"
    if "path_ok q" "pt_node m root q = Some d" "i < 512" for q d i
  proof (rule load64_slot_cong)
    show "m' x = m x" if "PGROUNDDOWN x = d" for x
      using same that \<open>path_ok q\<close> \<open>pt_node m root q = Some d\<close> by (auto simp: pt_pages_def)
  qed (use that pt_node_aligned [OF wf] in auto)
  show node: "pt_node m' root p = pt_node m root p" if "path_ok p" for p
    using that by (rule pt_node_cong) (auto intro: ld)
  show "vmap m' root va = vmap m root va"
    using node [OF path_ok_pt_path, of va] ld [OF path_ok_pt_path, of va _ "PX 0 va"]
    by (auto simp: vmap_def split: option.splits)
  show "pt_pages m' root = pt_pages m root" using node by (auto simp: pt_pages_def)
qed

lemma same_page_of_offset:
  assumes "unat (v - dst) < 4096 - unat (dst - PGROUNDDOWN dst)"
  shows "PGROUNDDOWN v = PGROUNDDOWN dst"
proof -
  have off: "unat (dst - PGROUNDDOWN dst) < 4096" by (simp add: unat_page_offset)
  have "unat ((dst - PGROUNDDOWN dst) + (v - dst)) = unat (dst - PGROUNDDOWN dst) + unat (v - dst)"
    using assms off by (intro unat_add_no_wrap) simp
  then have "unat (v - PGROUNDDOWN dst) < 4096" using assms by simp
  then show ?thesis by (intro page_of_offset) (simp_all add: unat_PGROUNDDOWN)
qed

text \<open>Writing inside one user page changes exactly the bytes written.\<close>

lemma chunk_write:
  assumes wf: "pt_wf k m root" and sep: "user_sep m root" and dst: "dst < MAXVA"
    and e: "vmap m root dst = Some e" "bit e 4"
    and n: "length bs \<le> 4096 - unat (dst - PGROUNDDOWN dst)"
    and m': "m' = write_bytes m (PTE2PA e + (dst - PGROUNDDOWN dst)) bs"
  shows "\<And>x. PGROUNDDOWN x \<noteq> PTE2PA e \<Longrightarrow> m' x = m x"
    and "v < MAXVA \<Longrightarrow> ubyte m' root v =
      (if unat (v - dst) < length bs then Some (bs ! unat (v - dst)) else ubyte m root v)"
proof -
  let ?off = "dst - PGROUNDDOWN dst" and ?p = "PTE2PA e"
  have off: "unat ?off < 4096" by (simp add: unat_page_offset)
  have far: "length bs \<le> unat (x - (?p + ?off))" if "PGROUNDDOWN x \<noteq> ?p" for x
  proof (rule ccontr)
    assume "\<not> ?thesis"
    then have lt: "unat (x - (?p + ?off)) < length bs" by simp
    have "unat (?off + (x - (?p + ?off))) = unat ?off + unat (x - (?p + ?off))"
      using lt off n by (intro unat_add_no_wrap) simp
    then have "unat (x - ?p) < 4096" using lt n by simp
    then have "PGROUNDDOWN x = ?p" by (intro page_of_offset PTE2PA_aligned)
    with that show False ..
  qed
  show frame: "m' x = m x" if "PGROUNDDOWN x \<noteq> ?p" for x
    using far [OF that] by (simp add: m' write_bytes_def)
  have notpt: "?p \<notin> pt_pages m root" using sep dst e by (auto simp: user_sep_def)
  have vm: "vmap m' root v = vmap m root v" for v
    by (rule outside_pt(2) [OF wf]) (use notpt in \<open>auto intro: frame\<close>)
  have ua: "uaddr m' root v = uaddr m root v" for v by (simp add: uaddr_def vm)
  show "ubyte m' root v =
      (if unat (v - dst) < length bs then Some (bs ! unat (v - dst)) else ubyte m root v)"
    if v: "v < MAXVA"
  proof (cases "PGROUNDDOWN v = PGROUNDDOWN dst")
    case True
    then have "vmap m root v = Some e" using e(1) vmap_page [OF True] by simp
    then have addr: "uaddr m root v = Some (?p + (v - PGROUNDDOWN dst))"
      using e(2) True by (simp add: uaddr_def)
    let ?x = "?p + (v - PGROUNDDOWN dst)"
    have off': "?x - (?p + ?off) = v - dst" by simp
    have "m' ?x = (if unat (?x - (?p + ?off)) < length bs then bs ! unat (?x - (?p + ?off)) else m ?x)"
      by (simp only: m' write_bytes_apply)
    then have mx: "m' ?x = (if unat (v - dst) < length bs then bs ! unat (v - dst) else m ?x)"
      by (simp only: off')
    have "ubyte m' root v = Some (m' ?x)" "ubyte m root v = Some (m ?x)"
      by (simp_all only: ubyte_def ua addr option.map)
    then show ?thesis unfolding mx by (cases "unat (v - dst) < length bs") (simp_all only: if_True if_False)
  next
    case False
    then have ge: "\<not> unat (v - dst) < length bs"
      using n same_page_of_offset [of v dst] by linarith
    have same: "m' x = m x" if "uaddr m root v = Some x" for x
    proof (rule frame)
      from that obtain e' where e': "vmap m root v = Some e'" "bit e' 4"
          "x = PTE2PA e' + (v - PGROUNDDOWN v)"
        by (auto simp: uaddr_def split: option.splits if_splits)
      have "PTE2PA e' \<noteq> ?p" using user_sep_inj [OF sep v dst e'(1) e(1) e'(2) e(2)] False by blast
      moreover have "PGROUNDDOWN x = PTE2PA e'"
        by (rule page_of_offset [OF PTE2PA_aligned]) (simp add: e'(3) unat_page_offset)
      ultimately show "PGROUNDDOWN x \<noteq> ?p" by simp
    qed
    have "ubyte m' root v = ubyte m root v"
    proof (cases "uaddr m root v")
      case None
      then show ?thesis using ua [of v] by (simp only: ubyte_def option.map)
    next
      case (Some x)
      then show ?thesis using ua [of v] same [OF Some] by (simp only: ubyte_def option.map)
    qed
    then show ?thesis using ge by (simp only: if_False)
  qed
qed

lemma walkaddr_user:
  assumes wf: "pt_wf k (mem s) root" and k: "0 < k" and sep: "user_sep (mem s) root"
    and va: "va < MAXVA" and e: "vmap (mem s) root va = Some e" "bit e 4"
  shows "walkaddr root (PGROUNDDOWN va) s = Ok (PTE2PA e) s" and "PTE2PA e \<noteq> 0"
proof -
  show nz: "PTE2PA e \<noteq> 0" using sep va e by (auto simp: user_sep_def)
  have page: "PGROUNDDOWN va < MAXVA" using va by (simp add: PGROUNDDOWN_less_MAXVA)
  have "PGROUNDDOWN (PGROUNDDOWN va) = PGROUNDDOWN va"
    by (rule PGROUNDDOWN_aligned) (simp add: unat_PGROUNDDOWN)
  then have "vmap (mem s) root (PGROUNDDOWN va) = Some e"
    using vmap_page [of "PGROUNDDOWN va" va] e(1) by simp
  moreover have "a + 8 * PX 0 (PGROUNDDOWN va) \<noteq> 0" if "a \<in> pt_pages (mem s) root" for a
    using that wf k by (intro slot_nonzero [of k]) (auto simp: pt_wf_def)
  ultimately show "walkaddr root (PGROUNDDOWN va) s = Ok (PTE2PA e) s"
    using walkaddr_eq [OF page, of s root] e(2) by simp
qed

lemma outside_pt_inv:
  assumes wf: "pt_wf k m root" and sep: "user_sep m root"
    and same: "\<And>x. PGROUNDDOWN x \<in> pt_pages m root \<Longrightarrow> m' x = m x"
  shows "pt_wf k m' root" and "user_sep m' root"
proof -
  have vm: "vmap m' root = vmap m root" using outside_pt(2) [OF wf same] by (rule ext)
  have pp: "pt_pages m' root = pt_pages m root" using outside_pt(3) [OF wf same] .
  have node: "pt_node m' root p = pt_node m root p" if "path_ok p" for p
    using outside_pt(1) [OF wf same that] .
  show "pt_wf k m' root" using wf unfolding pt_wf_def pp by (simp add: node)
  show "user_sep m' root" using sep unfolding user_sep_def vm pp .
qed

lemma next_chunk:
  assumes "n = 4096 - unat (dst - PGROUNDDOWN dst)"
  shows "PGROUNDDOWN dst + PGSIZE = dst + of_nat n"
proof -
  have "unat (dst - PGROUNDDOWN dst) \<le> 4096" by (simp add: unat_page_offset)
  then have "(of_nat n :: u64) = PGSIZE - (dst - PGROUNDDOWN dst)"
    unfolding assms by (simp add: of_nat_diff of_nat_unat PGSIZE_def)
  then show ?thesis by simp
qed

lemma ubyte_uaddr: "ubyte m root v \<noteq> None \<longleftrightarrow> uaddr m root v \<noteq> None"
  by (simp add: ubyte_def)

lemma uaddr_SomeE:
  assumes "uaddr m root v \<noteq> None"
  obtains e where "vmap m root v = Some e" "bit e 4" "uaddr m root v = Some (PTE2PA e + (v - PGROUNDDOWN v))"
  using assms by (auto simp: uaddr_def split: option.splits if_splits)

lemma copyout_spec:
  assumes "pt_wf k (mem s) root" and "0 < k" and "user_sep (mem s) root"
    and "unat dst + length src \<le> 2 ^ 38"
    and "\<And>i. i < length src \<Longrightarrow> uaddr (mem s) root (dst + of_nat i) \<noteq> None"
  shows "\<exists>m'. copyout root dst src s = Ok 0 (s\<lparr>mem := m'\<rparr>) \<and>
     (\<forall>x. PGROUNDDOWN x \<in> pt_pages (mem s) root \<longrightarrow> m' x = mem s x) \<and>
     (\<forall>v < MAXVA. ubyte m' root v =
        (if unat (v - dst) < length src then Some (src ! unat (v - dst)) else ubyte (mem s) root v))"
  using assms
proof (induction src arbitrary: s dst rule: length_induct)
  case (1 src s dst)
  note wf = 1(2) and k = 1(3) and sep = 1(4) and top = 1(5) and mapped = 1(6)
  show ?case
  proof (cases "src = []")
    case True
    then show ?thesis by (subst copyout.simps) (auto intro: exI [of _ "mem s"])
  next
    case False
    then have len: "0 < length src" by simp
    have "unat dst < 2 ^ 38" using len top by linarith
    then have dst: "dst < MAXVA" by (simp add: word_less_nat_alt unat_MAXVA)
    obtain e where e: "vmap (mem s) root dst = Some e" "bit e 4"
      using mapped [of 0] len uaddr_SomeE [of "mem s" root dst] by auto
    define n where "n = chunk dst (length src)"
    have n: "0 < n" "n \<le> length src" using len by (simp_all add: n_def chunk_bounds)
    define m1 where "m1 = write_bytes (mem s) (PTE2PA e + (dst - PGROUNDDOWN dst)) (take n src)"
    have lt: "length (take n src) \<le> 4096 - unat (dst - PGROUNDDOWN dst)" by (simp add: n_def chunk_def)
    note cw = chunk_write [OF wf sep dst e lt m1_def]
    have notpt: "PTE2PA e \<notin> pt_pages (mem s) root" using sep dst e by (auto simp: user_sep_def)
    have same: "m1 x = mem s x" if "PGROUNDDOWN x \<in> pt_pages (mem s) root" for x
      by (rule cw(1)) (use that notpt in auto)
    note wf1 = outside_pt_inv [OF wf sep same]
    have vm1: "vmap m1 root = vmap (mem s) root" using outside_pt(2) [OF wf same] by blast
    have pp1: "pt_pages m1 root = pt_pages (mem s) root" using outside_pt(3) [OF wf same] .
    have run: "copyout root dst src s
        = copyout root (PGROUNDDOWN dst + PGSIZE) (drop n src) (s\<lparr>mem := m1\<rparr>)"
      using len walkaddr_user [OF wf k sep dst e]
      by (subst copyout.simps) (simp add: exec n_def [symmetric] m1_def write_k_def)
    show ?thesis
    proof (cases "n = length src")
      case True
      then have "copyout root dst src s = Ok 0 (s\<lparr>mem := m1\<rparr>)"
        unfolding run by (subst copyout.simps) simp
      then show ?thesis using True same cw(2) by (intro exI [of _ m1]) auto
    next
      case False
      then have nn: "n = 4096 - unat (dst - PGROUNDDOWN dst)" using n by (simp add: n_def chunk_def)
      note nx = next_chunk [OF nn]
      have un: "unat (dst + of_nat n) = unat dst + n"
        using n top by (subst unat_add_no_wrap) (simp_all add: unat_of_nat_small)
      let ?s1 = "s\<lparr>mem := m1\<rparr>"
      have ld: "length (drop n src) < length src" using n by simp
      have map1: "uaddr (mem ?s1) root (dst + of_nat n + of_nat i) \<noteq> None" if "i < length (drop n src)" for i
        using mapped [of "n + i"] that vm1 by (simp add: uaddr_def add.assoc)
      have "unat (dst + of_nat n) + length (drop n src) \<le> 2 ^ 38" using un top n by simp
      from 1(1) [rule_format, OF ld _ k _ this map1] wf1
      have "\<exists>m'. copyout root (dst + of_nat n) (drop n src) ?s1 = Ok 0 (?s1\<lparr>mem := m'\<rparr>) \<and>
         (\<forall>x. PGROUNDDOWN x \<in> pt_pages (mem ?s1) root \<longrightarrow> m' x = mem ?s1 x) \<and>
         (\<forall>v < MAXVA. ubyte m' root v =
            (if unat (v - (dst + of_nat n)) < length (drop n src)
             then Some (drop n src ! unat (v - (dst + of_nat n))) else ubyte (mem ?s1) root v))"
        by simp
      then obtain m' where m': "copyout root (dst + of_nat n) (drop n src) (s\<lparr>mem := m1\<rparr>) = Ok 0 (s\<lparr>mem := m'\<rparr>)"
          "\<forall>x. PGROUNDDOWN x \<in> pt_pages m1 root \<longrightarrow> m' x = m1 x"
          "\<forall>v < MAXVA. ubyte m' root v =
            (if unat (v - (dst + of_nat n)) < length src - n
             then Some (src ! (n + unat (v - (dst + of_nat n)))) else ubyte m1 root v)"
        using n by auto
      have "ubyte m' root v = (if unat (v - dst) < length src then Some (src ! unat (v - dst)) else ubyte (mem s) root v)"
        if v: "v < MAXVA" for v
      proof -
        have uv: "unat v < 2 ^ 38" using v by (simp add: word_less_nat_alt unat_MAXVA)
        have d1: "unat (v - dst) = (if unat dst \<le> unat v then unat v - unat dst else unat v + 2 ^ 64 - unat dst)"
          by (simp add: unat_sub_if_size word_size)
        have d2: "unat (v - (dst + of_nat n)) =
            (if unat dst + n \<le> unat v then unat v - (unat dst + n) else unat v + 2 ^ 64 - (unat dst + n))"
          by (simp add: unat_sub_if_size word_size un del: unat_add_lem)
        show ?thesis
          using m'(3) [rule_format, OF v] cw(2) [OF v] n top uv unfolding d1 d2 by (auto split: if_splits)
      qed
      then show ?thesis using m'(1,2) same pp1 run nx by (intro exI [of _ m']) auto
    qed
  qed
qed

lemma ubyte_chunk:
  assumes "vmap m root va = Some e" and "bit e 4" and "i < 4096 - unat (va - PGROUNDDOWN va)"
  shows "ubyte m root (va + of_nat i) = Some (m (PTE2PA e + (va - PGROUNDDOWN va) + of_nat i))"
proof -
  have "unat (va + of_nat i - va) = i" using assms(3) by (simp add: unat_of_nat_small)
  then have page: "PGROUNDDOWN (va + of_nat i) = PGROUNDDOWN va"
    using assms(3) by (intro same_page_of_offset) simp
  then have "vmap m root (va + of_nat i) = Some e" using assms(1) vmap_page [OF page] by simp
  then show ?thesis
    using assms(2) by (simp add: ubyte_def uaddr_def page algebra_simps)
qed

lemma copyin_loop_spec:
  assumes wf: "pt_wf k (mem s) root" and k: "0 < k" and sep: "user_sep (mem s) root"
    and "unat src + len \<le> 2 ^ 38"
    and "\<And>i. i < len \<Longrightarrow> uaddr (mem s) root (src + of_nat i) \<noteq> None"
  shows "\<exists>bs. copyin_loop root src len acc s = Ok (0, acc @ bs) s \<and> length bs = len \<and>
           (\<forall>i < len. ubyte (mem s) root (src + of_nat i) = Some (bs ! i))"
  using assms(4,5)
proof (induction len arbitrary: src acc rule: less_induct)
  case (less len)
  show ?case
  proof (cases "len = 0")
    case True
    then show ?thesis by (subst copyin_loop.simps) simp
  next
    case False
    then have len: "0 < len" by simp
    have "unat src < 2 ^ 38" using len less.prems(1) by linarith
    then have src: "src < MAXVA" by (simp add: word_less_nat_alt unat_MAXVA)
    obtain e where e: "vmap (mem s) root src = Some e" "bit e 4"
      using less.prems(2) [of 0] len uaddr_SomeE [of "mem s" root src] by auto
    define n where "n = chunk src len"
    have n: "0 < n" "n \<le> len" "n \<le> 4096 - unat (src - PGROUNDDOWN src)"
      using len by (simp_all add: n_def chunk_bounds) (simp add: chunk_def)
    define b1 where "b1 = read_bytes (mem s) (PTE2PA e + (src - PGROUNDDOWN src)) n"
    have b1: "length b1 = n" "\<forall>i < n. ubyte (mem s) root (src + of_nat i) = Some (b1 ! i)"
      using ubyte_chunk [OF e] n(3) by (simp_all add: b1_def)
    have run: "copyin_loop root src len acc s = copyin_loop root (PGROUNDDOWN src + PGSIZE) (len - n) (acc @ b1) s"
      using len walkaddr_user [OF wf k sep src e]
      by (subst copyin_loop.simps) (simp add: exec n_def [symmetric] b1_def)
    show ?thesis
    proof (cases "n = len")
      case True
      then show ?thesis using b1 unfolding run by (subst copyin_loop.simps) (simp add: exI [of _ b1])
    next
      case False
      then have nn: "n = 4096 - unat (src - PGROUNDDOWN src)" using n by (simp add: n_def chunk_def)
      have un: "unat (src + of_nat n) = unat src + n"
        using n less.prems(1) by (subst unat_add_no_wrap) (simp_all add: unat_of_nat_small)
      have small: "len - n < len" using n by simp
      have top: "unat (src + of_nat n) + (len - n) \<le> 2 ^ 38" using un n less.prems(1) by simp
      have "uaddr (mem s) root (src + of_nat n + of_nat i) \<noteq> None" if "i < len - n" for i
        using less.prems(2) [of "n + i"] that by (simp add: add.assoc)
      from less.IH [OF small top this, of "acc @ b1"] obtain b2 where
        b2: "copyin_loop root (src + of_nat n) (len - n) (acc @ b1) s = Ok (0, (acc @ b1) @ b2) s"
          "length b2 = len - n" "\<forall>i < len - n. ubyte (mem s) root (src + of_nat n + of_nat i) = Some (b2 ! i)"
        by blast
      have "ubyte (mem s) root (src + of_nat i) = Some ((b1 @ b2) ! i)" if "i < len" for i
        using that b1 b2(3) [rule_format, of "i - n"] n
        by (cases "i < n") (simp_all add: nth_append add.assoc flip: of_nat_add)
      then show ?thesis
        using run b1(1) b2(1,2) n next_chunk [OF nn] by (intro exI [of _ "b1 @ b2"]) simp
    qed
  qed
qed

subsection \<open>Properties of the copy routines\<close>

text \<open>
  A page table that maps the single user page 0 to the frame \<open>0x80050000\<close>, used to evaluate
  the properties.
\<close>

definition um_mem :: memory where
  "um_mem = store64 (store64 (store64 (\<lambda>_. 0) 0x80032000 0x2000CC01) 0x80033000 0x2000D001)
              0x80034000 0x20014017"

definition um_machine :: kmem where
  "um_machine = boot_kmem\<lparr>mem := um_mem\<rparr>"

lemma um_mem_slots:
  assumes "4096 dvd unat a" and "i < 512"
  shows "load64 um_mem (a + 8 * i) =
    (if i = 0 \<and> a = 0x80034000 then 0x20014017 else if i = 0 \<and> a = 0x80033000 then 0x2000D001
     else if i = 0 \<and> a = 0x80032000 then 0x2000CC01 else 0)"
proof -
  have ne: "apart b 8 (a + 8 * i) 8" if "4096 dvd unat b" "a \<noteq> b \<or> i \<noteq> 0" for b
    using slot_apart [of b a 0 i] that assms by auto
  show ?thesis
    unfolding um_mem_def
    using ne [of "0x80034000"] ne [of "0x80033000"] ne [of "0x80032000"]
    by (auto simp: load_store64_apart)
qed

lemma um_mem_node:
  "path_ok p \<Longrightarrow> pt_node um_mem 0x80032000 p =
     (if p = [] then Some 0x80032000 else if p = [0] then Some 0x80033000
      else if p = [0, 0] then Some 0x80034000 else None)"
proof -
  assume "path_ok p"
  moreover have "PTE2PA 0x2000CC01 = 0x80033000" "PTE2PA 0x2000D001 = 0x80034000"
      "bit (0x2000CC01 :: u64) 0" "bit (0x2000D001 :: u64) 0"
    by (simp_all add: PTE2PA_def)
  ultimately show ?thesis
    using um_mem_slots [of "0x80032000"] um_mem_slots [of "0x80033000"] um_mem_slots [of "0x80033000" 0]
    by (cases rule: path_cases) (auto simp: Let_def)
qed

lemma um_pages: "pt_pages um_mem 0x80032000 = {0x80032000, 0x80033000, 0x80034000}"
proof -
  have "path_ok []" "path_ok [0]" "path_ok [0, 0]" by (simp_all add: path_ok_def)
  then show ?thesis
    using um_mem_node [of "[]"] um_mem_node [of "[0]"] um_mem_node [of "[0, 0]"] um_mem_node
    unfolding pt_pages_def
    by (auto simp del: pt_node.simps split: if_splits
        intro: exI [of _ "[]"] exI [of _ "[0]"] exI [of _ "[0, 0]"])
qed

lemma um_wf: "pt_wf 0x80030000 um_mem 0x80032000"
proof -
  have "page_ok 0x80030000 0x80032000" "page_ok 0x80030000 0x80033000" "page_ok 0x80030000 0x80034000"
    by (simp_all add: page_ok_def PHYSTOP_def KERNBASE_def)
  then show ?thesis
    unfolding pt_wf_def um_pages using um_mem_node by (auto split: if_splits)
qed

lemma um_vmap:
  "vmap um_mem 0x80032000 v = (if pt_path v = [0, 0] \<and> PX 0 v = 0 then Some 0x20014017 else None)"
proof -
  have "pt_node um_mem 0x80032000 (pt_path v) = (if pt_path v = [0, 0] then Some 0x80034000 else None)"
    using um_mem_node [OF path_ok_pt_path, of v] by (simp add: pt_path_def del: pt_node.simps)
  then show ?thesis
    using um_mem_slots [of "0x80034000" "PX 0 v"] um_mem_slots [of "0x80034000" 0]
    by (simp add: vmap_def)
qed

lemma um_vmap_page: "v < MAXVA \<Longrightarrow> vmap um_mem 0x80032000 v = (if PGROUNDDOWN v = 0 then Some 0x20014017 else None)"
proof -
  assume v: "v < MAXVA"
  have 0: "pt_path 0 = [0, 0]" "PX 0 0 = 0" "PGROUNDDOWN 0 = 0" "0 < MAXVA"
    by (simp_all add: pt_path_def PX_def PGROUNDDOWN_def MAXVA_def)
  show ?thesis using pt_path_page [OF v 0(4)] unfolding 0 um_vmap by simp
qed

lemma um_sep: "user_sep um_mem 0x80032000"
proof -
  have "PTE2PA 0x20014017 = 0x80050000" by (simp add: PTE2PA_def)
  then show ?thesis
    unfolding user_sep_def um_pages by (auto simp: um_vmap_page split: if_splits)
qed

lemma um_mapped: "i < 4096 \<Longrightarrow> uaddr (mem um_machine) 0x80032000 (of_nat i) \<noteq> None"
proof -
  assume i: "i < 4096"
  have u: "unat (of_nat i :: u64) = i" using i by (simp add: unat_of_nat_small)
  then have "PGROUNDDOWN (of_nat i) = 0" using i by (intro page_of_offset) simp_all
  moreover have "(of_nat i :: u64) < MAXVA" using u i by (simp add: word_less_nat_alt unat_MAXVA)
  ultimately have "vmap um_mem 0x80032000 (of_nat i) = Some 0x20014017" by (simp add: um_vmap_page)
  then show ?thesis by (simp add: uaddr_def um_machine_def)
qed

text \<open>
  Claim C12.  \<open>copyout\<close> to a user range that is mapped and user-accessible page by page returns
  0; afterwards user memory, read through the page table, holds the bytes copied in that
  range and is unchanged everywhere else.  The page table itself is not touched.
\<close>

theorem copyout_writes_user_memory:
  assumes "pt_wf k (mem s) root" and "0 < k" and "user_sep (mem s) root"
    and "unat dst + length src \<le> 2 ^ 38"
    and "\<And>i. i < length src \<Longrightarrow> uaddr (mem s) root (dst + of_nat i) \<noteq> None"
  shows "\<exists>m'. copyout root dst src s = Ok 0 (s\<lparr>mem := m'\<rparr>) \<and>
     (\<forall>x. PGROUNDDOWN x \<in> pt_pages (mem s) root \<longrightarrow> m' x = mem s x) \<and>
     (\<forall>v < MAXVA. ubyte m' root v =
        (if unat (v - dst) < length src then Some (src ! unat (v - dst)) else ubyte (mem s) root v))"
  using copyout_spec [OF assms] .

theorem copyout_writes_user_memory_witness:
  "\<exists>m'. copyout 0x80032000 16 [1, 2, 3] um_machine = Ok 0 (um_machine\<lparr>mem := m'\<rparr>) \<and>
     ubyte m' 0x80032000 17 = Some 2"
proof -
  have "\<exists>m'. copyout 0x80032000 16 [1, 2, 3] um_machine = Ok 0 (um_machine\<lparr>mem := m'\<rparr>) \<and>
     (\<forall>x. PGROUNDDOWN x \<in> pt_pages (mem um_machine) 0x80032000 \<longrightarrow> m' x = mem um_machine x) \<and>
     (\<forall>v < MAXVA. ubyte m' 0x80032000 v =
        (if unat (v - 16) < length [1, 2, 3 :: u8] then Some ([1, 2, 3] ! unat (v - 16))
         else ubyte (mem um_machine) 0x80032000 v))"
  proof (rule copyout_writes_user_memory [of "0x80030000"])
    show "uaddr (mem um_machine) 0x80032000 (16 + of_nat i) \<noteq> None" if "i < length [1, 2, 3 :: u8]" for i
      using um_mapped [of "16 + i"] that by simp
  qed (simp_all add: um_machine_def um_wf um_sep)
  then obtain m' where "copyout 0x80032000 16 [1, 2, 3] um_machine = Ok 0 (um_machine\<lparr>mem := m'\<rparr>)"
      and all: "\<forall>v < MAXVA. ubyte m' 0x80032000 v =
        (if unat (v - 16) < length [1, 2, 3 :: u8] then Some ([1, 2, 3] ! unat (v - 16))
         else ubyte (mem um_machine) 0x80032000 v)" by blast
  moreover have "(17 :: u64) < MAXVA" by (simp add: MAXVA_def)
  ultimately show ?thesis using all [rule_format, of 17] by auto
qed

text \<open>
  Claim C11.  What \<open>copyout\<close> wrote, \<open>copyin\<close> of the same range reads back: both return 0 and
  \<open>copyin\<close> delivers exactly the bytes written.
\<close>

theorem copyin_after_copyout:
  assumes "pt_wf k (mem s) root" and "0 < k" and "user_sep (mem s) root"
    and "unat va + length bs \<le> 2 ^ 38"
    and "\<And>i. i < length bs \<Longrightarrow> uaddr (mem s) root (va + of_nat i) \<noteq> None"
  shows "\<exists>t. copyout root va bs s = Ok 0 t \<and> copyin root va (of_nat (length bs)) t = Ok (0, bs) t"
proof -
  obtain m' where m': "copyout root va bs s = Ok 0 (s\<lparr>mem := m'\<rparr>)"
      "\<forall>x. PGROUNDDOWN x \<in> pt_pages (mem s) root \<longrightarrow> m' x = mem s x"
      "\<forall>v < MAXVA. ubyte m' root v =
        (if unat (v - va) < length bs then Some (bs ! unat (v - va)) else ubyte (mem s) root v)"
    using copyout_spec [OF assms] by blast
  have same: "m' x = mem s x" if "PGROUNDDOWN x \<in> pt_pages (mem s) root" for x
    using m'(2) that by blast
  let ?t = "s\<lparr>mem := m'\<rparr>"
  note inv = outside_pt_inv [OF assms(1,3) same]
  have ua: "uaddr m' root v = uaddr (mem s) root v" for v
    using outside_pt(2) [OF assms(1) same, of v] by (simp add: uaddr_def)
  have "\<exists>cs. copyin_loop root va (length bs) [] ?t = Ok (0, [] @ cs) ?t \<and> length cs = length bs \<and>
           (\<forall>i < length bs. ubyte (mem ?t) root (va + of_nat i) = Some (cs ! i))"
    using inv assms(2,4,5) ua by (intro copyin_loop_spec) simp_all
  then obtain cs where cs: "copyin_loop root va (length bs) [] ?t = Ok (0, cs) ?t" "length cs = length bs"
      "\<And>i. i < length bs \<Longrightarrow> ubyte m' root (va + of_nat i) = Some (cs ! i)" by auto
  have "cs ! i = bs ! i" if i: "i < length bs" for i
  proof -
    have ui: "unat (of_nat i :: u64) = i" using i assms(4) by (intro unat_of_nat_small) simp
    have "unat (va + of_nat i) = unat va + i"
      using ui i assms(4) by (subst unat_add_no_wrap) simp_all
    then have "va + of_nat i < MAXVA" using i assms(4) by (simp add: word_less_nat_alt unat_MAXVA)
    from m'(3) [rule_format, OF this] cs(3) [OF i] ui i show ?thesis by simp
  qed
  then have "cs = bs" using cs(2) by (intro nth_equalityI) simp_all
  moreover have "unat (of_nat (length bs) :: u64) = length bs" using assms(4) by (intro unat_of_nat_small) simp
  ultimately show ?thesis using m'(1) cs(1) by (simp add: copyin_def)
qed

theorem copyin_after_copyout_witness:
  "\<exists>t. copyout 0x80032000 16 [1, 2, 3] um_machine = Ok 0 t \<and> copyin 0x80032000 16 3 t = Ok (0, [1, 2, 3]) t"
proof -
  have "\<exists>t. copyout 0x80032000 16 [1, 2, 3] um_machine = Ok 0 t \<and>
     copyin 0x80032000 16 (of_nat (length [1, 2, 3 :: u8])) t = Ok (0, [1, 2, 3]) t"
  proof (rule copyin_after_copyout [of "0x80030000"])
    show "uaddr (mem um_machine) 0x80032000 (16 + of_nat i) \<noteq> None" if "i < length [1, 2, 3 :: u8]" for i
      using um_mapped [of "16 + i"] that by simp
  qed (simp_all add: um_machine_def um_wf um_sep)
  then show ?thesis by simp
qed

end
