(* ===== verification/Xv6_Proc.thy ===== *)
theory Xv6_Proc
  imports Xv6_VM Xv6_Printf
begin

text \<open>
  The process table and the schedulers, \<^verbatim>\<open>kernel/proc.c\<close> and \<^verbatim>\<open>kernel/proc.h\<close>.  (\<open>fork\<close>,
  \<open>exit\<close>, \<open>userinit\<close> and \<open>forkret\<close> also use the file system; they are in
  \<^theory_text>\<open>Xv6_Life\<close>.)

  A process is its index in the table.  Trap frames live in pages of their own, which the
  kernel only ever uses as \<^verbatim>\<open>struct trapframe\<close>; \<open>tfs\<close> gives their contents by page address.
  \<open>sym_trampoline\<close>
  and \<open>sym_forkret\<close> are addresses the linker assigns.

  \<open>swtch\<close> in \<open>sched\<close> ends a run of the kernel code with \<open>Waits Switched\<close>; the code after the
  call is the definition whose name ends in \<open>_resume\<close>.  A scheduler that switches to process
  \<open>i\<close> returns \<open>Runs i\<close>, and goes on with its own \<open>_resume\<close> when that process switches back.
  Dereferencing the null pointer \<open>myproc()\<close> faults, and \<open>kerneltrap\<close> panics.
\<close>

subsection \<open>kernel/proc.h\<close>

record kcontext =
  ctx_ra :: u64  ctx_sp :: u64
  ctx_s0 :: u64  ctx_s1 :: u64  ctx_s2 :: u64  ctx_s3 :: u64  ctx_s4 :: u64  ctx_s5 :: u64
  ctx_s6 :: u64  ctx_s7 :: u64  ctx_s8 :: u64  ctx_s9 :: u64  ctx_s10 :: u64  ctx_s11 :: u64

definition MAX_PRIO :: u32 where "MAX_PRIO = 1"
definition PROM_TIME :: int where "PROM_TIME = 5"

record trapframe =
  tf_kernel_satp :: u64  tf_kernel_sp :: u64  tf_kernel_trap :: u64
  tf_epc :: u64  tf_kernel_hartid :: u64
  tf_ra :: u64  tf_sp :: u64  tf_gp :: u64  tf_tp :: u64
  tf_t0 :: u64  tf_t1 :: u64  tf_t2 :: u64  tf_s0 :: u64  tf_s1 :: u64
  tf_a0 :: u64  tf_a1 :: u64  tf_a2 :: u64  tf_a3 :: u64
  tf_a4 :: u64  tf_a5 :: u64  tf_a6 :: u64  tf_a7 :: u64
  tf_s2 :: u64  tf_s3 :: u64  tf_s4 :: u64  tf_s5 :: u64  tf_s6 :: u64  tf_s7 :: u64
  tf_s8 :: u64  tf_s9 :: u64  tf_s10 :: u64  tf_s11 :: u64
  tf_t3 :: u64  tf_t4 :: u64  tf_t5 :: u64  tf_t6 :: u64

datatype procstate = UNUSED | USED | SLEEPING | RUNNABLE | RUNNING | ZOMBIE

record user_proc =
  up_state :: procstate
  up_killed :: int
  up_xstate :: int
  up_pid :: int
  up_parent_id :: int
  up_name :: "u8 list"

record proc =
  pstate :: procstate
  pchan :: "chan option"
  pkilled :: int
  xstate :: int
  pid :: int
  priority :: u32
  promotion_timer :: int
  parent :: "nat option"
  kstack :: u64
  psz :: u64
  pagetable :: u64
  ptrapframe :: u64
  pcontext :: kcontext
  ofile :: "nat \<Rightarrow> nat option"
  cwd :: "nat option"
  pname :: "u8 list"

text \<open>A scheduler function pointer; \<open>Wild\<close> was read outside the table of schedulers.\<close>

datatype sched_impl = RR | MLFQ | Wild

record procs = kvm +
  ptab :: "nat \<Rightarrow> proc"
  nextpid :: int
  initproc :: "nat option"
  sched_pointer :: sched_impl
  tfs :: "u64 \<Rightarrow> trapframe"
  ticks :: u32
  sym_trampoline :: u64
  sym_forkret :: u64

definition upd_proc :: "nat \<Rightarrow> (proc \<Rightarrow> proc) \<Rightarrow> ('a procs_scheme, unit) kfun" where
  "upd_proc i f = modify (\<lambda>s. s\<lparr>ptab := (ptab s)(i := f (ptab s i))\<rparr>)"

definition cur_proc :: "('a procs_scheme, nat) kfun" where
  "cur_proc = bnd myproc (\<lambda>p. case p of Some i \<Rightarrow> ret i | None \<Rightarrow> panic ''kerneltrap'')"

subsection \<open>The table\<close>

definition procinit :: "('a procs_scheme, unit) kfun" where
  "procinit =
     bnd (initlock L_pid ''nextpid'') (\<lambda>_.
     bnd (initlock L_wait ''wait_lock'') (\<lambda>_.
     for_each [0..<NPROC] (\<lambda>i.
       bnd (initlock (L_proc i) ''proc'') (\<lambda>_.
       upd_proc i (\<lambda>p. p\<lparr>pstate := UNUSED, kstack := KSTACK i\<rparr>)))))"

definition allocpid :: "('a procs_scheme, int) kfun" where
  "allocpid =
     locking L_pid
       (bnd (gets nextpid) (\<lambda>n.
        bnd (modify (\<lambda>s. s\<lparr>nextpid := nextpid s + 1\<rparr>)) (\<lambda>_.
        ret n)))"

definition proc_pagetable :: "nat \<Rightarrow> ('a procs_scheme, u64) kfun" where
  "proc_pagetable i =
     bnd uvmcreate (\<lambda>pt.
     if pt = 0 then ret 0
     else bnd (gets sym_trampoline) (\<lambda>tramp.
          bnd (mappages pt TRAMPOLINE PGSIZE tramp (PTE_R OR PTE_X)) (\<lambda>r.
          if r < 0 then bnd (uvmfree pt 0) (\<lambda>_. ret 0)
          else bnd (gets (\<lambda>s. ptrapframe (ptab s i))) (\<lambda>tf.
               bnd (mappages pt TRAPFRAME PGSIZE tf (PTE_R OR PTE_W)) (\<lambda>r.
               if r < 0
               then bnd (uvmunmap pt TRAMPOLINE 1 False) (\<lambda>_.
                    bnd (uvmfree pt 0) (\<lambda>_. ret 0))
               else ret pt)))))"

definition proc_freepagetable :: "u64 \<Rightarrow> u64 \<Rightarrow> ('a procs_scheme, unit) kfun" where
  "proc_freepagetable pt sz =
     bnd (uvmunmap pt TRAMPOLINE 1 False) (\<lambda>_.
     bnd (uvmunmap pt TRAPFRAME 1 False) (\<lambda>_.
     uvmfree pt sz))"

definition freeproc :: "nat \<Rightarrow> ('a procs_scheme, unit) kfun" where
  "freeproc i =
     bnd (gets (\<lambda>s. ptab s i)) (\<lambda>p.
     bnd (do_if (ptrapframe p \<noteq> 0) (kfree (ptrapframe p))) (\<lambda>_.
     bnd (upd_proc i (\<lambda>p. p\<lparr>ptrapframe := 0\<rparr>)) (\<lambda>_.
     bnd (do_if (pagetable p \<noteq> 0) (proc_freepagetable (pagetable p) (psz p))) (\<lambda>_.
     upd_proc i (\<lambda>p. p\<lparr>pagetable := 0, psz := 0, pid := 0, parent := None,
                         pname := (pname p)[0 := 0], pchan := None, pkilled := 0, xstate := 0,
                         pstate := UNUSED\<rparr>)))))"

definition zero_context :: kcontext where
  "zero_context = \<lparr>ctx_ra = 0, ctx_sp = 0, ctx_s0 = 0, ctx_s1 = 0, ctx_s2 = 0, ctx_s3 = 0,
     ctx_s4 = 0, ctx_s5 = 0, ctx_s6 = 0, ctx_s7 = 0, ctx_s8 = 0, ctx_s9 = 0, ctx_s10 = 0, ctx_s11 = 0\<rparr>"

definition allocproc_found :: "nat \<Rightarrow> ('a procs_scheme, nat option) kfun" where
  "allocproc_found i =
     bnd allocpid (\<lambda>n.
     bnd (upd_proc i (\<lambda>p. p\<lparr>pid := n, pstate := USED, priority := 0, promotion_timer := 0\<rparr>)) (\<lambda>_.
     bnd kalloc (\<lambda>tf.
     bnd (upd_proc i (\<lambda>p. p\<lparr>ptrapframe := tf\<rparr>)) (\<lambda>_.
     if tf = 0 then bnd (freeproc i) (\<lambda>_. bnd (release (L_proc i)) (\<lambda>_. ret None))
     else bnd (proc_pagetable i) (\<lambda>pt.
          bnd (upd_proc i (\<lambda>p. p\<lparr>pagetable := pt\<rparr>)) (\<lambda>_.
          if pt = 0 then bnd (freeproc i) (\<lambda>_. bnd (release (L_proc i)) (\<lambda>_. ret None))
          else bnd (gets sym_forkret) (\<lambda>fr.
               bnd (upd_proc i (\<lambda>p. p\<lparr>pcontext := zero_context\<lparr>ctx_ra := fr,
                                        ctx_sp := kstack p + PGSIZE\<rparr>\<rparr>)) (\<lambda>_.
               ret (Some i)))))))))"

definition allocproc :: "('a procs_scheme, nat option) kfun" where
  "allocproc =
     bnd (for_until [0..<NPROC] (\<lambda>i.
       bnd (acquire (L_proc i)) (\<lambda>_.
       bnd (gets (\<lambda>s. pstate (ptab s i) = UNUSED)) (\<lambda>unused.
       if unused then ret (Some i)
       else bnd (release (L_proc i)) (\<lambda>_. ret None))))) (\<lambda>r.
     case r of None \<Rightarrow> ret None | Some i \<Rightarrow> allocproc_found i)"

text \<open>\<open>sz + n\<close>: the \<^verbatim>\<open>int\<close> argument is sign-extended to 64 bits.\<close>

definition growproc :: "u32 \<Rightarrow> ('a procs_scheme, int) kfun" where
  "growproc n =
     bnd cur_proc (\<lambda>i.
     bnd (gets (\<lambda>s. ptab s i)) (\<lambda>p.
     if 0 <s n
     then bnd (uvmalloc (pagetable p) (psz p) (psz p + scast n) PTE_W) (\<lambda>sz.
          if sz = 0 then ret (- 1)
          else bnd (upd_proc i (\<lambda>p. p\<lparr>psz := sz\<rparr>)) (\<lambda>_. ret 0))
     else if n <s 0
     then bnd (uvmdealloc (pagetable p) (psz p) (psz p + scast n)) (\<lambda>sz.
          bnd (upd_proc i (\<lambda>p. p\<lparr>psz := sz\<rparr>)) (\<lambda>_. ret 0))
     else bnd (upd_proc i (\<lambda>p. p\<lparr>psz := psz p\<rparr>)) (\<lambda>_. ret 0)))"

subsection \<open>Listing processes: ps\<close>

definition copy_array :: "u8 list \<Rightarrow> u8 list \<Rightarrow> int \<Rightarrow> u8 list" where
  "copy_array src dst len = fold (\<lambda>i d. d[i := src ! i]) [0..<nat len] dst"

text \<open>The memory layout of \<^verbatim>\<open>struct user_proc\<close>: five 32-bit fields and 16 characters.\<close>

primrec procstate_code :: "procstate \<Rightarrow> u32" where
  "procstate_code UNUSED = 0"
| "procstate_code USED = 1"
| "procstate_code SLEEPING = 2"
| "procstate_code RUNNABLE = 3"
| "procstate_code RUNNING = 4"
| "procstate_code ZOMBIE = 5"

definition int_bytes :: "int \<Rightarrow> u8 list" where
  "int_bytes n = le_bytes 4 (word_of_int n :: u32)"

definition user_proc_bytes :: "user_proc \<Rightarrow> u8 list" where
  "user_proc_bytes u =
     le_bytes 4 (procstate_code (up_state u)) @ int_bytes (up_killed u) @ int_bytes (up_xstate u) @
     int_bytes (up_pid u) @ int_bytes (up_parent_id u) @ up_name u"

definition sizeof_user_proc :: nat where "sizeof_user_proc = 36"

text \<open>
  One round of the loop of \<open>ps\<close> for process \<open>i\<close>: it fills the entry \<open>u\<close> and reports whether
  the loop goes on.  \<open>u\<close> arrives with whatever was on the stack; a process without a parent
  leaves \<^verbatim>\<open>parent_id\<close> as it was.
\<close>

definition ps_entry :: "nat \<Rightarrow> user_proc \<Rightarrow> ('a procs_scheme, bool \<times> user_proc) kfun" where
  "ps_entry i u =
     bnd (acquire (L_proc i)) (\<lambda>_.
     bnd (gets (\<lambda>s. ptab s i)) (\<lambda>p.
     if pstate p = UNUSED
     then bnd (release (L_proc i)) (\<lambda>_. ret (False, u\<lparr>up_state := UNUSED\<rparr>))
     else bnd (gets (\<lambda>s. case parent p of Some q \<Rightarrow> pid (ptab s q) | None \<Rightarrow> up_parent_id u)) (\<lambda>par.
          bnd (release (L_proc i)) (\<lambda>_.
          ret (True, u\<lparr>up_state := pstate p, up_killed := pkilled p, up_xstate := xstate p,
                       up_pid := pid p, up_name := copy_array (pname p) (up_name u) 16,
                       up_parent_id := par\<rparr>)))))"

fun ps_loop :: "nat list \<Rightarrow> nat \<Rightarrow> nat \<Rightarrow> user_proc list \<Rightarrow> ('a procs_scheme, nat \<times> user_proc list) kfun" where
  "ps_loop [] lc count loc = ret (lc, loc)"
| "ps_loop (i # is) lc count loc =
     (if lc = count then ret (lc, loc)
      else bnd (ps_entry i (loc ! lc)) (\<lambda>(more, u).
           if more then ps_loop is (lc + 1) count (loc[lc := u])
           else ret (lc, loc[lc := u])))"

text \<open>
  \<^verbatim>\<open>proc + (start * sizeof(proc))\<close>: \<^verbatim>\<open>sizeof(proc)\<close> is the size in bytes of the whole table, and
  the sum is again scaled by the size of one process.  \<open>sizeof_proc\<close> is the size of one
  process in bytes; \<open>stack\<close> is what the uninitialised local array holds.
\<close>

definition ps :: "nat \<Rightarrow> user_proc list \<Rightarrow> u8 \<Rightarrow> u8 \<Rightarrow> ('a procs_scheme, u64) kfun" where
  "ps sizeof_proc stack start count =
     bnd cur_proc (\<lambda>me.
     bnd (gets (\<lambda>s. psz (ptab s me))) (\<lambda>result.
     if count = 0 then ret 0
     else bnd (growproc (of_nat (unat count * sizeof_user_proc))) (\<lambda>g.
       if g < 0 then ret 0
       else let first = unat start * (NPROC * sizeof_proc) in
         if NPROC \<le> first then ret 0
         else bnd (ps_loop [first..<NPROC] 0 (unat count) stack) (\<lambda>(lc, loc).
              let loc = (if lc < unat count then loc[lc := (loc ! lc)\<lparr>up_state := UNUSED\<rparr>] else loc) in
              bnd (gets (\<lambda>s. pagetable (ptab s me))) (\<lambda>pt.
              bnd (copyout pt result (concat (map user_proc_bytes loc))) (\<lambda>_.
              ret result))))))"

subsection \<open>Giving up the processor\<close>

definition sched_promote :: "proc \<Rightarrow> proc" where
  "sched_promote p =
     (if priority p > 0
      then let t = promotion_timer p - 1
           in p\<lparr>promotion_timer := t, priority := (if t = 0 then 0 else priority p)\<rparr>
      else p)"

definition sched :: "('a procs_scheme, unit) kfun" where
  "sched =
     bnd (for_each [0..<NPROC] (\<lambda>i. upd_proc i sched_promote)) (\<lambda>_.
     bnd cur_proc (\<lambda>p.
     bnd (holding (L_proc p)) (\<lambda>h.
     if \<not> h then panic ''sched p->lock''
     else bnd mycpu (\<lambda>c.
     bnd (gets (\<lambda>s. noff (cpus s c))) (\<lambda>n.
     if n \<noteq> 1 then panic ''sched locks''
     else bnd (gets (\<lambda>s. pstate (ptab s p))) (\<lambda>st.
     if st = RUNNING then panic ''sched running''
     else bnd intr_get (\<lambda>on.
     if on then panic ''sched interruptible''
     else (\<lambda>s. Waits Switched s))))))))"

definition sched_resume :: "bool \<Rightarrow> ('a procs_scheme, unit) kfun" where
  "sched_resume ie = bnd mycpu (\<lambda>c. upd_cpu c (\<lambda>r. r\<lparr>intena := ie\<rparr>))"

datatype yield_reason = YIELD_TIMER | YIELD_OTHER

definition yield_proc :: "yield_reason \<Rightarrow> proc \<Rightarrow> proc" where
  "yield_proc reason p =
     (let p = p\<lparr>pstate := RUNNABLE\<rparr> in
      if reason = YIELD_TIMER
      then p\<lparr>priority := (if priority p + 1 > MAX_PRIO then priority p else priority p + 1),
             promotion_timer := PROM_TIME\<rparr>
      else p)"

definition yield :: "yield_reason \<Rightarrow> ('a procs_scheme, unit) kfun" where
  "yield reason =
     bnd cur_proc (\<lambda>p.
     bnd (acquire (L_proc p)) (\<lambda>_.
     bnd (upd_proc p (yield_proc reason)) (\<lambda>_.
     sched)))"

definition yield_resume :: "nat \<Rightarrow> bool \<Rightarrow> ('a procs_scheme, unit) kfun" where
  "yield_resume p ie = bnd (sched_resume ie) (\<lambda>_. release (L_proc p))"

definition sleep :: "chan \<Rightarrow> lockid \<Rightarrow> ('a procs_scheme, unit) kfun" where
  "sleep ch lk =
     bnd cur_proc (\<lambda>p.
     bnd (acquire (L_proc p)) (\<lambda>_.
     bnd (release lk) (\<lambda>_.
     bnd (upd_proc p (\<lambda>r. r\<lparr>pchan := Some ch, pstate := SLEEPING\<rparr>)) (\<lambda>_.
     sched))))"

definition sleep_resume :: "nat \<Rightarrow> lockid \<Rightarrow> bool \<Rightarrow> ('a procs_scheme, unit) kfun" where
  "sleep_resume p lk ie =
     bnd (sched_resume ie) (\<lambda>_.
     bnd (upd_proc p (\<lambda>r. r\<lparr>pchan := None\<rparr>)) (\<lambda>_.
     bnd (release (L_proc p)) (\<lambda>_.
     acquire lk)))"

definition wakeup_proc :: "chan option \<Rightarrow> proc \<Rightarrow> proc" where
  "wakeup_proc ch p = (if pstate p = SLEEPING \<and> pchan p = ch then p\<lparr>pstate := RUNNABLE\<rparr> else p)"

definition wakeup :: "chan option \<Rightarrow> ('a procs_scheme, unit) kfun" where
  "wakeup ch =
     for_each [0..<NPROC] (\<lambda>i.
       bnd myproc (\<lambda>me.
       do_if (Some i \<noteq> me) (locking (L_proc i) (upd_proc i (wakeup_proc ch)))))"

subsection \<open>Killing\<close>

definition kill_proc :: "proc \<Rightarrow> proc" where
  "kill_proc p = p\<lparr>pkilled := 1, pstate := (if pstate p = SLEEPING then RUNNABLE else pstate p)\<rparr>"

definition kill :: "int \<Rightarrow> ('a procs_scheme, int) kfun" where
  "kill n =
     bnd (for_until [0..<NPROC] (\<lambda>i.
       locking (L_proc i)
         (bnd (gets (\<lambda>s. pid (ptab s i) = n)) (\<lambda>hit.
          if hit then bnd (upd_proc i kill_proc) (\<lambda>_. ret (Some 0)) else ret None)))) (\<lambda>r.
     case r of Some v \<Rightarrow> ret v | None \<Rightarrow> ret (- 1))"

definition setkilled :: "nat \<Rightarrow> ('a procs_scheme, unit) kfun" where
  "setkilled i = locking (L_proc i) (upd_proc i (\<lambda>p. p\<lparr>pkilled := 1\<rparr>))"

definition killed :: "nat \<Rightarrow> ('a procs_scheme, int) kfun" where
  "killed i = locking (L_proc i) (gets (\<lambda>s. pkilled (ptab s i)))"

subsection \<open>Parents and children\<close>

definition reparent :: "nat \<Rightarrow> ('a procs_scheme, unit) kfun" where
  "reparent p =
     for_each [0..<NPROC] (\<lambda>i.
       bnd (gets (\<lambda>s. parent (ptab s i) = Some p)) (\<lambda>child.
       do_if child
         (bnd (gets initproc) (\<lambda>ip.
          bnd (upd_proc i (\<lambda>r. r\<lparr>parent := ip\<rparr>)) (\<lambda>_.
          wakeup (map_option C_proc ip))))))"

text \<open>
  One scan of \<open>wait\<close> over the table.  \<open>Inr v\<close>: return \<open>v\<close>, both locks are released.
  \<open>Inl havekids\<close>: no exited child was found.
\<close>

fun wait_scan :: "nat list \<Rightarrow> nat \<Rightarrow> u64 \<Rightarrow> bool \<Rightarrow> ('a procs_scheme, bool + int) kfun" where
  "wait_scan [] p addr havekids = ret (Inl havekids)"
| "wait_scan (i # is) p addr havekids =
     bnd (gets (\<lambda>s. parent (ptab s i) = Some p)) (\<lambda>child.
     if \<not> child then wait_scan is p addr havekids
     else bnd (acquire (L_proc i)) (\<lambda>_.
          bnd (gets (\<lambda>s. ptab s i)) (\<lambda>pp.
          if pstate pp = ZOMBIE
          then bnd (gets (\<lambda>s. pagetable (ptab s p))) (\<lambda>pt.
               bnd (if addr \<noteq> 0 then copyout pt addr (int_bytes (xstate pp)) else ret 0) (\<lambda>r.
               if r < 0
               then bnd (release (L_proc i)) (\<lambda>_. bnd (release L_wait) (\<lambda>_. ret (Inr (- 1))))
               else bnd (freeproc i) (\<lambda>_.
                    bnd (release (L_proc i)) (\<lambda>_.
                    bnd (release L_wait) (\<lambda>_.
                    ret (Inr (pid pp)))))))
          else bnd (release (L_proc i)) (\<lambda>_. wait_scan is p addr True))))"

definition wait_loop :: "nat \<Rightarrow> u64 \<Rightarrow> ('a procs_scheme, int) kfun" where
  "wait_loop p addr =
     bnd (wait_scan [0..<NPROC] p addr False) (\<lambda>r.
     case r of
       Inr v \<Rightarrow> ret v
     | Inl havekids \<Rightarrow>
         bnd (if havekids then killed p else ret 1) (\<lambda>stop.
         if stop \<noteq> 0 then bnd (release L_wait) (\<lambda>_. ret (- 1))
         else bnd (sleep (C_proc p) L_wait) (\<lambda>_. ret 0)))"

definition wait :: "u64 \<Rightarrow> ('a procs_scheme, int) kfun" where
  "wait addr = bnd cur_proc (\<lambda>p. bnd (acquire L_wait) (\<lambda>_. wait_loop p addr))"

definition wait_resume :: "nat \<Rightarrow> u64 \<Rightarrow> bool \<Rightarrow> ('a procs_scheme, int) kfun" where
  "wait_resume p addr ie = bnd (sleep_resume p L_wait ie) (\<lambda>_. wait_loop p addr)"

subsection \<open>Schedulers\<close>

text \<open>
  Where a scheduler is when it has switched to a process: in the loop of \<open>rr_scheduler\<close>, or
  in the first or second loop of \<open>mlfq_scheduler\<close>, at process \<open>i\<close>.
\<close>

datatype sched_pc = At_rr nat | At_high nat | At_low nat
datatype sched_event = Runs sched_pc | Sched_done

definition set_cproc :: "nat option \<Rightarrow> ('a procs_scheme, unit) kfun" where
  "set_cproc p = bnd mycpu (\<lambda>c. upd_cpu c (\<lambda>r. r\<lparr>c_proc := p\<rparr>))"

text \<open>\<^verbatim>\<open>p->state = RUNNING; c->proc = p; swtch(&c->context, &p->context);\<close>\<close>

definition dispatch :: "nat \<Rightarrow> sched_pc \<Rightarrow> ('a procs_scheme, sched_event) kfun" where
  "dispatch i pc =
     bnd (upd_proc i (\<lambda>p. p\<lparr>pstate := RUNNING\<rparr>)) (\<lambda>_.
     bnd (set_cproc (Some i)) (\<lambda>_.
     ret (Runs pc)))"

fun rr_scan :: "nat list \<Rightarrow> ('a procs_scheme, sched_event) kfun" where
  "rr_scan [] = ret Sched_done"
| "rr_scan (i # is) =
     bnd (acquire (L_proc i)) (\<lambda>_.
     bnd (gets (\<lambda>s. pstate (ptab s i) = RUNNABLE)) (\<lambda>runnable.
     if runnable then dispatch i (At_rr i)
     else bnd (release (L_proc i)) (\<lambda>_. rr_scan is)))"

definition rr_scheduler :: "('a procs_scheme, sched_event) kfun" where
  "rr_scheduler =
     bnd (set_cproc None) (\<lambda>_.
     bnd intr_on (\<lambda>_.
     rr_scan [0..<NPROC]))"

definition rr_resume :: "nat \<Rightarrow> ('a procs_scheme, sched_event) kfun" where
  "rr_resume i =
     bnd (set_cproc None) (\<lambda>_.
     bnd (release (L_proc i)) (\<lambda>_.
     rr_scan [Suc i..<NPROC]))"

fun mlfq_low :: "nat list \<Rightarrow> ('a procs_scheme, sched_event) kfun" where
  "mlfq_low [] = ret Sched_done"
| "mlfq_low (i # is) =
     bnd (acquire (L_proc i)) (\<lambda>_.
     bnd (gets (\<lambda>s. ptab s i)) (\<lambda>p.
     if priority p = 0 \<and> pstate p = RUNNABLE
     then bnd (release (L_proc i)) (\<lambda>_. ret Sched_done)
     else if pstate p = RUNNABLE then dispatch i (At_low i)
     else bnd (release (L_proc i)) (\<lambda>_. mlfq_low is)))"

text \<open>
  The first loop of \<open>mlfq_scheduler\<close>; \<open>avail\<close> is \<^verbatim>\<open>high_avail\<close>.  At the end of the table it
  starts over if a process was run, and goes on to the low priorities otherwise.
\<close>

function mlfq_high :: "nat list \<Rightarrow> bool \<Rightarrow> ('a procs_scheme, sched_event) kfun" where
  "mlfq_high [] avail s = (if avail then mlfq_high [0..<NPROC] False s else mlfq_low [0..<NPROC] s)"
| "mlfq_high (i # is) avail s =
     bnd (acquire (L_proc i)) (\<lambda>_.
     bnd (gets (\<lambda>s. ptab s i)) (\<lambda>p.
     if priority p > 0 then bnd (release (L_proc i)) (\<lambda>_. mlfq_high is avail)
     else if pstate p = RUNNABLE then dispatch i (At_high i)
     else bnd (release (L_proc i)) (\<lambda>_. mlfq_high is avail))) s"
  by pat_completeness auto
termination
  by (relation "measures [\<lambda>(ps, avail, s). if avail then 1 else 0, \<lambda>(ps, avail, s). length ps]") auto

declare mlfq_high.simps [simp del]

definition mlfq_scheduler :: "('a procs_scheme, sched_event) kfun" where
  "mlfq_scheduler =
     bnd (set_cproc None) (\<lambda>_.
     bnd intr_on (\<lambda>_.
     mlfq_high [0..<NPROC] False))"

definition mlfq_resume :: "nat \<Rightarrow> ('a procs_scheme, sched_event) kfun \<Rightarrow> ('a procs_scheme, sched_event) kfun" where
  "mlfq_resume i continue =
     bnd (gets sched_pointer) (\<lambda>sp.
     if sp \<noteq> MLFQ then bnd (release (L_proc i)) (\<lambda>_. ret Sched_done)
     else bnd (set_cproc None) (\<lambda>_.
          bnd (release (L_proc i)) (\<lambda>_.
          continue)))"

text \<open>One call through the scheduler pointer, and what follows a switch back.\<close>

definition scheduler_call :: "('a procs_scheme, sched_event) kfun" where
  "scheduler_call =
     bnd (gets sched_pointer) (\<lambda>sp.
     case sp of RR \<Rightarrow> rr_scheduler | MLFQ \<Rightarrow> mlfq_scheduler | Wild \<Rightarrow> (\<lambda>s. Diverges))"

definition scheduler_resume :: "sched_pc \<Rightarrow> ('a procs_scheme, sched_event) kfun" where
  "scheduler_resume pc =
     (case pc of
        At_rr i \<Rightarrow> rr_resume i
      | At_high i \<Rightarrow> mlfq_resume i (mlfq_high [Suc i..<NPROC] True)
      | At_low i \<Rightarrow> mlfq_resume i (mlfq_low [Suc i..<NPROC]))"

subsection \<open>Choosing a scheduler\<close>

definition SCHEDC :: nat where "SCHEDC = 2"

definition available_schedulers :: "(string \<times> sched_impl \<times> int) list" where
  "available_schedulers = [(''Round Robin'', RR, 1), (''MLFQ Sched'', MLFQ, 2)]"

definition nl :: string where "nl = [CHR 0x0A]"
definition tab :: string where "tab = [CHR 0x09]"

definition schedls :: "('a procs_scheme, unit) kfun" where
  "schedls =
     bnd (printf (''[ ]'' @ tab @ ''Scheduler Name'' @ tab @ ''Scheduler ID'' @ nl) []) (\<lambda>_.
     bnd (printf (''===================================='' @ nl) []) (\<lambda>_.
     bnd (for_each [0..<SCHEDC] (\<lambda>i.
       case available_schedulers ! i of (nm, impl, sid) \<Rightarrow>
       bnd (gets sched_pointer) (\<lambda>sp.
       bnd (if impl = sp then printf (''[*]'' @ tab) [] else printf (''   '' @ tab) []) (\<lambda>_.
       printf (''%s'' @ tab @ ''%d'' @ nl) [A_str (Some nm), A_int (word_of_int sid)])))) (\<lambda>_.
     printf (nl @ ''*: current scheduler'' @ nl @ nl) [])))"

text \<open>
  \<open>schedset\<close> indexes the table with \<open>sid - 1\<close> without a check; \<open>beyond\<close> is what memory holds
  at that distance from the table.
\<close>

definition schedset :: "(int \<Rightarrow> string \<times> sched_impl) \<Rightarrow> int \<Rightarrow> ('a procs_scheme, unit) kfun" where
  "schedset beyond sid =
     (let (nm, impl) =
        (if 0 \<le> sid - 1 \<and> sid - 1 < int SCHEDC
         then (fst (available_schedulers ! nat (sid - 1)), fst (snd (available_schedulers ! nat (sid - 1))))
         else beyond (sid - 1)) in
      bnd (modify (\<lambda>s. s\<lparr>sched_pointer := impl\<rparr>)) (\<lambda>_.
      printf (''Scheduler successfully changed to %s'' @ nl) [A_str (Some nm)]))"

subsection \<open>Copying to and from either address space\<close>

text \<open>
  The kernel side of these copies is a kernel buffer.  \<open>Local\<close> stands for a variable of the
  caller, which receives (or provides) the bytes by value; \<open>Kern a\<close> is a page of memory.
\<close>

datatype copydst = User u64 | Kern u64 | Local

datatype copysrc = SUser u64 | SKern u64 | SLocal "u8 list"

definition either_copyout :: "copydst \<Rightarrow> u8 list \<Rightarrow> ('a procs_scheme, int) kfun" where
  "either_copyout dst src =
     bnd myproc (\<lambda>p.
     case dst of
       User a \<Rightarrow> (case p of Some i \<Rightarrow> bnd (gets (\<lambda>s. pagetable (ptab s i))) (\<lambda>pt. copyout pt a src)
                          | None \<Rightarrow> panic ''kerneltrap'')
     | Kern a \<Rightarrow> bnd (write_k a src) (\<lambda>_. ret 0)
     | Local \<Rightarrow> ret 0)"

definition either_copyin :: "copysrc \<Rightarrow> nat \<Rightarrow> ('a procs_scheme, int \<times> u8 list) kfun" where
  "either_copyin src len =
     bnd myproc (\<lambda>p.
     case src of
       SUser a \<Rightarrow> (case p of Some i \<Rightarrow> bnd (gets (\<lambda>s. pagetable (ptab s i))) (\<lambda>pt. copyin pt a (of_nat len))
                           | None \<Rightarrow> panic ''kerneltrap'')
     | SKern a \<Rightarrow> gets (\<lambda>s. (0, read_bytes (mem s) a len))
     | SLocal bs \<Rightarrow> ret (0, take len bs))"

definition dst_plus :: "copydst \<Rightarrow> nat \<Rightarrow> copydst" where
  "dst_plus d n = (case d of User a \<Rightarrow> User (a + of_nat n) | Kern a \<Rightarrow> Kern (a + of_nat n) | Local \<Rightarrow> Local)"

definition src_plus :: "copysrc \<Rightarrow> nat \<Rightarrow> copysrc" where
  "src_plus d n = (case d of SUser a \<Rightarrow> SUser (a + of_nat n) | SKern a \<Rightarrow> SKern (a + of_nat n)
                   | SLocal bs \<Rightarrow> SLocal (drop n bs))"

definition string_of_bytes :: "u8 list \<Rightarrow> string" where
  "string_of_bytes bs = map (\<lambda>b. char_of (unat b)) (cstring bs)"

definition procdump :: "('a procs_scheme, unit) kfun" where
  "procdump =
     bnd (printf nl []) (\<lambda>_.
     for_each [0..<NPROC] (\<lambda>i.
       bnd (gets (\<lambda>s. ptab s i)) (\<lambda>p.
       do_if (pstate p \<noteq> UNUSED)
         (let state = (case pstate p of UNUSED \<Rightarrow> ''unused'' | USED \<Rightarrow> ''used'' | SLEEPING \<Rightarrow> ''sleep ''
                       | RUNNABLE \<Rightarrow> ''runble'' | RUNNING \<Rightarrow> ''run   '' | ZOMBIE \<Rightarrow> ''zombie'') in
          bnd (printf ''%d <%s %s'' [A_int (word_of_int (pid p)), A_str (Some state),
                 A_str (Some (string_of_bytes (pname p)))]) (\<lambda>_.
          printf nl [])))))"

subsection \<open>Invariants kept by the process layer\<close>

lemma keeps_upd_proc: "(\<And>s f. I s \<Longrightarrow> I (s\<lparr>ptab := f\<rparr>)) \<Longrightarrow> keeps I (upd_proc i g)"
  by (simp add: upd_proc_def keeps_modify)

lemma keeps_wakeup:
  assumes "\<And>s f. I s \<Longrightarrow> I (s\<lparr>cpus := f\<rparr>)" and "\<And>s f. I s \<Longrightarrow> I (s\<lparr>locks := f\<rparr>)"
    and "\<And>s f. I s \<Longrightarrow> I (s\<lparr>sstatus := f\<rparr>)" and "\<And>s f. I s \<Longrightarrow> I (s\<lparr>ptab := f\<rparr>)"
  shows "keeps I (wakeup ch)"
  unfolding wakeup_def
  by (intro keeps_for_each keeps_bnd keeps_do_if keeps_locking keeps_upd_proc keeps_machine assms)

subsection \<open>Critical sections over the process table\<close>

lemma machine_of_ptab [simp]:
  "(take_lock l s)\<lparr>ptab := f\<rparr> = take_lock l (s\<lparr>ptab := f\<rparr>)"
  "cpus (take_lock l (s\<lparr>ptab := f\<rparr>)) = cpus (take_lock l s)"
  "lock_free l (s\<lparr>ptab := f\<rparr>) = lock_free l s"
  "cpu_ok (s\<lparr>ptab := f\<rparr>) = cpu_ok s"
  "sie_on (s\<lparr>ptab := f\<rparr>) = sie_on s"
  by (simp_all add: take_lock_def off_state_def lock_free_def cpu_ok_def sie_on_def)

lemma ptab_take_lock [simp]: "ptab (take_lock l s) = ptab s"
  by (simp add: take_lock_def off_state_def)

lemma locking_upd_proc [exec]:
  assumes "lock_free l s" and "cpu_ok s"
  shows "locking l (upd_proc i g) s = Ok () (s\<lparr>ptab := (ptab s)(i := g (ptab s i))\<rparr>)"
  unfolding upd_proc_def using assms by (intro locking_modify) simp_all

text \<open>
  A loop over the first \<open>n\<close> processes that changes process \<open>i\<close> in round \<open>i\<close>, in states with a
  property \<open>J\<close> that does not depend on the table, maps its effect over the table.
\<close>

lemma for_each_ptab:
  assumes step: "\<And>i s. i < n \<Longrightarrow> J s \<Longrightarrow> f i s = Ok () (s\<lparr>ptab := (ptab s)(i := h i (ptab s i))\<rparr>)"
    and frame: "\<And>s g. J s \<Longrightarrow> J (s\<lparr>ptab := g\<rparr>)" and start: "J s"
  shows "for_each [0..<n] f s = Ok () (s\<lparr>ptab := (\<lambda>i. if i < n then h i (ptab s i) else ptab s i)\<rparr>)"
  using step
proof (induction n)
  case 0
  then show ?case by (cases s) simp
next
  case (Suc n)
  let ?t = "s\<lparr>ptab := (\<lambda>i. if i < n then h i (ptab s i) else ptab s i)\<rparr>"
  have "for_each [0..<n] f s = Ok () ?t" using Suc by simp
  moreover have "f n ?t = Ok () (?t\<lparr>ptab := (ptab ?t)(n := h n (ptab ?t n))\<rparr>)"
    by (rule Suc.prems [OF _ frame [OF start]]) simp
  moreover have "(ptab ?t)(n := h n (ptab ?t n)) = (\<lambda>i. if i < Suc n then h i (ptab s i) else ptab s i)"
    by (auto simp: fun_eq_iff less_Suc_eq)
  ultimately show ?case by (simp add: for_each_append exec)
qed

text \<open>The locks of all processes but \<open>me\<close> are free, and the hart's bookkeeping is consistent.\<close>

definition others_unlocked :: "nat option \<Rightarrow> 'a procs_scheme \<Rightarrow> bool" where
  "others_unlocked me s \<longleftrightarrow> cpu_ok s \<and> c_proc (cpus s (hart s)) = me \<and>
     (\<forall>i<NPROC. Some i \<noteq> me \<longrightarrow> lock_free (L_proc i) s)"

lemma wakeup_eq:
  assumes "others_unlocked me s"
  shows "wakeup ch s = Ok () (s\<lparr>ptab := (\<lambda>i. if i < NPROC then (if Some i \<noteq> me then wakeup_proc ch (ptab s i)
                                                  else ptab s i) else ptab s i)\<rparr>)"
  unfolding wakeup_def
proof (rule for_each_ptab [where J = "others_unlocked me"])
  show "others_unlocked me s" by (rule assms)
  show "others_unlocked me (s\<lparr>ptab := g\<rparr>)" if "others_unlocked me s" for s :: "'a procs_scheme" and g
    using that by (simp add: others_unlocked_def)
  show "bnd myproc (\<lambda>me. do_if (Some i \<noteq> me) (locking (L_proc i) (upd_proc i (wakeup_proc ch)))) s
      = Ok () (s\<lparr>ptab := (ptab s)(i := if Some i \<noteq> me then wakeup_proc ch (ptab s i) else ptab s i)\<rparr>)"
    if "i < NPROC" and "others_unlocked me s" for i and s :: "'a procs_scheme"
    using that by (auto simp: others_unlocked_def exec)
qed

subsection \<open>A concrete machine for the examples\<close>

definition idle_proc :: proc where
  "idle_proc = \<lparr>pstate = UNUSED, pchan = None, pkilled = 0, xstate = 0, pid = 0, priority = 0,
     promotion_timer = 0, parent = None, kstack = 0, psz = 0, pagetable = 0, ptrapframe = 0,
     pcontext = zero_context, ofile = (\<lambda>_. None), cwd = None, pname = replicate 16 0\<rparr>"

definition zero_tf :: trapframe where
  "zero_tf = \<lparr>tf_kernel_satp = 0, tf_kernel_sp = 0, tf_kernel_trap = 0, tf_epc = 0, tf_kernel_hartid = 0,
     tf_ra = 0, tf_sp = 0, tf_gp = 0, tf_tp = 0, tf_t0 = 0, tf_t1 = 0, tf_t2 = 0, tf_s0 = 0, tf_s1 = 0,
     tf_a0 = 0, tf_a1 = 0, tf_a2 = 0, tf_a3 = 0, tf_a4 = 0, tf_a5 = 0, tf_a6 = 0, tf_a7 = 0,
     tf_s2 = 0, tf_s3 = 0, tf_s4 = 0, tf_s5 = 0, tf_s6 = 0, tf_s7 = 0, tf_s8 = 0, tf_s9 = 0,
     tf_s10 = 0, tf_s11 = 0, tf_t3 = 0, tf_t4 = 0, tf_t5 = 0, tf_t6 = 0\<rparr>"

text \<open>Hart 0 runs process 0 with interrupts off; all locks are free.\<close>

definition boot_procs :: "'a \<Rightarrow> 'a procs_scheme" where
  "boot_procs m = \<lparr>hart = 0, cpus = (\<lambda>_. \<lparr>c_proc = Some 0, noff = 0, intena = False\<rparr>),
     sstatus = (\<lambda>_. 0), locks = (\<lambda>_. \<lparr>locked = 0, lkname = [], lcpu = None\<rparr>),
     mmio_log = [], mmio_in = (\<lambda>lg a. 0x20), panicked = False, pr_locking = False,
     mem = (\<lambda>_. 0), freelist = 0, kend = 0x80030000, kernel_pagetable = 0, satp = (\<lambda>_. 0),
     ptab = (\<lambda>_. idle_proc), nextpid = 1, initproc = Some 1, sched_pointer = RR, tfs = (\<lambda>_. zero_tf),
     ticks = 0, sym_trampoline = 0, sym_forkret = 0, \<dots> = m\<rparr>"

lemma boot_procs_ok [simp]:
  "cpu_ok (boot_procs m)" "lock_free l (boot_procs m)" "hart (boot_procs m) = 0"
  "c_proc (cpus (boot_procs m) h) = Some 0" "ptab (boot_procs m) i = idle_proc"
  "sie_on (boot_procs m) = False"
  by (simp_all add: boot_procs_def cpu_ok_def lock_free_def sie_on_def)

lemma boot_procs_unlocked [simp]: "others_unlocked (Some 0) ((boot_procs m)\<lparr>ptab := f\<rparr>)"
  by (simp add: others_unlocked_def boot_procs_def cpu_ok_def lock_free_def sie_on_def)

subsection \<open>Waking and killing\<close>

text \<open>
  Claim C20.  \<open>wakeup\<close> makes exactly the processes runnable that sleep on the channel and are not
  the caller, and changes nothing else: no other field of a process, and nothing outside the
  table.
\<close>

theorem wakeup_exact:
  assumes "others_unlocked me s"
  shows "\<exists>t. wakeup ch s = Ok () t \<and>
    (\<forall>i. pstate (ptab t i) = (if i < NPROC \<and> Some i \<noteq> me \<and> pstate (ptab s i) = SLEEPING \<and> pchan (ptab s i) = ch
                              then RUNNABLE else pstate (ptab s i)) \<and>
         (ptab t i)\<lparr>pstate := UNUSED\<rparr> = (ptab s i)\<lparr>pstate := UNUSED\<rparr>) \<and>
    t\<lparr>ptab := ptab s\<rparr> = s"
  by (simp add: wakeup_eq [OF assms] wakeup_proc_def)

theorem wakeup_exact_witness:
  "\<exists>t :: procs. wakeup (Some C_ticks) ((boot_procs ())\<lparr>ptab := (\<lambda>_. idle_proc)(
       3 := idle_proc\<lparr>pstate := SLEEPING, pchan := Some C_ticks\<rparr>)\<rparr>) = Ok () t \<and> pstate (ptab t 3) = RUNNABLE"
  using wakeup_exact [of "Some 0" "(boot_procs ())\<lparr>ptab := (\<lambda>_. idle_proc)(
       3 := idle_proc\<lparr>pstate := SLEEPING, pchan := Some C_ticks\<rparr>)\<rparr> :: procs" "Some C_ticks"]
  by (auto simp: NPROC_def)

lemma kill_round:
  assumes "lock_free (L_proc i) s" and "cpu_ok s"
  shows "locking (L_proc i)
      (bnd (gets (\<lambda>s. pid (ptab s i) = n)) (\<lambda>hit.
       if hit then bnd (upd_proc i kill_proc) (\<lambda>_. ret (Some 0)) else ret None)) s =
    (if pid (ptab s i) = n then Ok (Some 0) (s\<lparr>ptab := (ptab s)(i := kill_proc (ptab s i))\<rparr>)
     else Ok None s)"
proof (cases "pid (ptab s i) = n")
  case True
  then show ?thesis using assms by simp (rule locking_Ok, simp_all add: exec upd_proc_def)
next
  case False
  then show ?thesis using assms by simp (rule locking_Ok, simp_all add: exec)
qed

definition all_unlocked :: "'a procs_scheme \<Rightarrow> bool" where
  "all_unlocked s \<longleftrightarrow> cpu_ok s \<and> (\<forall>i<NPROC. lock_free (L_proc i) s)"

lemma kill_eq:
  assumes "all_unlocked s"
  shows "kill n s = (case List.find (\<lambda>i. pid (ptab s i) = n) [0..<NPROC] of
      Some i \<Rightarrow> Ok 0 (s\<lparr>ptab := (ptab s)(i := kill_proc (ptab s i))\<rparr>)
    | None \<Rightarrow> Ok (- 1) s)"
proof -
  have "for_until [0..<NPROC] (\<lambda>i. locking (L_proc i)
      (bnd (gets (\<lambda>s. pid (ptab s i) = n)) (\<lambda>hit.
       if hit then bnd (upd_proc i kill_proc) (\<lambda>_. ret (Some (0::int))) else ret None))) s =
    (case List.find (\<lambda>i. pid (ptab s i) = n) [0..<NPROC] of
      Some i \<Rightarrow> Ok (Some 0) (s\<lparr>ptab := (ptab s)(i := kill_proc (ptab s i))\<rparr>) | None \<Rightarrow> Ok None s)"
    using assms by (intro for_until_find kill_round) (simp_all add: all_unlocked_def)
  then show ?thesis by (simp add: kill_def exec split: option.split)
qed

text \<open>
  Claim C21.  \<open>kill\<close> marks the first process with the given id as killed and wakes it if it sleeps;
  it changes nothing else and returns 0.  If no process has the id it returns -1 and changes
  nothing.
\<close>

theorem kill_marks_process:
  assumes "all_unlocked s"
  shows "if \<exists>i<NPROC. pid (ptab s i) = n
    then \<exists>i<NPROC. pid (ptab s i) = n \<and> (\<forall>j<i. pid (ptab s j) \<noteq> n) \<and>
      kill n s = Ok 0 (s\<lparr>ptab := (ptab s)(i := (ptab s i)\<lparr>pkilled := 1,
        pstate := (if pstate (ptab s i) = SLEEPING then RUNNABLE else pstate (ptab s i))\<rparr>)\<rparr>)
    else kill n s = Ok (- 1) s"
proof (cases "List.find (\<lambda>i. pid (ptab s i) = n) [0..<NPROC]")
  case None
  then have "\<forall>i<NPROC. pid (ptab s i) \<noteq> n" by (simp add: find_upt_eq_None)
  then show ?thesis unfolding kill_eq [OF assms] None by simp
next
  case (Some i)
  then have "i < NPROC \<and> pid (ptab s i) = n \<and> (\<forall>j<i. pid (ptab s j) \<noteq> n)"
    by (simp add: find_upt_eq_Some)
  then show ?thesis unfolding kill_eq [OF assms] Some by (auto simp: kill_proc_def)
qed

theorem kill_marks_process_witness:
  "\<exists>t :: procs. kill 7 ((boot_procs ())\<lparr>ptab := (\<lambda>_. idle_proc)(3 := idle_proc\<lparr>pid := 7, pstate := SLEEPING\<rparr>)\<rparr>) = Ok 0 t
     \<and> pkilled (ptab t 3) = 1 \<and> pstate (ptab t 3) = RUNNABLE"
proof -
  let ?s = "(boot_procs ())\<lparr>ptab := (\<lambda>_. idle_proc)(3 := idle_proc\<lparr>pid := 7, pstate := SLEEPING\<rparr>)\<rparr> :: procs"
  have "all_unlocked ?s" by (simp add: all_unlocked_def)
  moreover have "pid (ptab ?s i) = 7 \<longleftrightarrow> i = 3" for i by (simp add: idle_proc_def)
  ultimately show ?thesis using kill_marks_process [of ?s 7] by (auto simp: NPROC_def)
qed

subsection \<open>What the schedulers choose\<close>






text \<open>
  The scheduler of a hart between two processes: no lock is held by it, and interrupts were
  on when it last took one.
\<close>

definition sched_idle :: "'a procs_scheme \<Rightarrow> bool" where
  "sched_idle s \<longleftrightarrow> noff (cpus s (hart s)) = 0 \<and> intena (cpus s (hart s)) \<and>
     (\<forall>i<NPROC. lock_free (L_proc i) s)"














text \<open>The machine above, with interrupts on and no process running: a hart in its scheduler.\<close>

definition sched_procs :: "(nat \<Rightarrow> proc) \<Rightarrow> procs" where
  "sched_procs f = (boot_procs ())\<lparr>ptab := f, sstatus := (\<lambda>_. SSTATUS_SIE),
     cpus := (\<lambda>_. \<lparr>c_proc = None, noff = 0, intena = True\<rparr>)\<rparr>"

lemma sched_procs_ok [simp]:
  "sched_idle (sched_procs f)" "all_unlocked (sched_procs f)" "ptab (sched_procs f) = f"
  by (simp_all add: sched_procs_def sched_idle_def all_unlocked_def boot_procs_def lock_free_def cpu_ok_def
      sie_on_def SSTATUS_SIE_def)




subsection \<open>Demoted processes are promoted again\<close>











end
