(* ===== verification/Xv6_Console.thy ===== *)
theory Xv6_Console
  imports Xv6_Proc
begin

text \<open>
  Console input and output: \<^verbatim>\<open>kernel/console.c\<close> and the interrupt-driven part of
  \<^verbatim>\<open>kernel/uart.c\<close>.  Both buffers are rings addressed by counters that only grow and wrap
  (64-bit for the transmit ring, 32-bit for the input ring) and are reduced modulo the ring
  size on access.
\<close>

subsection \<open>State\<close>

definition UART_TX_BUF_SIZE :: u64 where "UART_TX_BUF_SIZE = 32"
definition INPUT_BUF_SIZE :: u32 where "INPUT_BUF_SIZE = 128"

definition CONSOLE :: int where "CONSOLE = 1"

record consol = procs +
  uart_tx_buf :: "u64 \<Rightarrow> u8"
  uart_tx_w :: u64
  uart_tx_r :: u64
  cons_buf :: "u32 \<Rightarrow> u8"
  cons_r :: u32
  cons_w :: u32
  cons_e :: u32
  devsw_read :: "int \<Rightarrow> bool"
  devsw_write :: "int \<Rightarrow> bool"

subsection \<open>Transmitting\<close>

text \<open>
  The loop of \<open>uartstart\<close> ends because it moves \<open>uart_tx_r\<close> towards \<open>uart_tx_w\<close>; what it calls
  leaves both alone.
\<close>

lemma keeps_consol_more:
  "keeps (\<lambda>s. procs.more s = r) (wakeup ch)"
  "keeps (\<lambda>s. procs.more s = r) (ReadReg reg)"
  "keeps (\<lambda>s. procs.more s = r) (WriteReg reg v)"
  by (intro keeps_wakeup, simp_all add: ReadReg_def WriteReg_def mmio_read_def mmio_write_def
      keeps_bnd keeps_gets keeps_modify keeps_ret)

lemma ring_step: "w \<noteq> r \<Longrightarrow> unat (w - (r + 1)) < unat (w - r)" for w r :: "'a::len word"
proof -
  assume "w \<noteq> r"
  then have "w - r \<noteq> 0" by simp
  then have "unat (w - r - 1) = unat (w - r) - 1" "unat (w - r) > 0"
    using Word.unat_minus_one [of "w - r"] by (simp_all add: unat_gt_0)
  then show ?thesis by (simp add: algebra_simps)
qed

lemma uart_tx_wakeup: "wakeup ch s = Ok u t \<Longrightarrow> uart_tx_w t = uart_tx_w s \<and> uart_tx_r t = uart_tx_r s"
  using keepsD_Ok [OF keeps_consol_more(1) refl, of ch s u t]
  by (cases s; cases t) simp

lemma uart_tx_ReadReg: "ReadReg reg s = Ok u t \<Longrightarrow> uart_tx_w t = uart_tx_w s \<and> uart_tx_r t = uart_tx_r s"
  by (auto simp: ReadReg_def mmio_read_def exec)

function uartstart :: "('a consol_scheme, unit) kfun" where
  "uartstart s =
     bnd (gets (\<lambda>s. uart_tx_w s = uart_tx_r s)) (\<lambda>empty.
     if empty then ret ()
     else bnd (ReadReg LSR) (\<lambda>v.
          if v AND LSR_TX_IDLE = 0 then ret ()
          else bnd (gets (\<lambda>s. uart_tx_buf s (uart_tx_r s mod UART_TX_BUF_SIZE))) (\<lambda>c.
               bnd (modify (\<lambda>s. s\<lparr>uart_tx_r := uart_tx_r s + 1\<rparr>)) (\<lambda>_.
               bnd (wakeup (Some C_uart_tx_r)) (\<lambda>_.
               bnd (WriteReg THR c) (\<lambda>_.
               uartstart)))))) s"
  by pat_completeness auto
termination
proof (relation "measure (\<lambda>s. unat (uart_tx_w s - uart_tx_r s))", goal_cases)
  case (2 s empty s1 v s2 c s3 u s4 w s5 z s6)
  then have "uart_tx_w s6 = uart_tx_w s" "uart_tx_r s6 = uart_tx_r s + 1" "uart_tx_w s \<noteq> uart_tx_r s"
    using uart_tx_ReadReg [of LSR s1 v s2] uart_tx_wakeup [of _ s4 w s5]
    by (auto simp: WriteReg_def mmio_write_def)
  then show ?case by (simp add: ring_step)
qed simp

declare uartstart.simps [simp del]

text \<open>\<open>uartputc\<close> from its loop on, with the lock held.\<close>

definition uartputc_loop :: "u8 \<Rightarrow> ('a consol_scheme, unit) kfun" where
  "uartputc_loop c =
     bnd (gets (\<lambda>s. uart_tx_w s = uart_tx_r s + UART_TX_BUF_SIZE)) (\<lambda>full.
     if full then sleep C_uart_tx_r L_uart
     else bnd (modify (\<lambda>s. s\<lparr>uart_tx_buf := (uart_tx_buf s)(uart_tx_w s mod UART_TX_BUF_SIZE := c),
                              uart_tx_w := uart_tx_w s + 1\<rparr>)) (\<lambda>_.
          bnd uartstart (\<lambda>_.
          release L_uart)))"

definition uartputc :: "u8 \<Rightarrow> ('a consol_scheme, unit) kfun" where
  "uartputc c =
     bnd (acquire L_uart) (\<lambda>_.
     bnd (gets panicked) (\<lambda>stop.
     if stop then (\<lambda>s. Diverges) else uartputc_loop c))"

definition uartputc_resume :: "nat \<Rightarrow> u8 \<Rightarrow> bool \<Rightarrow> ('a consol_scheme, unit) kfun" where
  "uartputc_resume p c ie = bnd (sleep_resume p L_uart ie) (\<lambda>_. uartputc_loop c)"

subsection \<open>Console reads and writes\<close>

fun consolewrite_loop :: "nat \<Rightarrow> nat \<Rightarrow> copysrc \<Rightarrow> ('a consol_scheme, int) kfun" where
  "consolewrite_loop 0 i src = ret (int i)"
| "consolewrite_loop (Suc k) i src =
     bnd (either_copyin (src_plus src i) 1) (\<lambda>(r, bs).
     if r = - 1 then ret (int i)
     else bnd (uartputc (bs ! 0)) (\<lambda>_. consolewrite_loop k (Suc i) src))"

definition consolewrite :: "copysrc \<Rightarrow> int \<Rightarrow> ('a consol_scheme, int) kfun" where
  "consolewrite src n = consolewrite_loop (nat n) 0 src"

definition consolewrite_resume :: "nat \<Rightarrow> u8 \<Rightarrow> bool \<Rightarrow> nat \<Rightarrow> nat \<Rightarrow> copysrc \<Rightarrow> ('a consol_scheme, int) kfun" where
  "consolewrite_resume p c ie k i src = bnd (uartputc_resume p c ie) (\<lambda>_. consolewrite_loop k (Suc i) src)"

text \<open>\<open>C x\<close> is the character Control-\<open>x\<close>.\<close>

definition C :: "u8 \<Rightarrow> u8" where "C x = x - 64"

text \<open>The outer loop of \<open>consoleread\<close>; \<open>n\<close> is the number of bytes still wanted.\<close>

definition consoleread_done :: "int \<Rightarrow> nat \<Rightarrow> ('a consol_scheme, int) kfun" where
  "consoleread_done target n = bnd (release L_cons) (\<lambda>_. ret (target - int n))"

fun consoleread_loop :: "int \<Rightarrow> nat \<Rightarrow> copydst \<Rightarrow> ('a consol_scheme, int) kfun" where
  "consoleread_loop target 0 dst = consoleread_done target 0"
| "consoleread_loop target (Suc n) dst =
     bnd (gets (\<lambda>s. cons_r s = cons_w s)) (\<lambda>empty.
     if empty
     then bnd cur_proc (\<lambda>p.
          bnd (killed p) (\<lambda>k.
          if k \<noteq> 0 then bnd (release L_cons) (\<lambda>_. ret (- 1))
          else bnd (sleep C_cons_r L_cons) (\<lambda>_. ret 0)))
     else bnd (gets (\<lambda>s. cons_buf s (cons_r s mod INPUT_BUF_SIZE))) (\<lambda>c.
          bnd (modify (\<lambda>s. s\<lparr>cons_r := cons_r s + 1\<rparr>)) (\<lambda>_.
          if c = C 0x44
          then bnd (do_if (int (Suc n) < target) (modify (\<lambda>s. s\<lparr>cons_r := cons_r s - 1\<rparr>))) (\<lambda>_.
               consoleread_done target (Suc n))
          else bnd (either_copyout dst [c]) (\<lambda>r.
               if r = - 1 then consoleread_done target (Suc n)
               else if c = 10 then consoleread_done target n
               else consoleread_loop target n (dst_plus dst 1)))))"

text \<open>For a non-positive \<open>n\<close> the loop does not run and \<^verbatim>\<open>target - n\<close> is 0.\<close>

definition consoleread :: "copydst \<Rightarrow> int \<Rightarrow> ('a consol_scheme, int) kfun" where
  "consoleread dst n = bnd (acquire L_cons) (\<lambda>_. consoleread_loop (int (nat n)) (nat n) dst)"

definition consoleread_resume :: "nat \<Rightarrow> bool \<Rightarrow> int \<Rightarrow> nat \<Rightarrow> copydst \<Rightarrow> ('a consol_scheme, int) kfun" where
  "consoleread_resume p ie target n dst =
     bnd (sleep_resume p L_cons ie) (\<lambda>_. consoleread_loop target n dst)"

subsection \<open>Input interrupts\<close>

lemma keeps_uartputc_sync: "keeps (\<lambda>s. procs.more s = r) (uartputc_sync b)"
  unfolding uartputc_sync_def
proof (intro keeps_bnd keeps_if keeps_machine keeps_gets)
  show "keeps (\<lambda>s. procs.more s = r) (\<lambda>s. Diverges)" by (simp add: keeps_def)
  show "keeps (\<lambda>s. procs.more s = r) (\<lambda>s. case poll_idle (mmio_in s) (mmio_log s) of
      None \<Rightarrow> Diverges | Some lg \<Rightarrow> Ok () (s\<lparr>mmio_log := lg\<rparr>))"
    by (auto simp: keeps_def split: option.splits)
qed (simp_all add: keeps_consol_more)

lemma keeps_consputc: "keeps (\<lambda>s. procs.more s = r) (consputc c)"
  unfolding consputc_def by (intro keeps_bnd keeps_if keeps_uartputc_sync)

lemma cons_consputc:
  assumes "consputc c s = Ok u t"
  shows "cons_e t = cons_e s" "cons_w t = cons_w s"
  using keepsD_Ok [OF keeps_consputc refl assms] by (cases s; cases t; simp)+

function kill_line :: "('a consol_scheme, unit) kfun" where
  "kill_line s =
     bnd (gets (\<lambda>s. cons_e s \<noteq> cons_w s \<and> cons_buf s ((cons_e s - 1) mod INPUT_BUF_SIZE) \<noteq> 10)) (\<lambda>go.
     if \<not> go then ret ()
     else bnd (modify (\<lambda>s. s\<lparr>cons_e := cons_e s - 1\<rparr>)) (\<lambda>_.
          bnd (consputc BACKSPACE) (\<lambda>_.
          kill_line))) s"
  by pat_completeness auto
termination
proof (relation "measure (\<lambda>s. unat (cons_e s - cons_w s))", goal_cases)
  case (2 s go s1 u s2 v s3)
  then have *: "cons_e s3 = cons_e s - 1" "cons_w s3 = cons_w s" "cons_e s \<noteq> cons_w s"
    using cons_consputc [of BACKSPACE s2 v s3] by auto
  then have "cons_e s - cons_w s \<noteq> 0" by simp
  then have "unat (cons_e s - cons_w s - 1) < unat (cons_e s - cons_w s)"
    using Word.unat_minus_one [of "cons_e s - cons_w s"] by (simp add: unat_gt_0)
  moreover have "cons_e s - cons_w s - 1 = cons_e s3 - cons_w s3" using * by simp
  ultimately show ?case by simp
qed simp

declare kill_line.simps [simp del]

text \<open>Control-C: the live process with the highest pid, starting the search from process 0.\<close>

definition highest_proc :: "(nat \<Rightarrow> proc) \<Rightarrow> nat" where
  "highest_proc pt = fold (\<lambda>i best. if pstate (pt i) \<noteq> UNUSED \<and> pid (pt i) > pid (pt best) then i else best)
     [0..<NPROC] 0"

definition consoleintr_kill :: "('a consol_scheme, unit) kfun" where
  "consoleintr_kill =
     bnd (gets (\<lambda>s. highest_proc (ptab s))) (\<lambda>i.
     bnd (gets (\<lambda>s. map_option (\<lambda>q. pid (ptab s q)) (parent (ptab s i)))) (\<lambda>pp.
     case pp of None \<Rightarrow> panic ''kerneltrap'' | Some n \<Rightarrow> do_if (n \<noteq> 1) (setkilled i)))"

definition consoleintr_store :: "u8 \<Rightarrow> ('a consol_scheme, unit) kfun" where
  "consoleintr_store c0 =
     bnd (gets (\<lambda>s. c0 \<noteq> 0 \<and> cons_e s - cons_r s < INPUT_BUF_SIZE)) (\<lambda>room.
     do_if room
       (let c = (if c0 = 13 then 10 else c0) in
        bnd (consputc (ucast c)) (\<lambda>_.
        bnd (modify (\<lambda>s. s\<lparr>cons_buf := (cons_buf s)(cons_e s mod INPUT_BUF_SIZE := c),
                           cons_e := cons_e s + 1\<rparr>)) (\<lambda>_.
        bnd (gets (\<lambda>s. c = 10 \<or> c = C 0x44 \<or> cons_e s - cons_r s = INPUT_BUF_SIZE)) (\<lambda>line.
        do_if line
          (bnd (modify (\<lambda>s. s\<lparr>cons_w := cons_e s\<rparr>)) (\<lambda>_.
           wakeup (Some C_cons_r))))))))"

definition consoleintr :: "u8 \<Rightarrow> ('a consol_scheme, unit) kfun" where
  "consoleintr c =
     locking L_cons
       (if c = C 0x50 then procdump
        else if c = C 0x55 then kill_line
        else if c = C 0x43 then consoleintr_kill
        else if c = C 0x48 \<or> c = 0x7f
        then bnd (gets (\<lambda>s. cons_e s \<noteq> cons_w s)) (\<lambda>some.
             do_if some
               (bnd (modify (\<lambda>s. s\<lparr>cons_e := cons_e s - 1\<rparr>)) (\<lambda>_.
                consputc BACKSPACE)))
        else consoleintr_store c)"

text \<open>
  The input loop of \<open>uartintr\<close> runs as long as the device has input; \<open>fuel\<close> bounds the number
  of characters handled in one interrupt.
\<close>

fun uartintr_input :: "nat \<Rightarrow> ('a consol_scheme, unit) kfun" where
  "uartintr_input 0 = (\<lambda>s. Diverges)"
| "uartintr_input (Suc fuel) =
     bnd uartgetc (\<lambda>c.
     case c of None \<Rightarrow> ret () | Some b \<Rightarrow> bnd (consoleintr b) (\<lambda>_. uartintr_input fuel))"

definition uartintr :: "nat \<Rightarrow> ('a consol_scheme, unit) kfun" where
  "uartintr fuel = bnd (uartintr_input fuel) (\<lambda>_. locking L_uart uartstart)"

definition consoleinit :: "('a consol_scheme, unit) kfun" where
  "consoleinit =
     bnd (initlock L_cons ''cons'') (\<lambda>_.
     bnd uartinit (\<lambda>_.
     modify (\<lambda>s. s\<lparr>devsw_read := (devsw_read s)(CONSOLE := True),
                   devsw_write := (devsw_write s)(CONSOLE := True)\<rparr>)))"

definition boot_consol :: "'a \<Rightarrow> 'a consol_scheme" where
  "boot_consol m = boot_procs \<lparr>uart_tx_buf = (\<lambda>_. 0), uart_tx_w = 0, uart_tx_r = 0, cons_buf = (\<lambda>_. 0),
     cons_r = 0, cons_w = 0, cons_e = 0, devsw_read = (\<lambda>_. False), devsw_write = (\<lambda>_. False), \<dots> = m\<rparr>"

end
