(* ===== verification/Xv6_Sleeplock.thy ===== *)
theory Xv6_Sleeplock
  imports Xv6_Console
begin

text \<open>
  Long-term locks, \<^verbatim>\<open>kernel/sleeplock.c\<close>.  A process that finds the lock taken gives up the
  processor in \<open>sleep\<close> and tests again in \<open>acquiresleep_resume\<close>.
\<close>

subsection \<open>State\<close>

record sleeplock =
  sl_locked :: u32
  sl_name :: string
  sl_pid :: int

record sleeplocks = consol +
  slocks :: "sleeplock_id \<Rightarrow> sleeplock"

definition upd_slock :: "sleeplock_id \<Rightarrow> (sleeplock \<Rightarrow> sleeplock) \<Rightarrow> ('a sleeplocks_scheme, unit) kfun" where
  "upd_slock l f = modify (\<lambda>s. s\<lparr>slocks := (slocks s)(l := f (slocks s l))\<rparr>)"

subsection \<open>Operations\<close>

definition initsleeplock :: "sleeplock_id \<Rightarrow> string \<Rightarrow> ('a sleeplocks_scheme, unit) kfun" where
  "initsleeplock l nm =
     bnd (initlock (L_sleep l) ''sleep lock'') (\<lambda>_.
     upd_slock l (\<lambda>k. k\<lparr>sl_name := nm, sl_locked := 0, sl_pid := 0\<rparr>))"

text \<open>\<open>acquiresleep\<close> from its loop on, with the inner spin lock held.\<close>

definition acquiresleep_loop :: "sleeplock_id \<Rightarrow> ('a sleeplocks_scheme, unit) kfun" where
  "acquiresleep_loop l =
     bnd (gets (\<lambda>s. sl_locked (slocks s l) \<noteq> 0)) (\<lambda>taken.
     if taken then sleep (C_sleeplock l) (L_sleep l)
     else bnd (upd_slock l (\<lambda>k. k\<lparr>sl_locked := 1\<rparr>)) (\<lambda>_.
          bnd cur_proc (\<lambda>p.
          bnd (gets (\<lambda>s. pid (ptab s p))) (\<lambda>n.
          bnd (upd_slock l (\<lambda>k. k\<lparr>sl_pid := n\<rparr>)) (\<lambda>_.
          release (L_sleep l))))))"

definition acquiresleep :: "sleeplock_id \<Rightarrow> ('a sleeplocks_scheme, unit) kfun" where
  "acquiresleep l = bnd (acquire (L_sleep l)) (\<lambda>_. acquiresleep_loop l)"

definition acquiresleep_resume :: "nat \<Rightarrow> sleeplock_id \<Rightarrow> bool \<Rightarrow> ('a sleeplocks_scheme, unit) kfun" where
  "acquiresleep_resume p l ie = bnd (sleep_resume p (L_sleep l) ie) (\<lambda>_. acquiresleep_loop l)"

definition releasesleep :: "sleeplock_id \<Rightarrow> ('a sleeplocks_scheme, unit) kfun" where
  "releasesleep l =
     locking (L_sleep l)
       (bnd (upd_slock l (\<lambda>k. k\<lparr>sl_locked := 0, sl_pid := 0\<rparr>)) (\<lambda>_.
        wakeup (Some (C_sleeplock l))))"

definition holdingsleep :: "sleeplock_id \<Rightarrow> ('a sleeplocks_scheme, bool) kfun" where
  "holdingsleep l =
     locking (L_sleep l)
       (bnd (gets (\<lambda>s. sl_locked (slocks s l) \<noteq> 0)) (\<lambda>taken.
        if \<not> taken then ret False
        else bnd cur_proc (\<lambda>p.
             gets (\<lambda>s. sl_pid (slocks s l) = pid (ptab s p)))))"

subsection \<open>Sleep locks in a calm state\<close>

text \<open>
  Process \<open>p\<close> runs on this hart and no spin lock is taken: the states between two critical
  sections of the kernel code of \<open>p\<close>, when no other hart is inside one.
\<close>

definition calm :: "nat \<Rightarrow> 'a procs_scheme \<Rightarrow> bool" where
  "calm p s \<longleftrightarrow> cpu_ok s \<and> c_proc (cpus s (hart s)) = Some p \<and> (\<forall>l. lock_free l s)"

definition woken :: "nat \<Rightarrow> chan \<Rightarrow> (nat \<Rightarrow> proc) \<Rightarrow> nat \<Rightarrow> proc" where
  "woken p ch f = (\<lambda>i. if i < NPROC \<and> i \<noteq> p then wakeup_proc (Some ch) (f i) else f i)"

lemma woken_pid [simp]: "pid (woken p ch f i) = pid (f i)"
  by (simp add: woken_def wakeup_proc_def)

lemma calm_simps: "calm p s \<Longrightarrow> cpu_ok s" "calm p s \<Longrightarrow> lock_free l s" "calm p s \<Longrightarrow> c_proc (cpus s (hart s)) = Some p"
  by (simp_all add: calm_def)

lemma calm_ptab [simp]: "calm p (s\<lparr>ptab := f\<rparr>) = calm p s"
  by (simp add: calm_def)

lemma calm_boot [simp]: "calm 0 (boot_procs m)"
  by (simp add: calm_def)

lemma take_lock_frame [simp]:
  "hart (take_lock l s) = hart s" "c_proc (cpus (take_lock l s) h) = c_proc (cpus s h)"
  "k \<noteq> l \<Longrightarrow> lock_free k (take_lock l s) = lock_free k s"
  by (simp_all add: take_lock_def off_state_def lock_free_def)

lemma calm_others_unlocked: "calm p s \<Longrightarrow> (\<And>i. l \<noteq> L_proc i) \<Longrightarrow> others_unlocked (Some p) (take_lock l s)"
  by (auto simp: others_unlocked_def calm_def dest: not_sym)

lemma calm_wakeup:
  assumes "calm p s" and "\<And>i. l \<noteq> L_proc i"
  shows "wakeup (Some ch) (take_lock l s) = Ok () (take_lock l (s\<lparr>ptab := woken p ch (ptab s)\<rparr>))"
  by (simp add: wakeup_eq [OF calm_others_unlocked [OF assms]] woken_def cong: if_cong)
    (rule arg_cong [where f = "\<lambda>f. take_lock l (s\<lparr>ptab := f\<rparr>)"], auto)

lemma take_lock_slocks [simp]:
  "(take_lock l s)\<lparr>slocks := f\<rparr> = take_lock l (s\<lparr>slocks := f\<rparr>)"
  "lock_free l (s\<lparr>slocks := f\<rparr>) = lock_free l s" "cpu_ok (s\<lparr>slocks := f\<rparr>) = cpu_ok s"
  "slocks (take_lock l s) = slocks s" "calm p (s\<lparr>slocks := f\<rparr>) = calm p s"
  by (simp_all add: take_lock_def off_state_def lock_free_def cpu_ok_def sie_on_def calm_def)

definition sl_taken :: "int \<Rightarrow> sleeplock \<Rightarrow> sleeplock" where
  "sl_taken n k = k\<lparr>sl_locked := 1, sl_pid := n\<rparr>"

definition sl_freed :: "sleeplock \<Rightarrow> sleeplock" where
  "sl_freed k = k\<lparr>sl_locked := 0, sl_pid := 0\<rparr>"

lemma acquiresleep_calm:
  assumes "calm p s" and "sl_locked (slocks s l) = 0"
  shows "acquiresleep l s = Ok () (s\<lparr>slocks := (slocks s)(l := sl_taken (pid (ptab s p)) (slocks s l))\<rparr>)"
  using assms
  by (simp add: acquiresleep_def acquiresleep_loop_def exec acquire_free calm_simps upd_slock_def cur_proc_def
      release_take_lock sl_taken_def)

lemma holdingsleep_calm:
  assumes "calm p s"
  shows "holdingsleep l s = Ok (sl_locked (slocks s l) \<noteq> 0 \<and> sl_pid (slocks s l) = pid (ptab s p)) s"
  using assms unfolding holdingsleep_def
  by (intro locking_Ok) (auto simp: calm_simps exec cur_proc_def)

lemma releasesleep_calm:
  assumes "calm p s"
  shows "releasesleep l s = Ok () (s\<lparr>slocks := (slocks s)(l := sl_freed (slocks s l)), ptab := woken p (C_sleeplock l) (ptab s)\<rparr>)"
  unfolding releasesleep_def
proof (rule locking_Ok)
  show "bnd (upd_slock l (\<lambda>k. k\<lparr>sl_locked := 0, sl_pid := 0\<rparr>)) (\<lambda>_. wakeup (Some (C_sleeplock l))) (take_lock (L_sleep l) s) =
    Ok () (take_lock (L_sleep l) (s\<lparr>slocks := (slocks s)(l := sl_freed (slocks s l)), ptab := woken p (C_sleeplock l) (ptab s)\<rparr>))"
    using assms by (simp add: exec upd_slock_def sl_freed_def calm_wakeup)
qed (use assms in \<open>simp_all add: calm_simps\<close>)

definition boot_sleeplocks :: "'a \<Rightarrow> 'a sleeplocks_scheme" where
  "boot_sleeplocks m = boot_consol \<lparr>slocks = (\<lambda>_. \<lparr>sl_locked = 0, sl_name = [], sl_pid = 0\<rparr>), \<dots> = m\<rparr>"

lemma boot_sleeplocks_simps [simp]:
  "calm 0 (boot_sleeplocks m)" "slocks (boot_sleeplocks m) l = \<lparr>sl_locked = 0, sl_name = [], sl_pid = 0\<rparr>"
  "ptab (boot_sleeplocks m) i = idle_proc"
  by (simp_all add: boot_sleeplocks_def boot_consol_def) (simp_all add: boot_procs_def)

end
