(* ===== verification/Xv6_Bio.thy ===== *)
theory Xv6_Bio
  imports Xv6_Sleeplock
begin

text \<open>
  The buffer cache, \<^verbatim>\<open>kernel/bio.c\<close> and \<^verbatim>\<open>kernel/buf.h\<close>.  A buffer is its index in the array
  \<^verbatim>\<open>bcache.buf\<close>; the index \<open>bhead\<close> stands for \<^verbatim>\<open>bcache.head\<close>.  The list through \<^verbatim>\<open>prev\<close> and
  \<^verbatim>\<open>next\<close> is kept as the code has it, as two links per buffer.

  The disk, as seen from here, is its image when the machine started and the list of the
  blocks written since, oldest first; a crash keeps a prefix of that list.  \<open>disk_rw\<close> is the
  completed request of \<open>virtio_disk_rw\<close>; the driver itself is in \<^theory_text>\<open>Xv6_Virtio\<close>.
\<close>

subsection \<open>State\<close>

definition BSIZE :: nat where "BSIZE = 1024"

type_synonym block = "nat \<Rightarrow> u8"

record buf =
  bvalid :: bool
  bdisk :: bool
  bdev :: u32
  bblockno :: u32
  brefcnt :: u32
  bprev :: nat
  bnext :: nat
  bdata :: block

record bcache = sleeplocks +
  bufs :: "nat \<Rightarrow> buf"
  disk_img :: "u32 \<Rightarrow> block"
  disk_wr :: "(u32 \<times> block) list"

definition bhead :: nat where "bhead = NBUF"

definition apply_writes :: "(u32 \<times> block) list \<Rightarrow> (u32 \<Rightarrow> block) \<Rightarrow> u32 \<Rightarrow> block" where
  "apply_writes ws d = fold (\<lambda>(n, b) d. d(n := b)) ws d"

definition disk :: "'a bcache_scheme \<Rightarrow> u32 \<Rightarrow> block" where
  "disk s = apply_writes (disk_wr s) (disk_img s)"

definition upd_buf :: "nat \<Rightarrow> (buf \<Rightarrow> buf) \<Rightarrow> ('a bcache_scheme, unit) kfun" where
  "upd_buf b f = modify (\<lambda>s. s\<lparr>bufs := (bufs s)(b := f (bufs s b))\<rparr>)"

definition disk_rw :: "nat \<Rightarrow> bool \<Rightarrow> ('a bcache_scheme, unit) kfun" where
  "disk_rw b write =
     (if write
      then modify (\<lambda>s. s\<lparr>disk_wr := disk_wr s @ [(bblockno (bufs s b), bdata (bufs s b))],
                         bufs := (bufs s)(b := (bufs s b)\<lparr>bdisk := False\<rparr>)\<rparr>)
      else modify (\<lambda>s. s\<lparr>bufs := (bufs s)(b := (bufs s b)\<lparr>
                           bdata := disk s (bblockno (bufs s b)), bdisk := False\<rparr>)\<rparr>))"

subsection \<open>Operations\<close>

definition binit :: "('a bcache_scheme, unit) kfun" where
  "binit =
     bnd (initlock L_bcache ''bcache'') (\<lambda>_.
     bnd (upd_buf bhead (\<lambda>h. h\<lparr>bprev := bhead, bnext := bhead\<rparr>)) (\<lambda>_.
     for_each [0..<NBUF] (\<lambda>b.
       bnd (gets (\<lambda>s. bnext (bufs s bhead))) (\<lambda>first.
       bnd (upd_buf b (\<lambda>r. r\<lparr>bnext := first, bprev := bhead\<rparr>)) (\<lambda>_.
       bnd (initsleeplock (SL_buf b) ''buffer'') (\<lambda>_.
       bnd (gets (\<lambda>s. bnext (bufs s bhead))) (\<lambda>first.
       bnd (upd_buf first (\<lambda>r. r\<lparr>bprev := b\<rparr>)) (\<lambda>_.
       upd_buf bhead (\<lambda>h. h\<lparr>bnext := b\<rparr>)))))))))"

text \<open>
  The two searches of \<open>bget\<close> follow the links until they are back at the head.  A walk that
  has visited \<open>NBUF\<close> buffers without meeting the head is in a cycle and never ends
  (\<open>None\<close>).
\<close>

fun ring_walk :: "nat \<Rightarrow> (nat \<Rightarrow> nat) \<Rightarrow> (nat \<Rightarrow> bool) \<Rightarrow> nat \<Rightarrow> nat option option" where
  "ring_walk 0 link P b = (if b = bhead then Some None else None)"
| "ring_walk (Suc k) link P b =
     (if b = bhead then Some None
      else if P b then Some (Some b)
      else ring_walk k link P (link b))"

definition find_cached :: "u32 \<Rightarrow> u32 \<Rightarrow> (nat \<Rightarrow> buf) \<Rightarrow> nat option option" where
  "find_cached dev blockno bs =
     ring_walk NBUF (\<lambda>b. bnext (bs b)) (\<lambda>b. bdev (bs b) = dev \<and> bblockno (bs b) = blockno) (bnext (bs bhead))"

definition find_unused :: "(nat \<Rightarrow> buf) \<Rightarrow> nat option option" where
  "find_unused bs = ring_walk NBUF (\<lambda>b. bprev (bs b)) (\<lambda>b. brefcnt (bs b) = 0) (bprev (bs bhead))"

definition bget :: "u32 \<Rightarrow> u32 \<Rightarrow> ('a bcache_scheme, nat) kfun" where
  "bget dev blockno =
     bnd (acquire L_bcache) (\<lambda>_.
     bnd (gets (\<lambda>s. find_cached dev blockno (bufs s))) (\<lambda>hit.
     case hit of
       None \<Rightarrow> (\<lambda>s. Diverges)
     | Some (Some b) \<Rightarrow>
         bnd (upd_buf b (\<lambda>r. r\<lparr>brefcnt := brefcnt r + 1\<rparr>)) (\<lambda>_.
         bnd (release L_bcache) (\<lambda>_.
         bnd (acquiresleep (SL_buf b)) (\<lambda>_.
         ret b)))
     | Some None \<Rightarrow>
         bnd (gets (\<lambda>s. find_unused (bufs s))) (\<lambda>free.
         case free of
           None \<Rightarrow> (\<lambda>s. Diverges)
         | Some None \<Rightarrow> panic ''bget: no buffers''
         | Some (Some b) \<Rightarrow>
             bnd (upd_buf b (\<lambda>r. r\<lparr>bdev := dev, bblockno := blockno, bvalid := False, brefcnt := 1\<rparr>)) (\<lambda>_.
             bnd (release L_bcache) (\<lambda>_.
             bnd (acquiresleep (SL_buf b)) (\<lambda>_.
             ret b))))))"

definition bread :: "u32 \<Rightarrow> u32 \<Rightarrow> ('a bcache_scheme, nat) kfun" where
  "bread dev blockno =
     bnd (bget dev blockno) (\<lambda>b.
     bnd (gets (\<lambda>s. bvalid (bufs s b))) (\<lambda>v.
     if v then ret b
     else bnd (disk_rw b False) (\<lambda>_.
          bnd (upd_buf b (\<lambda>r. r\<lparr>bvalid := True\<rparr>)) (\<lambda>_.
          ret b))))"

definition bwrite :: "nat \<Rightarrow> ('a bcache_scheme, unit) kfun" where
  "bwrite b =
     bnd (holdingsleep (SL_buf b)) (\<lambda>h.
     if \<not> h then panic ''bwrite'' else disk_rw b True)"

text \<open>The six assignments that unlink \<open>b\<close> and put it at the front of the list.\<close>

definition to_front :: "nat \<Rightarrow> ('a bcache_scheme, unit) kfun" where
  "to_front b =
     bnd (gets (\<lambda>s. bufs s b)) (\<lambda>r.
     bnd (upd_buf (bnext r) (\<lambda>n. n\<lparr>bprev := bprev r\<rparr>)) (\<lambda>_.
     bnd (gets (\<lambda>s. bufs s b)) (\<lambda>r.
     bnd (upd_buf (bprev r) (\<lambda>p. p\<lparr>bnext := bnext r\<rparr>)) (\<lambda>_.
     bnd (gets (\<lambda>s. bnext (bufs s bhead))) (\<lambda>first.
     bnd (upd_buf b (\<lambda>r. r\<lparr>bnext := first, bprev := bhead\<rparr>)) (\<lambda>_.
     bnd (gets (\<lambda>s. bnext (bufs s bhead))) (\<lambda>first.
     bnd (upd_buf first (\<lambda>f. f\<lparr>bprev := b\<rparr>)) (\<lambda>_.
     upd_buf bhead (\<lambda>h. h\<lparr>bnext := b\<rparr>)))))))))"

definition brelse :: "nat \<Rightarrow> ('a bcache_scheme, unit) kfun" where
  "brelse b =
     bnd (holdingsleep (SL_buf b)) (\<lambda>h.
     if \<not> h then panic ''brelse''
     else bnd (releasesleep (SL_buf b)) (\<lambda>_.
          locking L_bcache
            (bnd (upd_buf b (\<lambda>r. r\<lparr>brefcnt := brefcnt r - 1\<rparr>)) (\<lambda>_.
             bnd (gets (\<lambda>s. brefcnt (bufs s b) = 0)) (\<lambda>idle.
             do_if idle (to_front b))))))"

definition bpin :: "nat \<Rightarrow> ('a bcache_scheme, unit) kfun" where
  "bpin b = locking L_bcache (upd_buf b (\<lambda>r. r\<lparr>brefcnt := brefcnt r + 1\<rparr>))"

definition bunpin :: "nat \<Rightarrow> ('a bcache_scheme, unit) kfun" where
  "bunpin b = locking L_bcache (upd_buf b (\<lambda>r. r\<lparr>brefcnt := brefcnt r - 1\<rparr>))"

subsection \<open>The list of buffers\<close>

text \<open>\<open>links f a xs z\<close>: following the link \<open>f\<close> from \<open>a\<close> one meets \<open>xs\<close> and then \<open>z\<close>.\<close>

fun links :: "(nat \<Rightarrow> nat) \<Rightarrow> nat \<Rightarrow> nat list \<Rightarrow> nat \<Rightarrow> bool" where
  "links f a [] z \<longleftrightarrow> f a = z"
| "links f a (x # xs) z \<longleftrightarrow> f a = x \<and> links f x xs z"

lemma links_append [simp]: "links f a (xs @ y # ys) z \<longleftrightarrow> links f a xs y \<and> links f y ys z"
  by (induction xs arbitrary: a) auto

lemma links_upd [simp]: "w \<noteq> a \<Longrightarrow> w \<notin> set xs \<Longrightarrow> links (f(w := v)) a xs z = links f a xs z"
  by (induction xs arbitrary: a) auto

lemma links_cong: "(\<And>x. x \<in> insert a (set xs) \<Longrightarrow> f x = g x) \<Longrightarrow> links f a xs z = links g a xs z"
  by (induction xs arbitrary: a) auto

lemma ring_walk_links:
  assumes "links link a xs bhead" and "bhead \<notin> set xs" and "length xs \<le> k"
  shows "ring_walk k link P (link a) = Some (List.find P xs)"
  using assms
proof (induction xs arbitrary: a k)
  case Nil
  then show ?case by (cases k) simp_all
next
  case (Cons x xs)
  then show ?case by (cases k) simp_all
qed

text \<open>
  The buffer list is \<open>xs\<close>, most recently released first: both links go through all buffers,
  one way and the other, starting and ending at the head.
\<close>

definition ring :: "(nat \<Rightarrow> buf) \<Rightarrow> nat list \<Rightarrow> bool" where
  "ring bs xs \<longleftrightarrow> distinct xs \<and> set xs = {0..<NBUF} \<and>
     links (\<lambda>b. bnext (bs b)) bhead xs bhead \<and> links (\<lambda>b. bprev (bs b)) bhead (rev xs) bhead"

lemma ring_length: "ring bs xs \<Longrightarrow> length xs = NBUF"
  using distinct_card [of xs] by (simp add: ring_def)

lemma find_cached_ring:
  "ring bs xs \<Longrightarrow> find_cached dev n bs = Some (List.find (\<lambda>b. bdev (bs b) = dev \<and> bblockno (bs b) = n) xs)"
  using ring_length [of bs xs] unfolding find_cached_def
  by (intro ring_walk_links) (auto simp: ring_def bhead_def)

lemma find_unused_ring:
  "ring bs xs \<Longrightarrow> find_unused bs = Some (List.find (\<lambda>b. brefcnt (bs b) = 0) (rev xs))"
  using ring_length [of bs xs] unfolding find_unused_def
  by (intro ring_walk_links) (auto simp: ring_def bhead_def)

lemma ring_cong:
  "(\<And>b. bnext (bs b) = bnext (cs b) \<and> bprev (bs b) = bprev (cs b)) \<Longrightarrow> ring bs xs = ring cs xs"
  by (simp add: ring_def)

text \<open>Unlinking \<open>b\<close> and linking it in behind the head, on the two link functions.\<close>

definition front_next :: "nat \<Rightarrow> (nat \<Rightarrow> nat) \<Rightarrow> (nat \<Rightarrow> nat) \<Rightarrow> nat \<Rightarrow> nat" where
  "front_next b f g = (let f' = f(g b := f b) in f'(b := f' bhead, bhead := b))"

definition front_prev :: "nat \<Rightarrow> (nat \<Rightarrow> nat) \<Rightarrow> (nat \<Rightarrow> nat) \<Rightarrow> nat \<Rightarrow> nat" where
  "front_prev b f g = (g(f b := g b))(b := bhead, (f(g b := f b)) bhead := b)"

lemma links_unlink:
  "links f a (ys @ b # zs) z \<Longrightarrow> distinct (a # ys @ b # zs) \<Longrightarrow>
    links (f(last (a # ys) := f b)) a (ys @ zs) z"
proof (induction ys arbitrary: a)
  case Nil
  then show ?case by (cases zs) (auto simp del: fun_upd_apply simp: fun_upd_same)
next
  case (Cons y ys)
  then have "last (y # ys) \<noteq> a" using last_in_set [of "y # ys"] by auto
  then show ?case using Cons by simp
qed

lemma links_back: "links g b (rev ys) z \<Longrightarrow> g b = last (z # ys)"
  by (cases ys rule: rev_cases) simp_all

lemma front_links:
  assumes f: "links f bhead (ys @ b # zs) bhead" and g: "links g bhead (rev (ys @ b # zs)) bhead"
    and d: "distinct (ys @ b # zs)" and h: "bhead \<notin> set (ys @ b # zs)"
  shows "links (front_next b f g) bhead (b # ys @ zs) bhead"
    and "links (front_prev b f g) bhead (rev (b # ys @ zs)) bhead"
proof -
  have fb: "f b = last (bhead # rev zs)" using f links_back [of f b "rev zs"] by simp
  have gb: "g b = last (bhead # ys)" using g links_back [of g b ys] by simp
  let ?f = "f(g b := f b)" and ?g = "g(f b := g b)"
  have f': "links ?f bhead (ys @ zs) bhead" unfolding gb by (rule links_unlink [OF f]) (use d h in auto)
  have "links (g(last (bhead # rev zs) := g b)) bhead (rev zs @ rev ys) bhead"
    by (rule links_unlink) (use g d h in auto)
  then have g': "links ?g bhead (rev (ys @ zs)) bhead" by (simp add: fb)
  have b: "b \<notin> set (ys @ zs)" "b \<noteq> bhead" "bhead \<notin> set (ys @ zs)" "distinct (ys @ zs)" using d h by auto
  show "links (front_next b f g) bhead (b # ys @ zs) bhead"
    using f' b by (cases "ys @ zs") (auto simp: front_next_def Let_def)
  show "links (front_prev b f g) bhead (rev (b # ys @ zs)) bhead"
  proof (cases "ys @ zs")
    case Nil
    then show ?thesis using f' g' b by (simp add: front_prev_def)
  next
    case (Cons w ws)
    then have fw: "?f bhead = w" using f' by simp
    have "links ?g bhead (rev ws @ [w]) bhead" using g' Cons by simp
    then have "links (?g(b := bhead, w := b)) bhead (rev ws @ [w, b]) bhead" using b Cons by auto
    then show ?thesis unfolding front_prev_def fw using Cons by simp
  qed
qed

definition set_next :: "nat \<Rightarrow> nat \<Rightarrow> (nat \<Rightarrow> buf) \<Rightarrow> nat \<Rightarrow> buf" where
  "set_next b v bs = bs(b := (bs b)\<lparr>bnext := v\<rparr>)"

definition set_prev :: "nat \<Rightarrow> nat \<Rightarrow> (nat \<Rightarrow> buf) \<Rightarrow> nat \<Rightarrow> buf" where
  "set_prev b v bs = bs(b := (bs b)\<lparr>bprev := v\<rparr>)"

lemma set_links [simp]:
  "bnext (set_next b v bs x) = (if x = b then v else bnext (bs x))" "bprev (set_next b v bs x) = bprev (bs x)"
  "bprev (set_prev b v bs x) = (if x = b then v else bprev (bs x))" "bnext (set_prev b v bs x) = bnext (bs x)"
  by (simp_all add: set_next_def set_prev_def)

lemma set_links_fields [simp]:
  "bdev (set_next b v bs x) = bdev (bs x)" "bblockno (set_next b v bs x) = bblockno (bs x)"
  "brefcnt (set_next b v bs x) = brefcnt (bs x)" "bvalid (set_next b v bs x) = bvalid (bs x)"
  "bdata (set_next b v bs x) = bdata (bs x)" "bdisk (set_next b v bs x) = bdisk (bs x)"
  "bdev (set_prev b v bs x) = bdev (bs x)" "bblockno (set_prev b v bs x) = bblockno (bs x)"
  "brefcnt (set_prev b v bs x) = brefcnt (bs x)" "bvalid (set_prev b v bs x) = bvalid (bs x)"
  "bdata (set_prev b v bs x) = bdata (bs x)" "bdisk (set_prev b v bs x) = bdisk (bs x)"
  by (simp_all add: set_next_def set_prev_def)

definition unlink_buf :: "nat \<Rightarrow> (nat \<Rightarrow> buf) \<Rightarrow> nat \<Rightarrow> buf" where
  "unlink_buf b bs =
     (let bs' = set_prev (bnext (bs b)) (bprev (bs b)) bs in set_next (bprev (bs' b)) (bnext (bs' b)) bs')"

definition push_front :: "nat \<Rightarrow> (nat \<Rightarrow> buf) \<Rightarrow> nat \<Rightarrow> buf" where
  "push_front b bs =
     (let bs' = set_prev b bhead (set_next b (bnext (bs bhead)) bs)
      in set_next bhead b (set_prev (bnext (bs' bhead)) b bs'))"

definition front_bufs :: "nat \<Rightarrow> (nat \<Rightarrow> buf) \<Rightarrow> nat \<Rightarrow> buf" where
  "front_bufs b bs = push_front b (unlink_buf b bs)"

lemma upd_buf_links:
  "upd_buf b (\<lambda>r. r\<lparr>bnext := v\<rparr>) s = Ok () (s\<lparr>bufs := set_next b v (bufs s)\<rparr>)"
  "upd_buf b (\<lambda>r. r\<lparr>bprev := v\<rparr>) s = Ok () (s\<lparr>bufs := set_prev b v (bufs s)\<rparr>)"
  "upd_buf b (\<lambda>r. r\<lparr>bnext := v, bprev := w\<rparr>) s = Ok () (s\<lparr>bufs := set_prev b w (set_next b v (bufs s))\<rparr>)"
  by (simp_all add: upd_buf_def set_next_def set_prev_def)

lemma to_front_eq: "to_front b s = Ok () (s\<lparr>bufs := front_bufs b (bufs s)\<rparr>)"
  unfolding front_bufs_def unlink_buf_def push_front_def Let_def
  by (simp add: to_front_def upd_buf_links bnd_apply del: set_links)

lemma front_bufs_fields [simp]:
  "bdev (front_bufs b bs x) = bdev (bs x)" "bblockno (front_bufs b bs x) = bblockno (bs x)"
  "brefcnt (front_bufs b bs x) = brefcnt (bs x)" "bvalid (front_bufs b bs x) = bvalid (bs x)"
  "bdata (front_bufs b bs x) = bdata (bs x)" "bdisk (front_bufs b bs x) = bdisk (bs x)"
  unfolding front_bufs_def unlink_buf_def push_front_def Let_def by (simp_all del: set_links)

lemma front_bufs_links:
  assumes "b \<noteq> bhead" and "bnext (bs b) \<noteq> b" and "bprev (bs b) \<noteq> b"
  shows "(\<lambda>x. bnext (front_bufs b bs x)) = front_next b (\<lambda>x. bnext (bs x)) (\<lambda>x. bprev (bs x))"
    and "(\<lambda>x. bprev (front_bufs b bs x)) = front_prev b (\<lambda>x. bnext (bs x)) (\<lambda>x. bprev (bs x))"
  unfolding front_bufs_def unlink_buf_def push_front_def Let_def front_next_def front_prev_def
  by (rule ext, use assms in simp)+

lemma ring_to_front:
  assumes "ring bs xs" and "b < NBUF"
  shows "ring (front_bufs b bs) (b # remove1 b xs)"
proof -
  obtain ys zs where xs: "xs = ys @ b # zs" "b \<notin> set ys"
    using assms split_list_first [of b xs] by (auto simp: ring_def)
  have d: "distinct (ys @ b # zs)" "set (ys @ b # zs) = {0..<NBUF}" using assms xs by (simp_all add: ring_def)
  have f: "links (\<lambda>x. bnext (bs x)) bhead (ys @ b # zs) bhead"
    and g: "links (\<lambda>x. bprev (bs x)) bhead (rev (ys @ b # zs)) bhead"
    using assms(1) xs by (simp_all add: ring_def)
  have h: "bhead \<notin> set (ys @ b # zs)" using d by (simp only: bhead_def) simp
  have "bnext (bs b) = last (bhead # rev zs)" using f links_back [of "\<lambda>x. bnext (bs x)" b "rev zs"] by simp
  moreover have "last (bhead # rev zs) \<noteq> b" using d(1) h last_in_set [of "rev zs"] by (cases "zs = []") auto
  moreover have "bprev (bs b) = last (bhead # ys)" using g links_back [of "\<lambda>x. bprev (bs x)" b ys] by simp
  moreover have "last (bhead # ys) \<noteq> b" using d(1) h last_in_set [of ys] by (cases "ys = []") auto
  moreover have "b \<noteq> bhead" using h by auto
  ultimately show ?thesis
    using front_links [OF f g d(1) h] front_bufs_links [of b bs] d xs
    by (auto simp: ring_def remove1_append)
qed

subsection \<open>Operations in a calm state\<close>

lemma take_lock_bcache [simp]:
  "(take_lock l s)\<lparr>bufs := f\<rparr> = take_lock l (s\<lparr>bufs := f\<rparr>)"
  "lock_free l (s\<lparr>bufs := f\<rparr>) = lock_free l s" "cpu_ok (s\<lparr>bufs := f\<rparr>) = cpu_ok s"
  "bufs (take_lock l s) = bufs s" "calm p (s\<lparr>bufs := f\<rparr>) = calm p s" "calm p (s\<lparr>disk_wr := ws\<rparr>) = calm p s"
  by (simp_all add: take_lock_def off_state_def lock_free_def cpu_ok_def sie_on_def calm_def)

lemma bget_hit:
  assumes "calm p s" and "ring (bufs s) xs"
    and "List.find (\<lambda>b. bdev (bufs s b) = dev \<and> bblockno (bufs s b) = n) xs = Some b"
    and "sl_locked (slocks s (SL_buf b)) = 0"
  shows "bget dev n s = Ok b (s\<lparr>bufs := (bufs s)(b := (bufs s b)\<lparr>brefcnt := brefcnt (bufs s b) + 1\<rparr>),
    slocks := (slocks s)(SL_buf b := sl_taken (pid (ptab s p)) (slocks s (SL_buf b)))\<rparr>)"
proof -
  have "find_cached dev n (bufs s) = Some (Some b)" using assms(3) by (simp add: find_cached_ring [OF assms(2)])
  then show ?thesis using assms(1,4)
    by (simp add: bget_def exec acquire_free release_take_lock calm_simps upd_buf_def acquiresleep_calm)
qed

lemma bget_miss:
  assumes "calm p s" and "ring (bufs s) xs"
    and "List.find (\<lambda>b. bdev (bufs s b) = dev \<and> bblockno (bufs s b) = n) xs = None"
    and "List.find (\<lambda>b. brefcnt (bufs s b) = 0) (rev xs) = Some b"
    and "sl_locked (slocks s (SL_buf b)) = 0"
  shows "bget dev n s = Ok b (s\<lparr>bufs := (bufs s)(b := (bufs s b)\<lparr>bdev := dev, bblockno := n, bvalid := False, brefcnt := 1\<rparr>),
    slocks := (slocks s)(SL_buf b := sl_taken (pid (ptab s p)) (slocks s (SL_buf b)))\<rparr>)"
proof -
  have "find_cached dev n (bufs s) = Some None" using assms(3) by (simp add: find_cached_ring [OF assms(2)])
  moreover have "find_unused (bufs s) = Some (Some b)" using assms(4) by (simp add: find_unused_ring [OF assms(2)])
  ultimately show ?thesis using assms(1,5)
    by (simp add: bget_def exec acquire_free release_take_lock calm_simps upd_buf_def acquiresleep_calm)
qed

lemma bget_full:
  assumes "calm p s" and "ring (bufs s) xs"
    and "List.find (\<lambda>b. bdev (bufs s b) = dev \<and> bblockno (bufs s b) = n) xs = None"
    and "List.find (\<lambda>b. brefcnt (bufs s b) = 0) (rev xs) = None"
  shows "bget dev n s = Panic ''bget: no buffers''"
proof -
  have "find_cached dev n (bufs s) = Some None" using assms(3) by (simp add: find_cached_ring [OF assms(2)])
  moreover have "find_unused (bufs s) = Some None" using assms(4) by (simp add: find_unused_ring [OF assms(2)])
  ultimately show ?thesis using assms(1) by (simp add: bget_def exec acquire_free calm_simps)
qed

definition unref :: "buf \<Rightarrow> buf" where "unref r = r\<lparr>brefcnt := brefcnt r - 1\<rparr>"

lemma brelse_calm:
  assumes "calm p s" and "sl_locked (slocks s (SL_buf b)) \<noteq> 0" and "sl_pid (slocks s (SL_buf b)) = pid (ptab s p)"
  shows "brelse b s = Ok () (s\<lparr>slocks := (slocks s)(SL_buf b := sl_freed (slocks s (SL_buf b))),
    ptab := woken p (C_sleeplock (SL_buf b)) (ptab s),
    bufs := (let bs = (bufs s)(b := unref (bufs s b)) in if brefcnt (bs b) = 0 then front_bufs b bs else bs)\<rparr>)"
proof -
  let ?s = "s\<lparr>slocks := (slocks s)(SL_buf b := sl_freed (slocks s (SL_buf b))), ptab := woken p (C_sleeplock (SL_buf b)) (ptab s)\<rparr>"
  have "locking L_bcache
          (bnd (upd_buf b (\<lambda>r. r\<lparr>brefcnt := brefcnt r - 1\<rparr>)) (\<lambda>_.
           bnd (gets (\<lambda>s. brefcnt (bufs s b) = 0)) (\<lambda>idle. do_if idle (to_front b)))) ?s =
        Ok () (?s\<lparr>bufs := (let bs = (bufs s)(b := unref (bufs s b)) in if brefcnt (bs b) = 0 then front_bufs b bs else bs)\<rparr>)"
    using assms(1)
    by (intro locking_Ok) (simp_all add: calm_simps exec upd_buf_def to_front_eq Let_def unref_def do_if_def)
  then show ?thesis using assms by (simp add: brelse_def exec holdingsleep_calm releasesleep_calm)
qed

subsection \<open>What the cache holds\<close>

text \<open>The buffer of block \<open>n\<close>, the contents that a reader of block \<open>n\<close> gets, its reference count, and
  the buffer by which the running process holds it.\<close>

definition slot :: "u32 \<Rightarrow> (nat \<Rightarrow> buf) \<Rightarrow> u32 \<Rightarrow> nat option" where
  "slot dev bs n = List.find (\<lambda>b. bdev (bs b) = dev \<and> bblockno (bs b) = n) [0..<NBUF]"

definition content :: "u32 \<Rightarrow> 'a bcache_scheme \<Rightarrow> u32 \<Rightarrow> block" where
  "content dev s n = (case slot dev (bufs s) n of
     Some b \<Rightarrow> if bvalid (bufs s b) then bdata (bufs s b) else disk s n | None \<Rightarrow> disk s n)"

definition refs :: "u32 \<Rightarrow> 'a bcache_scheme \<Rightarrow> u32 \<Rightarrow> nat" where
  "refs dev s n = (case slot dev (bufs s) n of Some b \<Rightarrow> unat (brefcnt (bufs s b)) | None \<Rightarrow> 0)"

definition held_buf :: "u32 \<Rightarrow> 'a bcache_scheme \<Rightarrow> u32 \<Rightarrow> nat option" where
  "held_buf dev s n = (case slot dev (bufs s) n of
     Some b \<Rightarrow> if sl_locked (slocks s (SL_buf b)) \<noteq> 0 then Some b else None | None \<Rightarrow> None)"

text \<open>
  The invariant: the list is well linked, no block has two buffers, a buffer that nobody uses is
  not locked and not dirty, and the locked ones are locked by process \<open>p\<close> and loaded.
\<close>

definition one_buf :: "u32 \<Rightarrow> (nat \<Rightarrow> buf) \<Rightarrow> bool" where
  "one_buf dev bs \<longleftrightarrow> (\<forall>b<NBUF. \<forall>c<NBUF. bdev (bs b) = dev \<longrightarrow> bdev (bs c) = dev \<longrightarrow>
     bblockno (bs b) = bblockno (bs c) \<longrightarrow> b = c)"

definition buf_ok :: "u32 \<Rightarrow> (u32 \<Rightarrow> block) \<Rightarrow> int \<Rightarrow> buf \<Rightarrow> sleeplock \<Rightarrow> bool" where
  "buf_ok dev d n r k \<longleftrightarrow>
     (brefcnt r = 0 \<longrightarrow> sl_locked k = 0 \<and> (bvalid r \<and> bdev r = dev \<longrightarrow> bdata r = d (bblockno r))) \<and>
     (sl_locked k \<noteq> 0 \<longrightarrow> sl_pid k = n \<and> bvalid r) \<and> (bdev r \<noteq> dev \<longrightarrow> brefcnt r = 0)"

definition cache_inv :: "nat \<Rightarrow> u32 \<Rightarrow> 'a bcache_scheme \<Rightarrow> bool" where
  "cache_inv p dev s \<longleftrightarrow> calm p s \<and> (\<exists>xs. ring (bufs s) xs) \<and> one_buf dev (bufs s) \<and>
     (\<forall>b<NBUF. buf_ok dev (disk s) (pid (ptab s p)) (bufs s b) (slocks s (SL_buf b)))"

lemma disk_frame [simp]:
  "disk (s\<lparr>bufs := f\<rparr>) = disk s" "disk (s\<lparr>slocks := g\<rparr>) = disk s" "disk (s\<lparr>ptab := h\<rparr>) = disk s"
  by (simp_all add: disk_def)

lemma disk_append: "disk (s\<lparr>disk_wr := disk_wr s @ [(n, d)]\<rparr>) = (disk s)(n := d)"
  by (simp add: disk_def apply_writes_def)

lemma slot_Some:
  "slot dev bs n = Some b \<Longrightarrow> b < NBUF \<and> bdev (bs b) = dev \<and> bblockno (bs b) = n"
  unfolding slot_def by (drule find_upt_from(1)) simp

lemma slot_None: "slot dev bs n = None \<Longrightarrow> b < NBUF \<Longrightarrow> bdev (bs b) = dev \<Longrightarrow> bblockno (bs b) \<noteq> n"
  unfolding slot_def by (drule find_upt_from(3) [where j = b]) simp_all

lemma slot_eq:
  assumes "one_buf dev bs"
  shows "slot dev bs n = Some b \<longleftrightarrow> b < NBUF \<and> bdev (bs b) = dev \<and> bblockno (bs b) = n"
  using assms slot_Some [of dev bs n] slot_None [of dev bs n] unfolding one_buf_def
  by (cases "slot dev bs n") auto

lemma slot_cong: "(\<And>b. bdev (bs b) = bdev (cs b) \<and> bblockno (bs b) = bblockno (cs b)) \<Longrightarrow> slot dev bs n = slot dev cs n"
  by (simp add: slot_def)

text \<open>Finding a block by walking the list is finding it in the array.\<close>

lemma find_ring_slot:
  assumes "ring bs xs" and "one_buf dev bs"
  shows "List.find (\<lambda>b. bdev (bs b) = dev \<and> bblockno (bs b) = n) xs = slot dev bs n"
proof -
  have xs: "set xs = {0..<NBUF}" using assms(1) by (simp add: ring_def)
  show ?thesis
  proof (cases "slot dev bs n")
    case None
    then show ?thesis using slot_None [OF None] xs by (auto simp: find_None_iff)
  next
    case (Some b)
    then obtain c where c: "List.find (\<lambda>b. bdev (bs b) = dev \<and> bblockno (bs b) = n) xs = Some c"
      using xs slot_Some [OF Some]
      by (cases "List.find (\<lambda>b. bdev (bs b) = dev \<and> bblockno (bs b) = n) xs") (auto simp: find_None_iff)
    then have "c \<in> set xs \<and> bdev (bs c) = dev \<and> bblockno (bs c) = n"
      by (auto simp: find_Some_iff)
    then have "slot dev bs n = Some c" using xs by (simp add: slot_eq [OF assms(2)])
    then show ?thesis using c by simp
  qed
qed

subsection \<open>The laws of the cache\<close>

text \<open>The effect of \<open>bread\<close>, for a block that has a buffer or takes over the buffer of another.\<close>

lemma load_law:
  assumes inv: "cache_inv p dev s" and b: "b < NBUF" "bnext r = bnext (bufs s b)" "bprev r = bprev (bufs s b)"
    and r: "bdev r = dev" "bblockno r = n" "bvalid r" "bdata r = content dev s n" "unat (brefcnt r) = Suc (refs dev s n)"
    and cases: "slot dev (bufs s) n = Some b \<or> slot dev (bufs s) n = None \<and> brefcnt (bufs s b) = 0"
    and t: "t = s\<lparr>bufs := (bufs s)(b := r), slocks := (slocks s)(SL_buf b := sl_taken (pid (ptab s p)) (slocks s (SL_buf b)))\<rparr>"
  shows "cache_inv p dev t \<and> content dev t = content dev s \<and> refs dev t = (refs dev s)(n := Suc (refs dev s n)) \<and>
    held_buf dev t = (held_buf dev s)(n := Some b)"
proof -
  let ?bs = "(bufs s)(b := r)"
  have one: "one_buf dev (bufs s)" and ok: "\<And>b. b < NBUF \<Longrightarrow> buf_ok dev (disk s) (pid (ptab s p)) (bufs s b) (slocks s (SL_buf b))"
    using inv by (auto simp: cache_inv_def)
  note sl = slot_eq [OF one]
  have new: "c = b" if "c < NBUF" "bdev (bufs s c) = dev" "bblockno (bufs s c) = n" for c
    using that cases sl [of n c] by auto
  have one': "one_buf dev ?bs"
    unfolding one_buf_def
  proof (intro allI impI)
    fix x y
    assume "x < NBUF" "y < NBUF" "bdev (?bs x) = dev" "bdev (?bs y) = dev" "bblockno (?bs x) = bblockno (?bs y)"
    note xy = this
    have fresh: "bblockno (?bs c) \<noteq> n" if "c < NBUF" "c \<noteq> b" "bdev (?bs c) = dev" for c
      using new [of c] that by auto
    have at: "bblockno (?bs b) = n" using r(2) by simp
    consider "x = b" | "y = b" | "x \<noteq> b" "y \<noteq> b" by blast
    then show "x = y"
    proof cases
      case 1
      then show ?thesis using fresh [OF xy(2)] xy(4,5) at by metis
    next
      case 2
      then show ?thesis using fresh [OF xy(1)] xy(3,5) at by metis
    next
      case 3
      then show ?thesis using xy by (intro one [unfolded one_buf_def, rule_format]) simp_all
    qed
  qed
  have here: "slot dev ?bs n = Some b" using b r by (simp add: slot_eq [OF one'])
  have other: "slot dev ?bs m = (if slot dev (bufs s) m = Some b then None else slot dev (bufs s) m)" if "m \<noteq> n" for m
  proof -
    have "slot dev ?bs m = Some c \<longleftrightarrow> c \<noteq> b \<and> slot dev (bufs s) m = Some c" for c
      using that r by (cases "c = b") (simp_all add: slot_eq [OF one'] sl)
    then show ?thesis by (metis option.exhaust)
  qed
  have old: "brefcnt (bufs s b) = 0 \<and> (bvalid (bufs s b) \<longrightarrow> bdata (bufs s b) = disk s m) \<and> sl_locked (slocks s (SL_buf b)) = 0"
    if "slot dev (bufs s) m = Some b" "m \<noteq> n" for m
  proof -
    have "bdev (bufs s b) = dev" "bblockno (bufs s b) = m" using slot_Some [OF that(1)] by simp_all
    moreover from this have "brefcnt (bufs s b) = 0" using cases slot_Some [of dev "bufs s" n b] that(2) by auto
    ultimately show ?thesis using ok [OF b(1)] by (simp add: buf_ok_def)
  qed
  have "buf_ok dev (disk s) (pid (ptab s p)) (?bs c) (slocks t (SL_buf c))" if "c < NBUF" for c
    using ok [OF that] r by (cases "c = b") (auto simp: t buf_ok_def sl_taken_def)
  moreover have "\<exists>xs. ring ?bs xs"
    using inv ring_cong [of ?bs "bufs s"] b by (auto simp: cache_inv_def)
  ultimately have "cache_inv p dev t" using inv one' by (simp add: cache_inv_def t)
  moreover have "content dev t m = content dev s m" for m
  proof (cases "m = n")
    case False
    then show ?thesis using old [of m] other [of m] by (cases "slot dev (bufs s) m") (auto simp: content_def t)
  qed (simp add: content_def [of dev "s\<lparr>bufs := ?bs, slocks := L\<rparr>" for L] t here r)
  moreover have "refs dev t m = ((refs dev s)(n := Suc (refs dev s n))) m" for m
  proof (cases "m = n")
    case False
    then show ?thesis using old [of m] other [of m] by (cases "slot dev (bufs s) m") (auto simp: refs_def t)
  qed (simp add: refs_def [of dev "s\<lparr>bufs := ?bs, slocks := L\<rparr>" for L] t here r)
  moreover have "held_buf dev t m = ((held_buf dev s)(n := Some b)) m" for m
  proof (cases "m = n")
    case False
    then show ?thesis using old [of m] other [of m] by (cases "slot dev (bufs s) m") (auto simp: held_buf_def t)
  qed (simp add: held_buf_def [of dev "s\<lparr>bufs := ?bs, slocks := L\<rparr>" for L] t here sl_taken_def)
  ultimately show ?thesis by auto
qed

text \<open>An operation on the buffer of block \<open>n\<close> alone.\<close>

lemma store_law:
  assumes inv: "cache_inv p dev s" and b: "slot dev (bufs s) n = Some b"
    and same: "\<And>x. bdev (bufs t x) = bdev (bufs s x) \<and> bblockno (bufs t x) = bblockno (bufs s x)"
    and others: "\<And>x. x \<noteq> b \<Longrightarrow> brefcnt (bufs t x) = brefcnt (bufs s x) \<and> bvalid (bufs t x) = bvalid (bufs s x) \<and>
      bdata (bufs t x) = bdata (bufs s x) \<and> slocks t (SL_buf x) = slocks s (SL_buf x)"
    and ring: "\<exists>xs. ring (bufs t) xs" and calm: "calm p t" and pid: "pid (ptab t p) = pid (ptab s p)"
    and disk: "\<And>m. m \<noteq> n \<Longrightarrow> disk t m = disk s m"
    and ok: "buf_ok dev (disk t) (pid (ptab s p)) (bufs t b) (slocks t (SL_buf b))" and valid: "bvalid (bufs t b)"
  shows "cache_inv p dev t \<and> content dev t = (content dev s)(n := bdata (bufs t b)) \<and>
    refs dev t = (refs dev s)(n := unat (brefcnt (bufs t b))) \<and>
    held_buf dev t = (held_buf dev s)(n := if sl_locked (slocks t (SL_buf b)) \<noteq> 0 then Some b else None)"
proof -
  have one: "one_buf dev (bufs s)" using inv by (simp add: cache_inv_def)
  have slot: "slot dev (bufs t) = slot dev (bufs s)" using slot_cong [of "bufs t" "bufs s"] same by auto
  have neq: "c \<noteq> b" if "slot dev (bufs s) m = Some c" "m \<noteq> n" for m c
    using slot_Some [OF that(1)] slot_Some [OF b] that(2) by auto
  have ok': "buf_ok dev (disk t) (pid (ptab s p)) (bufs t c) (slocks t (SL_buf c))" if "c < NBUF" for c
  proof (cases "c = b")
    case False
    have old: "buf_ok dev (disk s) (pid (ptab s p)) (bufs s c) (slocks s (SL_buf c))"
      using inv that by (simp add: cache_inv_def)
    have "bdev (bufs s c) = dev \<Longrightarrow> bblockno (bufs s c) \<noteq> n"
      using slot_eq [OF one, of n c] b False that by auto
    then show ?thesis using old same others [OF False] disk by (auto simp: buf_ok_def)
  qed (use ok in simp)
  have "one_buf dev (bufs t)" using one same by (simp add: one_buf_def)
  then have "cache_inv p dev t" using calm ring pid ok' by (simp add: cache_inv_def)
  moreover have "content dev t m = ((content dev s)(n := bdata (bufs t b))) m" for m
    using neq [of m] others disk [of m] b valid by (cases "slot dev (bufs s) m"; cases "m = n") (simp_all add: content_def slot)
  moreover have "refs dev t m = ((refs dev s)(n := unat (brefcnt (bufs t b)))) m" for m
    using neq [of m] others b by (cases "slot dev (bufs s) m"; cases "m = n") (simp_all add: refs_def slot)
  moreover have "held_buf dev t m = ((held_buf dev s)(n := if sl_locked (slocks t (SL_buf b)) \<noteq> 0 then Some b else None)) m" for m
    using neq [of m] others b by (cases "slot dev (bufs s) m"; cases "m = n") (simp_all add: held_buf_def slot)
  ultimately show ?thesis by auto
qed

lemma held_facts:
  assumes "cache_inv p dev s" and "held_buf dev s n = Some b"
  shows "slot dev (bufs s) n = Some b" "b < NBUF" "bblockno (bufs s b) = n" "bdev (bufs s b) = dev"
    "sl_locked (slocks s (SL_buf b)) \<noteq> 0" "sl_pid (slocks s (SL_buf b)) = pid (ptab s p)" "bvalid (bufs s b)"
    "bdata (bufs s b) = content dev s n" "unat (brefcnt (bufs s b)) = refs dev s n" "refs dev s n \<noteq> 0"
proof -
  show sl: "slot dev (bufs s) n = Some b" and lk: "sl_locked (slocks s (SL_buf b)) \<noteq> 0"
    using assms(2) by (auto simp: held_buf_def split: option.splits if_splits)
  show b: "b < NBUF" "bblockno (bufs s b) = n" "bdev (bufs s b) = dev" using slot_Some [OF sl] by auto
  have "buf_ok dev (disk s) (pid (ptab s p)) (bufs s b) (slocks s (SL_buf b))"
    using assms(1) b(1) by (simp add: cache_inv_def)
  then show "sl_pid (slocks s (SL_buf b)) = pid (ptab s p)" and v: "bvalid (bufs s b)" and "refs dev s n \<noteq> 0"
    using lk sl by (auto simp: buf_ok_def refs_def unat_eq_0)
  show "bdata (bufs s b) = content dev s n" "unat (brefcnt (bufs s b)) = refs dev s n"
    using sl v by (simp_all add: content_def refs_def)
qed

lemma cache_clean:
  assumes "cache_inv p dev s" and "refs dev s n = 0"
  shows "content dev s n = disk s n" "held_buf dev s n = None"
proof -
  have ok: "buf_ok dev (disk s) (pid (ptab s p)) (bufs s b) (slocks s (SL_buf b))" if "slot dev (bufs s) n = Some b" for b
    using assms(1) slot_Some [OF that] by (simp add: cache_inv_def)
  show "content dev s n = disk s n" "held_buf dev s n = None"
    using assms(2) ok slot_Some [of dev "bufs s" n]
    by (cases "slot dev (bufs s) n"; simp add: content_def refs_def held_buf_def buf_ok_def unat_eq_0)+
qed

lemma room_for_one:
  assumes "cache_inv p dev s" and "card {m. refs dev s m \<noteq> 0} < NBUF"
  shows "\<exists>b<NBUF. brefcnt (bufs s b) = 0"
proof (rule ccontr)
  assume "\<not> ?thesis"
  then have used: "brefcnt (bufs s b) \<noteq> 0" if "b < NBUF" for b using that by blast
  have one: "one_buf dev (bufs s)" using assms(1) by (simp add: cache_inv_def)
  have dev: "bdev (bufs s b) = dev" if "b < NBUF" for b
    using assms(1) used [OF that] that by (auto simp: cache_inv_def buf_ok_def)
  have "(\<lambda>b. bblockno (bufs s b)) ` {0..<NBUF} \<subseteq> {m. refs dev s m \<noteq> 0}"
  proof (rule image_subsetI)
    fix b assume "b \<in> {0..<NBUF}"
    then have "b < NBUF" by simp
    then have "slot dev (bufs s) (bblockno (bufs s b)) = Some b" by (simp add: slot_eq [OF one] dev)
    then show "bblockno (bufs s b) \<in> {m. refs dev s m \<noteq> 0}" using used [OF \<open>b < NBUF\<close>] by (simp add: refs_def unat_gt_0)
  qed
  moreover have "inj_on (\<lambda>b. bblockno (bufs s b)) {0..<NBUF}"
    using one dev by (auto simp: inj_on_def one_buf_def)
  ultimately have "NBUF \<le> card {m. refs dev s m \<noteq> 0}"
    using card_mono [of "{m. refs dev s m \<noteq> 0}" "(\<lambda>b. bblockno (bufs s b)) ` {0..<NBUF}"]
    by (simp add: card_image)
  then show False using assms(2) by simp
qed

definition loaded :: "(u32 \<Rightarrow> block) \<Rightarrow> buf \<Rightarrow> buf" where
  "loaded d r = (if bvalid r then r else r\<lparr>bdata := d (bblockno r), bdisk := False, bvalid := True\<rparr>)"

lemma bread_bget:
  assumes "bget dev n s = Ok b (s\<lparr>bufs := (bufs s)(b := r), slocks := L\<rparr>)"
  shows "bread dev n s = Ok b (s\<lparr>bufs := (bufs s)(b := loaded (disk s) r), slocks := L\<rparr>)"
  using assms by (simp add: bread_def exec disk_rw_def upd_buf_def loaded_def)

lemma find_rev_Some:
  assumes "x \<in> set xs" and "P x"
  shows "\<exists>y \<in> set xs. List.find P (rev xs) = Some y \<and> P y"
proof (cases "List.find P (rev xs)")
  case (Some y)
  then have "y \<in> set (rev xs) \<and> P y" by (metis find_Some_iff nth_mem)
  then show ?thesis using Some by simp
qed (use assms in \<open>simp add: find_None_iff\<close>)


lemma bread_law:
  assumes inv: "cache_inv p dev s" and free: "held_buf dev s n = None"
    and room: "refs dev s n \<noteq> 0 \<or> card {m. refs dev s m \<noteq> 0} < NBUF" and max: "refs dev s n < 2 ^ 32 - 1"
  shows "\<exists>b t. bread dev n s = Ok b t \<and> cache_inv p dev t \<and> content dev t = content dev s \<and>
    refs dev t = (refs dev s)(n := Suc (refs dev s n)) \<and> held_buf dev t = (held_buf dev s)(n := Some b) \<and>
    disk_wr t = disk_wr s \<and> disk_img t = disk_img s \<and> bcache.more t = bcache.more s"
proof -
  obtain xs where xs: "ring (bufs s) xs" using inv by (auto simp: cache_inv_def)
  have calm: "calm p s" and one: "one_buf dev (bufs s)" using inv by (simp_all add: cache_inv_def)
  note fnd = find_ring_slot [OF xs one]
  let ?L = "\<lambda>b. (slocks s)(SL_buf b := sl_taken (pid (ptab s p)) (slocks s (SL_buf b)))"
  have fin: ?thesis
    if get: "bget dev n s = Ok b (s\<lparr>bufs := (bufs s)(b := r), slocks := ?L b\<rparr>)" and "b < NBUF"
      and "bnext r = bnext (bufs s b)" "bprev r = bprev (bufs s b)" "bdev r = dev" "bblockno r = n"
      and "bdata (loaded (disk s) r) = content dev s n" "unat (brefcnt r) = Suc (refs dev s n)"
      and "slot dev (bufs s) n = Some b \<or> slot dev (bufs s) n = None \<and> brefcnt (bufs s b) = 0" for b r
  proof -
    let ?t = "s\<lparr>bufs := (bufs s)(b := loaded (disk s) r), slocks := ?L b\<rparr>"
    have "bread dev n s = Ok b ?t" using get by (rule bread_bget)
    moreover have "cache_inv p dev ?t \<and> content dev ?t = content dev s \<and>
      refs dev ?t = (refs dev s)(n := Suc (refs dev s n)) \<and> held_buf dev ?t = (held_buf dev s)(n := Some b)"
      by (rule load_law [OF inv, of b "loaded (disk s) r"]) (use that in \<open>simp_all add: loaded_def\<close>)
    ultimately show ?thesis by simp
  qed
  show ?thesis
  proof (cases "slot dev (bufs s) n")
    case (Some b)
    have "sl_locked (slocks s (SL_buf b)) = 0" using free Some by (simp add: held_buf_def split: if_splits)
    then have get: "bget dev n s = Ok b (s\<lparr>bufs := (bufs s)(b := (bufs s b)\<lparr>brefcnt := brefcnt (bufs s b) + 1\<rparr>), slocks := ?L b\<rparr>)"
      using bget_hit [OF calm xs] Some fnd by simp
    have "unat (brefcnt (bufs s b) + 1) = Suc (refs dev s n)"
      using max Some by (simp add: refs_def unat_word_ariths)
    then show ?thesis
      using Some slot_Some [OF Some] by (intro fin [OF get]) (simp_all add: loaded_def content_def)
  next
    case None
    then have "\<exists>b \<in> set xs. brefcnt (bufs s b) = 0"
      using room room_for_one [OF inv] xs by (auto simp: refs_def ring_def)
    then obtain b where b: "b \<in> set xs" "List.find (\<lambda>b. brefcnt (bufs s b) = 0) (rev xs) = Some b" "brefcnt (bufs s b) = 0"
      using find_rev_Some [of _ xs "\<lambda>b. brefcnt (bufs s b) = 0"] by blast
    then have "b < NBUF" using xs by (simp add: ring_def)
    then have "sl_locked (slocks s (SL_buf b)) = 0" using inv b(3) by (simp add: cache_inv_def buf_ok_def)
    then have get: "bget dev n s = Ok b (s\<lparr>bufs := (bufs s)(b := (bufs s b)\<lparr>bdev := dev, bblockno := n, bvalid := False, brefcnt := 1\<rparr>), slocks := ?L b\<rparr>)"
      using bget_miss [OF calm xs] None fnd b(2) by simp
    show ?thesis
      using None b \<open>b < NBUF\<close> by (intro fin [OF get]) (simp_all add: loaded_def content_def refs_def)
  qed
qed

lemma upd_data_law:
  assumes inv: "cache_inv p dev s" and held: "held_buf dev s n = Some b"
  shows "\<exists>t. upd_buf b (\<lambda>r. r\<lparr>bdata := g (bdata r)\<rparr>) s = Ok () t \<and> cache_inv p dev t \<and>
    content dev t = (content dev s)(n := g (content dev s n)) \<and> refs dev t = refs dev s \<and> held_buf dev t = held_buf dev s \<and>
    disk_wr t = disk_wr s \<and> disk_img t = disk_img s \<and> bcache.more t = bcache.more s"
proof -
  note h = held_facts [OF inv held]
  let ?t = "s\<lparr>bufs := (bufs s)(b := (bufs s b)\<lparr>bdata := g (bdata (bufs s b))\<rparr>)\<rparr>"
  have "buf_ok dev (disk s) (pid (ptab s p)) (bufs s b) (slocks s (SL_buf b))"
    using inv h(2) by (simp add: cache_inv_def)
  then have ok: "buf_ok dev (disk s) (pid (ptab s p)) (bufs ?t b) (slocks ?t (SL_buf b))"
    using h by (simp add: buf_ok_def)
  have "cache_inv p dev ?t \<and> content dev ?t = (content dev s)(n := bdata (bufs ?t b)) \<and>
    refs dev ?t = (refs dev s)(n := unat (brefcnt (bufs ?t b))) \<and>
    held_buf dev ?t = (held_buf dev s)(n := if sl_locked (slocks ?t (SL_buf b)) \<noteq> 0 then Some b else None)"
    by (rule store_law [OF inv h(1)])
      (use h ok inv ring_cong [of "bufs ?t" "bufs s"] in \<open>auto simp: cache_inv_def\<close>)
  then show ?thesis using h held by (simp add: upd_buf_def fun_upd_idem)
qed

lemma bwrite_law:
  assumes inv: "cache_inv p dev s" and held: "held_buf dev s n = Some b"
  shows "\<exists>t. bwrite b s = Ok () t \<and> cache_inv p dev t \<and> content dev t = content dev s \<and> refs dev t = refs dev s \<and>
    held_buf dev t = held_buf dev s \<and> disk_wr t = disk_wr s @ [(n, content dev s n)] \<and> disk_img t = disk_img s \<and>
    bcache.more t = bcache.more s"
proof -
  note h = held_facts [OF inv held]
  have calm: "calm p s" using inv by (simp add: cache_inv_def)
  let ?t = "s\<lparr>disk_wr := disk_wr s @ [(n, bdata (bufs s b))], bufs := (bufs s)(b := (bufs s b)\<lparr>bdisk := False\<rparr>)\<rparr>"
  have "buf_ok dev (disk s) (pid (ptab s p)) (bufs s b) (slocks s (SL_buf b))"
    using inv h(2) by (simp add: cache_inv_def)
  then have ok: "buf_ok dev (disk ?t) (pid (ptab s p)) (bufs ?t b) (slocks ?t (SL_buf b))"
    using h by (simp add: buf_ok_def)
  have "cache_inv p dev ?t \<and> content dev ?t = (content dev s)(n := bdata (bufs ?t b)) \<and>
    refs dev ?t = (refs dev s)(n := unat (brefcnt (bufs ?t b))) \<and>
    held_buf dev ?t = (held_buf dev s)(n := if sl_locked (slocks ?t (SL_buf b)) \<noteq> 0 then Some b else None)"
    by (rule store_law [OF inv h(1)])
      (use h ok calm inv ring_cong [of "bufs ?t" "bufs s"] in \<open>auto simp: cache_inv_def disk_append\<close>)
  moreover have "bwrite b s = Ok () ?t" using h calm by (simp add: bwrite_def exec holdingsleep_calm disk_rw_def)
  ultimately show ?thesis using h held by (simp add: fun_upd_idem)
qed

lemma bunpin_law:
  assumes inv: "cache_inv p dev s" and held: "held_buf dev s n = Some b" and "2 \<le> refs dev s n"
  shows "\<exists>t. bunpin b s = Ok () t \<and> cache_inv p dev t \<and> content dev t = content dev s \<and>
    refs dev t = (refs dev s)(n := refs dev s n - 1) \<and> held_buf dev t = held_buf dev s \<and> disk_wr t = disk_wr s \<and>
    disk_img t = disk_img s \<and> bcache.more t = bcache.more s"
proof -
  note h = held_facts [OF inv held]
  have calm: "calm p s" using inv by (simp add: cache_inv_def)
  let ?t = "s\<lparr>bufs := (bufs s)(b := unref (bufs s b))\<rparr>"
  have "brefcnt (bufs s b) \<noteq> 0" using h(9,10) by (metis unat_0)
  then have less: "unat (brefcnt (bufs s b) - 1) = refs dev s n - 1"
    using Word.unat_minus_one [of "brefcnt (bufs s b)"] h(9) by simp
  have "buf_ok dev (disk s) (pid (ptab s p)) (bufs s b) (slocks s (SL_buf b))"
    using inv h(2) by (simp add: cache_inv_def)
  moreover have "brefcnt (bufs s b) - 1 \<noteq> 0"
  proof
    assume "brefcnt (bufs s b) - 1 = 0"
    then have "refs dev s n - 1 = 0" using less by simp
    then show False using assms(3) by simp
  qed
  ultimately have ok: "buf_ok dev (disk ?t) (pid (ptab s p)) (bufs ?t b) (slocks ?t (SL_buf b))"
    using h by (simp add: buf_ok_def unref_def)
  have "cache_inv p dev ?t \<and> content dev ?t = (content dev s)(n := bdata (bufs ?t b)) \<and>
    refs dev ?t = (refs dev s)(n := unat (brefcnt (bufs ?t b))) \<and>
    held_buf dev ?t = (held_buf dev s)(n := if sl_locked (slocks ?t (SL_buf b)) \<noteq> 0 then Some b else None)"
    by (rule store_law [OF inv h(1)])
      (use h ok calm inv ring_cong [of "bufs ?t" "bufs s"] in \<open>auto simp: cache_inv_def unref_def\<close>)
  moreover have "bunpin b s = Ok () ?t" unfolding bunpin_def
    using calm by (intro locking_Ok) (simp_all add: calm_simps upd_buf_def unref_def)
  ultimately show ?thesis using h held less by (simp add: fun_upd_idem unref_def)
qed

lemma brelse_law:
  assumes inv: "cache_inv p dev s" and held: "held_buf dev s n = Some b"
    and clean: "2 \<le> refs dev s n \<or> content dev s n = disk s n"
  shows "\<exists>t. brelse b s = Ok () t \<and> cache_inv p dev t \<and> content dev t = content dev s \<and>
    refs dev t = (refs dev s)(n := refs dev s n - 1) \<and> held_buf dev t = (held_buf dev s)(n := None) \<and> disk_wr t = disk_wr s \<and>
    disk_img t = disk_img s \<and> bcache.more t = bcache.more s"
proof -
  note h = held_facts [OF inv held]
  have calm: "calm p s" using inv by (simp add: cache_inv_def)
  obtain xs where xs: "ring (bufs s) xs" using inv by (auto simp: cache_inv_def)
  let ?bs = "(bufs s)(b := unref (bufs s b))"
  let ?cs = "if brefcnt (?bs b) = 0 then front_bufs b ?bs else ?bs"
  let ?t = "s\<lparr>slocks := (slocks s)(SL_buf b := sl_freed (slocks s (SL_buf b))),
    ptab := woken p (C_sleeplock (SL_buf b)) (ptab s), bufs := ?cs\<rparr>"
  have "brefcnt (bufs s b) \<noteq> 0" using h(9,10) by (metis unat_0)
  then have less: "unat (brefcnt (bufs s b) - 1) = refs dev s n - 1"
    using Word.unat_minus_one [of "brefcnt (bufs s b)"] h(9) by simp
  have last: "brefcnt (bufs s b) = 1 \<Longrightarrow> refs dev s n = 1" using h(9) by (metis unat_1)
  have ring: "ring ?bs xs" using xs ring_cong [of ?bs "bufs s"] by (auto simp: unref_def)
  then have "\<exists>ys. ring ?cs ys" using ring_to_front [OF ring h(2)] by auto
  moreover have "buf_ok dev (disk ?t) (pid (ptab s p)) (bufs ?t b) (slocks ?t (SL_buf b))"
    using h less clean by (auto simp: buf_ok_def unref_def sl_freed_def unat_eq_0 [symmetric])
  ultimately have "cache_inv p dev ?t \<and> content dev ?t = (content dev s)(n := bdata (bufs ?t b)) \<and>
    refs dev ?t = (refs dev s)(n := unat (brefcnt (bufs ?t b))) \<and>
    held_buf dev ?t = (held_buf dev s)(n := if sl_locked (slocks ?t (SL_buf b)) \<noteq> 0 then Some b else None)"
    by (intro store_law [OF inv h(1)]) (use h calm in \<open>auto simp: unref_def\<close>)
  moreover have "unat (brefcnt (bufs ?t b)) = refs dev s n - 1" "bdata (bufs ?t b) = content dev s n"
    "sl_locked (slocks ?t (SL_buf b)) = 0"
    using h less last by (simp_all add: unref_def sl_freed_def)
  moreover have "brelse b s = Ok () ?t" using h calm by (simp add: brelse_calm Let_def)
  ultimately show ?thesis by (intro exI [of _ ?t]) (simp add: fun_upd_idem)
qed

subsection \<open>The interface of the cache\<close>

text \<open>
  What a client of the cache sees: the contents of the blocks, how often a block is referenced,
  by which buffer the process holds it, what was on the disk at the start and what has been
  written to it since; and the rest of the state, which the cache does not touch.
\<close>

record ('b, 'f) cache_view =
  cv_content :: "u32 \<Rightarrow> block"
  cv_refs :: "u32 \<Rightarrow> nat"
  cv_held :: "u32 \<Rightarrow> 'b option"
  cv_base :: "u32 \<Rightarrow> block"
  cv_writes :: "(u32 \<times> block) list"
  cv_rest :: 'f

definition cv_disk :: "('b, 'f) cache_view \<Rightarrow> u32 \<Rightarrow> block" where
  "cv_disk v = apply_writes (cv_writes v) (cv_base v)"

lemma cv_disk_simps [simp]:
  "cv_disk (v\<lparr>cv_content := c\<rparr>) = cv_disk v" "cv_disk (v\<lparr>cv_refs := r\<rparr>) = cv_disk v"
  "cv_disk (v\<lparr>cv_held := h\<rparr>) = cv_disk v"
  "cv_disk (v\<lparr>cv_writes := cv_writes v @ [(n, d)]\<rparr>) = (cv_disk v)(n := d)"
  by (simp_all add: cv_disk_def apply_writes_def)

locale block_cache =
  fixes inv :: "'s \<Rightarrow> bool" and obs :: "'s \<Rightarrow> ('b, 'f) cache_view"
    and rd :: "u32 \<Rightarrow> ('s, 'b) kfun" and dat :: "'s \<Rightarrow> 'b \<Rightarrow> block" and md :: "'b \<Rightarrow> (block \<Rightarrow> block) \<Rightarrow> ('s, unit) kfun"
    and wr :: "'b \<Rightarrow> ('s, unit) kfun" and rl :: "'b \<Rightarrow> ('s, unit) kfun" and up :: "'b \<Rightarrow> ('s, unit) kfun"
  assumes clean: "\<And>s n. inv s \<Longrightarrow> cv_refs (obs s) n = 0 \<Longrightarrow> cv_content (obs s) n = cv_disk (obs s) n"
    and held_data: "\<And>s n b. inv s \<Longrightarrow> cv_held (obs s) n = Some b \<Longrightarrow> dat s b = cv_content (obs s) n"
    and rd_law: "\<And>s v n. inv s \<Longrightarrow> obs s = v \<Longrightarrow> cv_held v n = None \<Longrightarrow>
        cv_refs v n \<noteq> 0 \<or> card {m. cv_refs v m \<noteq> 0} < NBUF \<Longrightarrow> cv_refs v n < 2 ^ 32 - 1 \<Longrightarrow>
        runs (rd n) s (\<lambda>b t. inv t \<and>
          obs t = v\<lparr>cv_refs := (cv_refs v)(n := Suc (cv_refs v n)), cv_held := (cv_held v)(n := Some b)\<rparr>)"
    and md_law: "\<And>s v n b g. inv s \<Longrightarrow> obs s = v \<Longrightarrow> cv_held v n = Some b \<Longrightarrow>
        runs (md b g) s (\<lambda>_ t. inv t \<and> obs t = v\<lparr>cv_content := (cv_content v)(n := g (cv_content v n))\<rparr>)"
    and wr_law: "\<And>s v n b. inv s \<Longrightarrow> obs s = v \<Longrightarrow> cv_held v n = Some b \<Longrightarrow>
        runs (wr b) s (\<lambda>_ t. inv t \<and> obs t = v\<lparr>cv_writes := cv_writes v @ [(n, cv_content v n)]\<rparr>)"
    and rl_law: "\<And>s v n b. inv s \<Longrightarrow> obs s = v \<Longrightarrow> cv_held v n = Some b \<Longrightarrow>
        2 \<le> cv_refs v n \<or> cv_content v n = cv_disk v n \<Longrightarrow>
        runs (rl b) s (\<lambda>_ t. inv t \<and>
          obs t = v\<lparr>cv_refs := (cv_refs v)(n := cv_refs v n - 1), cv_held := (cv_held v)(n := None)\<rparr>)"
    and up_law: "\<And>s v n b. inv s \<Longrightarrow> obs s = v \<Longrightarrow> cv_held v n = Some b \<Longrightarrow> 2 \<le> cv_refs v n \<Longrightarrow>
        runs (up b) s (\<lambda>_ t. inv t \<and> obs t = v\<lparr>cv_refs := (cv_refs v)(n := cv_refs v n - 1)\<rparr>)"
begin

text \<open>Copying a block to another one and writing that, as the log does in its two directions.\<close>

lemma copy_to:
  assumes "inv s" and "obs s = v" and "a \<noteq> n" and "cv_held v a = None" and "cv_held v n = None"
    and "cv_refs v n = 1" and "cv_refs v a = 0" and "card {m. cv_refs v m \<noteq> 0} < NBUF"
  shows "runs (bnd (rd a) (\<lambda>to. bnd (rd n) (\<lambda>src. bnd (bnd (gets (\<lambda>s. dat s src)) (\<lambda>d. md to (\<lambda>_. d))) (\<lambda>_.
      bnd (wr to) (\<lambda>_. bnd (rl src) (\<lambda>_. rl to)))))) s
    (\<lambda>_ t. inv t \<and> obs t = v\<lparr>cv_content := (cv_content v)(a := cv_content v n),
       cv_writes := cv_writes v @ [(a, cv_content v n)]\<rparr>)"
proof -
  obtain to t1 where t1: "rd a s = Ok to t1" "inv t1"
      "obs t1 = v\<lparr>cv_refs := (cv_refs v)(a := 1), cv_held := (cv_held v)(a := Some to)\<rparr>"
    using rd_law [OF assms(1,2), of a] assms by (auto simp: runs_def)
  obtain src t2 where t2: "rd n t1 = Ok src t2" "inv t2"
      "obs t2 = v\<lparr>cv_refs := (cv_refs v)(a := 1, n := Suc (Suc 0)), cv_held := (cv_held v)(a := Some to, n := Some src)\<rparr>"
    using rd_law [OF t1(2,3), of n] assms by (auto simp: runs_def)
  have d: "dat t2 src = cv_content v n" using held_data [OF t2(2), of n src] t2(3) by simp
  obtain t3 where t3: "md to (\<lambda>_. dat t2 src) t2 = Ok () t3" "inv t3"
      "obs t3 = v\<lparr>cv_content := (cv_content v)(a := cv_content v n), cv_refs := (cv_refs v)(a := 1, n := Suc (Suc 0)),
        cv_held := (cv_held v)(a := Some to, n := Some src)\<rparr>"
    using md_law [OF t2(2,3), of a to "\<lambda>_. dat t2 src"] assms(3) d by (auto simp: runs_def)
  obtain t4 where t4: "wr to t3 = Ok () t4" "inv t4"
      "obs t4 = v\<lparr>cv_content := (cv_content v)(a := cv_content v n), cv_refs := (cv_refs v)(a := 1, n := Suc (Suc 0)),
        cv_held := (cv_held v)(a := Some to, n := Some src), cv_writes := cv_writes v @ [(a, cv_content v n)]\<rparr>"
    using wr_law [OF t3(2,3), of a to] assms(3) by (auto simp: runs_def)
  obtain t5 where t5: "rl src t4 = Ok () t5" "inv t5"
      "obs t5 = v\<lparr>cv_content := (cv_content v)(a := cv_content v n), cv_refs := (cv_refs v)(a := 1),
        cv_held := (cv_held v)(a := Some to), cv_writes := cv_writes v @ [(a, cv_content v n)]\<rparr>"
    using rl_law [OF t4(2,3), of n src] assms by (auto simp: runs_def fun_upd_idem fun_upd_twist)
  obtain t6 where t6: "rl to t5 = Ok () t6" "inv t6"
      "obs t6 = v\<lparr>cv_content := (cv_content v)(a := cv_content v n), cv_writes := cv_writes v @ [(a, cv_content v n)]\<rparr>"
    using rl_law [OF t5(2,3), of a to] assms by (auto simp: runs_def fun_upd_idem cv_disk_def apply_writes_def)
  show ?thesis using t1(1) t2(1) t3(1) t4(1) t5(1) t6 by (simp add: runs_def bnd_apply)
qed

lemma copy_back:
  assumes "inv s" and "obs s = v" and "a \<noteq> n" and "cv_held v a = None" and "cv_held v n = None" and "cv_refs v a = 0"
    and k: "cv_refs v n = (if recovering then 0 else 1)"
    and room: "card {m. cv_refs v m \<noteq> 0} + (if recovering then 1 else 0) < NBUF"
  shows "runs (bnd (rd a) (\<lambda>src. bnd (rd n) (\<lambda>to. bnd (bnd (gets (\<lambda>s. dat s src)) (\<lambda>d. md to (\<lambda>_. d))) (\<lambda>_.
      bnd (wr to) (\<lambda>_. bnd (do_if (\<not> recovering) (up to)) (\<lambda>_. bnd (rl src) (\<lambda>_. rl to))))))) s
    (\<lambda>_ t. inv t \<and> obs t = v\<lparr>cv_content := (cv_content v)(n := cv_content v a), cv_refs := (cv_refs v)(n := 0),
       cv_writes := cv_writes v @ [(n, cv_content v a)]\<rparr>)"
proof -
  obtain src t1 where t1: "rd a s = Ok src t1" "inv t1"
      "obs t1 = v\<lparr>cv_refs := (cv_refs v)(a := 1), cv_held := (cv_held v)(a := Some src)\<rparr>"
    using rd_law [OF assms(1,2), of a] assms by (auto simp: runs_def split: if_splits)
  have "{m. cv_refs (obs t1) m \<noteq> 0} = insert a {m. cv_refs v m \<noteq> 0}" by (auto simp: t1(3))
  then have more: "cv_refs (obs t1) n \<noteq> 0 \<or> card {m. cv_refs (obs t1) m \<noteq> 0} < NBUF"
    using room k assms(3,6) t1(3) by (cases recovering) (simp_all add: card_insert_if)
  obtain to t2 where t2: "rd n t1 = Ok to t2" "inv t2"
      "obs t2 = v\<lparr>cv_refs := (cv_refs v)(a := 1, n := Suc (cv_refs v n)), cv_held := (cv_held v)(a := Some src, n := Some to)\<rparr>"
    using rd_law [OF t1(2) refl _ more] assms(3,5) k unfolding t1(3) by (auto simp: runs_def split: if_splits)
  have d: "dat t2 src = cv_content v a" using held_data [OF t2(2), of a src] t2(3) assms(3) by simp
  obtain t3 where t3: "md to (\<lambda>_. dat t2 src) t2 = Ok () t3" "inv t3"
      "obs t3 = v\<lparr>cv_content := (cv_content v)(n := cv_content v a), cv_refs := (cv_refs v)(a := 1, n := Suc (cv_refs v n)),
        cv_held := (cv_held v)(a := Some src, n := Some to)\<rparr>"
    using md_law [OF t2(2,3), of n to "\<lambda>_. dat t2 src"] assms(3) d by (auto simp: runs_def)
  obtain t4 where t4: "wr to t3 = Ok () t4" "inv t4"
      "obs t4 = v\<lparr>cv_content := (cv_content v)(n := cv_content v a), cv_refs := (cv_refs v)(a := 1, n := Suc (cv_refs v n)),
        cv_held := (cv_held v)(a := Some src, n := Some to), cv_writes := cv_writes v @ [(n, cv_content v a)]\<rparr>"
    using wr_law [OF t3(2,3), of n to] assms(3) by (auto simp: runs_def)
  obtain t5 where t5: "do_if (\<not> recovering) (up to) t4 = Ok () t5" "inv t5"
      "obs t5 = v\<lparr>cv_content := (cv_content v)(n := cv_content v a), cv_refs := (cv_refs v)(a := 1, n := 1),
        cv_held := (cv_held v)(a := Some src, n := Some to), cv_writes := cv_writes v @ [(n, cv_content v a)]\<rparr>"
    using up_law [OF t4(2,3), of n to] t4(2,3) k by (cases recovering) (auto simp: runs_def do_if_def)
  have "cv_content v a = cv_disk v a" using clean [OF assms(1)] assms(2,6) by simp
  then obtain t6 where t6: "rl src t5 = Ok () t6" "inv t6"
      "obs t6 = v\<lparr>cv_content := (cv_content v)(n := cv_content v a), cv_refs := (cv_refs v)(n := 1),
        cv_held := (cv_held v)(n := Some to), cv_writes := cv_writes v @ [(n, cv_content v a)]\<rparr>"
    using rl_law [OF t5(2,3), of a src] assms(3-6)
    by (auto simp: runs_def fun_upd_idem fun_upd_twist cv_disk_def apply_writes_def)
  obtain t7 where t7: "rl to t6 = Ok () t7" "inv t7"
      "obs t7 = v\<lparr>cv_content := (cv_content v)(n := cv_content v a), cv_refs := (cv_refs v)(n := 0),
        cv_writes := cv_writes v @ [(n, cv_content v a)]\<rparr>"
    using rl_law [OF t6(2,3), of n to] assms(5) by (auto simp: runs_def fun_upd_idem cv_disk_def apply_writes_def)
  show ?thesis using t1(1) t2(1) t3(1) t4(1) t5(1) t6(1) t7 by (simp add: runs_def bnd_apply)
qed

text \<open>Several changes of a block that is held.\<close>

lemma md_loop:
  assumes "inv s" and "obs s = v" and "cv_held v n = Some b"
  shows "runs (for_each xs (\<lambda>i. md b (h i))) s
    (\<lambda>_ t. inv t \<and> obs t = v\<lparr>cv_content := (cv_content v)(n := fold h xs (cv_content v n))\<rparr>)"
  using assms
proof (induction xs arbitrary: s v)
  case Nil
  then show ?case by (auto simp: runs_def)
next
  case (Cons i xs)
  obtain t where t: "md b (h i) s = Ok () t" "inv t" "obs t = v\<lparr>cv_content := (cv_content v)(n := h i (cv_content v n))\<rparr>"
    using md_law [OF Cons.prems] by (auto simp: runs_def)
  then show ?case using Cons.IH [OF t(2,3)] Cons.prems(3) by (auto simp: runs_def bnd_apply cong: if_cong)
qed

end

text \<open>The kernel's cache, seen from its running process \<open>p\<close>, for one device.\<close>

definition cache_obs :: "u32 \<Rightarrow> 'a bcache_scheme \<Rightarrow> (nat, 'a) cache_view" where
  "cache_obs dev s = \<lparr>cv_content = content dev s, cv_refs = refs dev s, cv_held = held_buf dev s,
     cv_base = disk_img s, cv_writes = disk_wr s, cv_rest = bcache.more s\<rparr>"

lemma cv_disk_obs [simp]: "cv_disk (cache_obs dev s) = disk s"
  by (simp add: cv_disk_def cache_obs_def disk_def)

lemma cache_obs_sel [simp]:
  "cv_content (cache_obs dev s) = content dev s" "cv_refs (cache_obs dev s) = refs dev s"
  "cv_held (cache_obs dev s) = held_buf dev s" "cv_base (cache_obs dev s) = disk_img s"
  "cv_writes (cache_obs dev s) = disk_wr s" "cv_rest (cache_obs dev s) = bcache.more s"
  by (simp_all add: cache_obs_def)

interpretation bc: block_cache "cache_inv p dev" "cache_obs dev" "bread dev" "\<lambda>s b. bdata (bufs s b)"
  "\<lambda>b g. upd_buf b (\<lambda>r. r\<lparr>bdata := g (bdata r)\<rparr>)" bwrite brelse bunpin for p dev
proof
  fix s :: "'a bcache_scheme" and v n b g
  assume inv: "cache_inv p dev s"
  show "cv_refs (cache_obs dev s) n = 0 \<Longrightarrow> cv_content (cache_obs dev s) n = cv_disk (cache_obs dev s) n"
    using cache_clean [OF inv, of n] by simp
  show "cv_held (cache_obs dev s) n = Some b \<Longrightarrow> bdata (bufs s b) = cv_content (cache_obs dev s) n"
    using held_facts(8) [OF inv, of n b] by simp
  assume v: "cache_obs dev s = v"
  show "runs (bread dev n) s (\<lambda>b t. cache_inv p dev t \<and>
      cache_obs dev t = v\<lparr>cv_refs := (cv_refs v)(n := Suc (cv_refs v n)), cv_held := (cv_held v)(n := Some b)\<rparr>)"
    if "cv_held v n = None" "cv_refs v n \<noteq> 0 \<or> card {m. cv_refs v m \<noteq> 0} < NBUF" "cv_refs v n < 2 ^ 32 - 1"
    using bread_law [OF inv, of n] that by (fastforce simp: runs_def v [symmetric] cache_obs_def)
  show "runs (upd_buf b (\<lambda>r. r\<lparr>bdata := g (bdata r)\<rparr>)) s (\<lambda>_ t. cache_inv p dev t \<and>
      cache_obs dev t = v\<lparr>cv_content := (cv_content v)(n := g (cv_content v n))\<rparr>)" if "cv_held v n = Some b"
    using upd_data_law [OF inv, of n b g] that by (fastforce simp: runs_def v [symmetric] cache_obs_def)
  show "runs (bwrite b) s (\<lambda>_ t. cache_inv p dev t \<and>
      cache_obs dev t = v\<lparr>cv_writes := cv_writes v @ [(n, cv_content v n)]\<rparr>)" if "cv_held v n = Some b"
    using bwrite_law [OF inv, of n b] that by (fastforce simp: runs_def v [symmetric] cache_obs_def)
  show "runs (brelse b) s (\<lambda>_ t. cache_inv p dev t \<and>
      cache_obs dev t = v\<lparr>cv_refs := (cv_refs v)(n := cv_refs v n - 1), cv_held := (cv_held v)(n := None)\<rparr>)"
    if "cv_held v n = Some b" "2 \<le> cv_refs v n \<or> cv_content v n = cv_disk v n"
    using brelse_law [OF inv, of n b] that by (fastforce simp: runs_def v [symmetric] cache_obs_def cv_disk_def disk_def)
  show "runs (bunpin b) s (\<lambda>_ t. cache_inv p dev t \<and> cache_obs dev t = v\<lparr>cv_refs := (cv_refs v)(n := cv_refs v n - 1)\<rparr>)"
    if "cv_held v n = Some b" "2 \<le> cv_refs v n"
    using bunpin_law [OF inv, of n b] that by (fastforce simp: runs_def v [symmetric] cache_obs_def)
qed

subsection \<open>A concrete cache\<close>

text \<open>All buffers are empty; the list has them in the order of the array.\<close>

definition boot_buf :: "nat \<Rightarrow> buf" where
  "boot_buf i = \<lparr>bvalid = False, bdisk = False, bdev = 0, bblockno = 0, brefcnt = 0,
     bprev = (if i = 0 then NBUF else i - 1), bnext = (if i = NBUF then 0 else i + 1), bdata = (\<lambda>_. 0)\<rparr>"

definition boot_bcache :: "'a \<Rightarrow> 'a bcache_scheme" where
  "boot_bcache m = boot_sleeplocks \<lparr>bufs = boot_buf, disk_img = (\<lambda>_ _. 0), disk_wr = [], \<dots> = m\<rparr>"

lemma boot_bcache_simps [simp]:
  "calm 0 (boot_bcache m)" "slocks (boot_bcache m) l = \<lparr>sl_locked = 0, sl_name = [], sl_pid = 0\<rparr>"
  "bufs (boot_bcache m) = boot_buf" "disk_wr (boot_bcache m) = []" "disk_img (boot_bcache m) = (\<lambda>_ _. 0)"
  "disk (boot_bcache m) = (\<lambda>_ _. 0)" "ptab (boot_bcache m) i = idle_proc" "bcache.more (boot_bcache m) = m"
  by (simp_all add: boot_bcache_def disk_def apply_writes_def)
    (simp_all add: boot_sleeplocks_def boot_consol_def boot_procs_def)

lemma boot_ring: "ring boot_buf [0..<NBUF]"
  by code_simp

lemma boot_ring_upd: "bnext r = bnext (boot_buf i) \<Longrightarrow> bprev r = bprev (boot_buf i) \<Longrightarrow> ring (boot_buf(i := r)) [0..<NBUF]"
  using boot_ring ring_cong [of "boot_buf(i := r)" boot_buf] by auto

lemma boot_cache_inv: "dev \<noteq> 0 \<Longrightarrow> cache_inv 0 dev (boot_bcache m)"
  using boot_ring by (auto simp: cache_inv_def one_buf_def buf_ok_def boot_buf_def [of "_ :: nat"])


subsection \<open>Replacement is least recently used\<close>

text \<open>
  Claim C8.  The doubly linked list implements a queue of buffers ordered by their last release.
  A miss takes the unused buffer that is last in the queue and leaves the queue as it is; if no
  buffer is unused it panics.  A release that drops the last reference moves the buffer to the
  front of the queue; any other release leaves the queue as it is.
\<close>

theorem bcache_lru:
  assumes "calm p s" and "ring (bufs s) xs"
  shows "(\<forall>dev n. List.find (\<lambda>b. bdev (bufs s b) = dev \<and> bblockno (bufs s b) = n) xs = None \<longrightarrow>
      (case List.find (\<lambda>b. brefcnt (bufs s b) = 0) (rev xs) of
         None \<Rightarrow> bget dev n s = Panic ''bget: no buffers''
       | Some b \<Rightarrow> sl_locked (slocks s (SL_buf b)) = 0 \<longrightarrow> (\<exists>t. bget dev n s = Ok b t \<and> ring (bufs t) xs))) \<and>
    (\<forall>b<NBUF. sl_locked (slocks s (SL_buf b)) \<noteq> 0 \<longrightarrow> sl_pid (slocks s (SL_buf b)) = pid (ptab s p) \<longrightarrow>
      (\<exists>t. brelse b s = Ok () t \<and> ring (bufs t) (if brefcnt (bufs s b) = 1 then b # remove1 b xs else xs)))"
proof (intro conjI allI impI)
  fix dev n
  assume miss: "List.find (\<lambda>b. bdev (bufs s b) = dev \<and> bblockno (bufs s b) = n) xs = None"
  show "case List.find (\<lambda>b. brefcnt (bufs s b) = 0) (rev xs) of
         None \<Rightarrow> bget dev n s = Panic ''bget: no buffers''
       | Some b \<Rightarrow> sl_locked (slocks s (SL_buf b)) = 0 \<longrightarrow> (\<exists>t. bget dev n s = Ok b t \<and> ring (bufs t) xs)"
  proof (cases "List.find (\<lambda>b. brefcnt (bufs s b) = 0) (rev xs)")
    case None
    then show ?thesis using bget_full [OF assms miss None] by simp
  next
    case (Some b)
    let ?r = "(bufs s b)\<lparr>bdev := dev, bblockno := n, bvalid := False, brefcnt := 1\<rparr>"
    have "ring ((bufs s)(b := ?r)) xs" using assms(2) ring_cong [of "(bufs s)(b := ?r)" "bufs s"] by auto
    then show ?thesis using bget_miss [OF assms miss Some] Some by simp
  qed
next
  fix b
  assume b: "b < NBUF" "sl_locked (slocks s (SL_buf b)) \<noteq> 0" "sl_pid (slocks s (SL_buf b)) = pid (ptab s p)"
  let ?bs = "(bufs s)(b := unref (bufs s b))"
  have ring: "ring ?bs xs" using assms(2) ring_cong [of ?bs "bufs s"] by (auto simp: unref_def)
  then show "\<exists>t. brelse b s = Ok () t \<and> ring (bufs t) (if brefcnt (bufs s b) = 1 then b # remove1 b xs else xs)"
    using ring_to_front [OF ring b(1)] brelse_calm [OF assms(1) b(2,3)] by (auto simp: Let_def unref_def)
qed

theorem bcache_lru_witness: "\<exists>t. bget 1 7 (boot_bcache ()) = Ok 29 t \<and> ring (bufs t) [0..<NBUF]"
proof -
  have miss: "List.find (\<lambda>b. bdev (boot_buf b) = 1 \<and> bblockno (boot_buf b) = 7) [0..<NBUF] = None"
    by (simp add: find_None_iff boot_buf_def)
  have "List.find (\<lambda>b. brefcnt (boot_buf b) = 0) (rev [0..<NBUF]) = Some 29" by code_simp
  then show ?thesis using bcache_lru [of 0 "boot_bcache ()" "[0..<NBUF]"] boot_ring miss by simp
qed

end
