(* ===== verification/Xv6_Log.thy ===== *)
theory Xv6_Log
  imports Xv6_Bio
begin

text \<open>
  The redo log, \<^verbatim>\<open>kernel/log.c\<close>.  The in-memory header is the pair \<open>lh_n\<close>, \<open>lh_block\<close>; on
  disk it is a block that starts with the count and the block numbers as little-endian
  32-bit words.  \<open>lh_block\<close> has an entry for every index, where the array of the code has
  \<open>LOGSIZE\<close>: what lies behind the array is not modelled further.
\<close>

subsection \<open>Words inside a block\<close>

definition get16 :: "block \<Rightarrow> nat \<Rightarrow> u16" where
  "get16 d i = ucast (d i) OR push_bit 8 (ucast (d (i + 1)))"

definition put16 :: "nat \<Rightarrow> u16 \<Rightarrow> block \<Rightarrow> block" where
  "put16 i v d = d(i := ucast v, i + 1 := ucast (drop_bit 8 v))"

definition get32 :: "block \<Rightarrow> nat \<Rightarrow> u32" where
  "get32 d i = ucast (d i) OR push_bit 8 (ucast (d (i + 1))) OR
     push_bit 16 (ucast (d (i + 2))) OR push_bit 24 (ucast (d (i + 3)))"

definition put32 :: "nat \<Rightarrow> u32 \<Rightarrow> block \<Rightarrow> block" where
  "put32 i v d = d(i := ucast v, i + 1 := ucast (drop_bit 8 v),
     i + 2 := ucast (drop_bit 16 v), i + 3 := ucast (drop_bit 24 v))"

subsection \<open>State\<close>

record superblock =
  sb_magic :: u32
  sb_size :: u32
  sb_nblocks :: u32
  sb_ninodes :: u32
  sb_nlog :: u32
  sb_logstart :: u32
  sb_inodestart :: u32
  sb_bmapstart :: u32

record logs = bcache +
  log_start :: u32
  log_size :: int
  outstanding :: int
  committing :: bool
  log_dev :: u32
  lh_n :: int
  lh_block :: "nat \<Rightarrow> u32"

definition sizeof_logheader :: nat where "sizeof_logheader = 4 + 4 * nat LOGSIZE"

subsection \<open>Header and recovery\<close>

definition copy_block :: "nat \<Rightarrow> nat \<Rightarrow> ('a bcache_scheme, unit) kfun" where
  "copy_block dst src = bnd (gets (\<lambda>s. bdata (bufs s src))) (\<lambda>d. upd_buf dst (\<lambda>r. r\<lparr>bdata := d\<rparr>))"

definition install_trans :: "bool \<Rightarrow> ('a logs_scheme, unit) kfun" where
  "install_trans recovering =
     bnd (gets lh_n) (\<lambda>n.
     for_each [0..<nat n] (\<lambda>tail.
       bnd (gets (\<lambda>s. (log_dev s, log_start s + of_nat tail + 1, lh_block s tail))) (\<lambda>(dev, from, dst).
       bnd (bread dev from) (\<lambda>lbuf.
       bnd (bread dev dst) (\<lambda>dbuf.
       bnd (copy_block dbuf lbuf) (\<lambda>_.
       bnd (bwrite dbuf) (\<lambda>_.
       bnd (do_if (\<not> recovering) (bunpin dbuf)) (\<lambda>_.
       bnd (brelse lbuf) (\<lambda>_.
       brelse dbuf)))))))))"

definition read_head :: "('a logs_scheme, unit) kfun" where
  "read_head =
     bnd (gets (\<lambda>s. (log_dev s, log_start s))) (\<lambda>(dev, start).
     bnd (bread dev start) (\<lambda>b.
     bnd (gets (\<lambda>s. bdata (bufs s b))) (\<lambda>d.
     bnd (modify (\<lambda>s. s\<lparr>lh_n := sint (get32 d 0)\<rparr>)) (\<lambda>_.
     bnd (gets lh_n) (\<lambda>n.
     bnd (for_each [0..<nat n] (\<lambda>i.
       modify (\<lambda>s. s\<lparr>lh_block := (lh_block s)(i := get32 d (4 + 4 * i))\<rparr>))) (\<lambda>_.
     brelse b))))))"

definition write_head :: "('a logs_scheme, unit) kfun" where
  "write_head =
     bnd (gets (\<lambda>s. (log_dev s, log_start s))) (\<lambda>(dev, start).
     bnd (bread dev start) (\<lambda>b.
     bnd (gets (\<lambda>s. (lh_n s, lh_block s))) (\<lambda>(n, blk).
     bnd (upd_buf b (\<lambda>r. r\<lparr>bdata := put32 0 (word_of_int n) (bdata r)\<rparr>)) (\<lambda>_.
     bnd (for_each [0..<nat n] (\<lambda>i.
       upd_buf b (\<lambda>r. r\<lparr>bdata := put32 (4 + 4 * i) (blk i) (bdata r)\<rparr>))) (\<lambda>_.
     bnd (bwrite b) (\<lambda>_.
     brelse b))))))"

definition recover_from_log :: "('a logs_scheme, unit) kfun" where
  "recover_from_log =
     bnd read_head (\<lambda>_.
     bnd (install_trans True) (\<lambda>_.
     bnd (modify (\<lambda>s. s\<lparr>lh_n := 0\<rparr>)) (\<lambda>_.
     write_head)))"

definition initlog :: "u32 \<Rightarrow> superblock \<Rightarrow> ('a logs_scheme, unit) kfun" where
  "initlog dev sb =
     (if BSIZE \<le> sizeof_logheader then panic ''initlog: too big logheader''
      else bnd (initlock L_log ''log'') (\<lambda>_.
           bnd (modify (\<lambda>s. s\<lparr>log_start := sb_logstart sb, log_size := sint (sb_nlog sb), log_dev := dev\<rparr>)) (\<lambda>_.
           recover_from_log)))"

subsection \<open>Transactions\<close>

definition begin_op_loop :: "('a logs_scheme, unit) kfun" where
  "begin_op_loop =
     bnd (gets (\<lambda>s. (committing s, lh_n s + (outstanding s + 1) * MAXOPBLOCKS > LOGSIZE))) (\<lambda>(c, full).
     if c then sleep C_log L_log
     else if full then sleep C_log L_log
     else bnd (modify (\<lambda>s. s\<lparr>outstanding := outstanding s + 1\<rparr>)) (\<lambda>_.
          release L_log))"

definition begin_op :: "('a logs_scheme, unit) kfun" where
  "begin_op = bnd (acquire L_log) (\<lambda>_. begin_op_loop)"

definition begin_op_resume :: "nat \<Rightarrow> bool \<Rightarrow> ('a logs_scheme, unit) kfun" where
  "begin_op_resume p ie = bnd (sleep_resume p L_log ie) (\<lambda>_. begin_op_loop)"

definition write_log :: "('a logs_scheme, unit) kfun" where
  "write_log =
     bnd (gets lh_n) (\<lambda>n.
     for_each [0..<nat n] (\<lambda>tail.
       bnd (gets (\<lambda>s. (log_dev s, log_start s + of_nat tail + 1, lh_block s tail))) (\<lambda>(dev, dst, src).
       bnd (bread dev dst) (\<lambda>to.
       bnd (bread dev src) (\<lambda>from.
       bnd (copy_block to from) (\<lambda>_.
       bnd (bwrite to) (\<lambda>_.
       bnd (brelse from) (\<lambda>_.
       brelse to))))))))"

definition commit :: "('a logs_scheme, unit) kfun" where
  "commit =
     bnd (gets lh_n) (\<lambda>n.
     do_if (n > 0)
       (bnd write_log (\<lambda>_.
        bnd write_head (\<lambda>_.
        bnd (install_trans False) (\<lambda>_.
        bnd (modify (\<lambda>s. s\<lparr>lh_n := 0\<rparr>)) (\<lambda>_.
        write_head))))))"

definition end_op :: "('a logs_scheme, unit) kfun" where
  "end_op =
     bnd (acquire L_log) (\<lambda>_.
     bnd (modify (\<lambda>s. s\<lparr>outstanding := outstanding s - 1\<rparr>)) (\<lambda>_.
     bnd (gets (\<lambda>s. (committing s, outstanding s))) (\<lambda>(c, out).
     if c then panic ''log.committing''
     else bnd (if out = 0 then modify (\<lambda>s. s\<lparr>committing := True\<rparr>) else wakeup (Some C_log)) (\<lambda>_.
          bnd (release L_log) (\<lambda>_.
          do_if (out = 0)
            (bnd commit (\<lambda>_.
             locking L_log
               (bnd (modify (\<lambda>s. s\<lparr>committing := False\<rparr>)) (\<lambda>_.
                wakeup (Some C_log))))))))))"

text \<open>The index at which the search loop of \<open>log_write\<close> stops.\<close>

fun log_find :: "(nat \<Rightarrow> u32) \<Rightarrow> u32 \<Rightarrow> nat list \<Rightarrow> nat \<Rightarrow> nat" where
  "log_find blk b [] n = n"
| "log_find blk b (i # is) n = (if blk i = b then i else log_find blk b is n)"

definition log_write :: "nat \<Rightarrow> ('a logs_scheme, unit) kfun" where
  "log_write b =
     locking L_log
       (bnd (gets (\<lambda>s. (lh_n s, log_size s, outstanding s))) (\<lambda>(n, sz, out).
        if n \<ge> LOGSIZE \<or> n \<ge> sz - 1 then panic ''too big a transaction''
        else if out < 1 then panic ''log_write outside of trans''
        else bnd (gets (\<lambda>s. bblockno (bufs s b))) (\<lambda>no.
             bnd (gets (\<lambda>s. log_find (lh_block s) no [0..<nat n] (nat n))) (\<lambda>i.
             bnd (modify (\<lambda>s. s\<lparr>lh_block := (lh_block s)(i := no)\<rparr>)) (\<lambda>_.
             do_if (i = nat n)
               (bnd (bpin b) (\<lambda>_.
                modify (\<lambda>s. s\<lparr>lh_n := lh_n s + 1\<rparr>))))))))"

subsection \<open>Words inside a block, read back\<close>

lemma get16_put16 [simp]: "get16 (put16 i v d) i = v"
  by (rule bit_word_eqI) (auto simp: get16_def put16_def bit_simps)

lemma get32_put32 [simp]: "get32 (put32 i v d) i = v"
  by (rule bit_word_eqI) (auto simp: get32_def put32_def bit_simps, rename_tac n, case_tac "24 \<le> n", auto)

lemma get32_put32_other: "j + 4 \<le> i \<or> i + 4 \<le> j \<Longrightarrow> get32 (put32 i v d) j = get32 d j"
  by (auto simp: get32_def put32_def)

text \<open>The log header, as \<open>write_head\<close> stores it into a block.\<close>

definition head_block :: "int \<Rightarrow> (nat \<Rightarrow> u32) \<Rightarrow> block \<Rightarrow> block" where
  "head_block n blk d = fold (\<lambda>i. put32 (4 + 4 * i) (blk i)) [0..<nat n] (put32 0 (word_of_int n) d)"

lemma fold_put32:
  "j + 4 \<le> 4 \<or> 4 + 4 * m \<le> j \<Longrightarrow> get32 (fold (\<lambda>i. put32 (4 + 4 * i) (blk i)) [0..<m] d) j = get32 d j"
  by (induction m) (auto simp: get32_put32_other)

lemma get32_fold_put32:
  "i < m \<Longrightarrow> get32 (fold (\<lambda>i. put32 (4 + 4 * i) (blk i)) [0..<m] d) (4 + 4 * i) = blk i"
  by (induction m) (auto simp: get32_put32_other less_Suc_eq)

lemma head_block_count: "get32 (head_block n blk d) 0 = word_of_int n"
  by (simp add: head_block_def fold_put32)

lemma head_block_entry: "i < nat n \<Longrightarrow> get32 (head_block n blk d) (4 + 4 * i) = blk i"
  by (simp add: head_block_def get32_fold_put32)

subsection \<open>What a sequence of block writes leaves on the disk\<close>

lemma apply_writes_simps [simp]: "apply_writes [] d = d" "apply_writes ((n, b) # ws) d = apply_writes ws (d(n := b))"
  by (simp_all add: apply_writes_def)

lemma apply_writes_append: "apply_writes (xs @ ys) d = apply_writes ys (apply_writes xs d)"
  by (simp add: apply_writes_def)

lemma apply_writes_notin: "m \<notin> fst ` set ws \<Longrightarrow> apply_writes ws d m = d m"
  by (induction ws arbitrary: d) (auto simp: apply_writes_def)

lemma apply_writes_same:
  "(\<And>y. (m, y) \<in> set ws \<Longrightarrow> y = v) \<Longrightarrow> m \<in> fst ` set ws \<or> d m = v \<Longrightarrow> apply_writes ws d m = v"
proof (induction ws arbitrary: d)
  case (Cons w ws)
  obtain a b where w: "w = (a, b)" by force
  have "apply_writes ws (d(a := b)) m = v" by (rule Cons.IH) (use Cons.prems w in auto)
  then show ?case by (simp add: apply_writes_def w)
qed (simp add: apply_writes_def)

text \<open>
  The log protocol on the disk.  A transaction of the blocks \<open>blk 0\<close>, \<open>blk 1\<close>, ..., whose new
  contents are \<open>c\<close>, is committed by the writes \<open>commit_writes\<close>; recovery looks at a disk and
  makes the writes \<open>recover_writes\<close>.
\<close>

definition log_blocks :: "u32 \<Rightarrow> nat \<Rightarrow> (nat \<Rightarrow> u32) \<Rightarrow> (u32 \<Rightarrow> block) \<Rightarrow> (u32 \<times> block) list" where
  "log_blocks start n blk c = map (\<lambda>i. (start + of_nat i + 1, c (blk i))) [0..<n]"

definition home_blocks :: "nat \<Rightarrow> (nat \<Rightarrow> u32) \<Rightarrow> (nat \<Rightarrow> block) \<Rightarrow> (u32 \<times> block) list" where
  "home_blocks n blk c = map (\<lambda>i. (blk i, c i)) [0..<n]"

definition commit_writes :: "u32 \<Rightarrow> int \<Rightarrow> (nat \<Rightarrow> u32) \<Rightarrow> (u32 \<Rightarrow> block) \<Rightarrow> block \<Rightarrow> (u32 \<times> block) list" where
  "commit_writes start n blk c hdr =
     log_blocks start (nat n) blk c @ [(start, head_block n blk hdr)] @
     home_blocks (nat n) blk (\<lambda>i. c (blk i)) @ [(start, head_block 0 blk (head_block n blk hdr))]"

definition recover_writes :: "u32 \<Rightarrow> (u32 \<Rightarrow> block) \<Rightarrow> (u32 \<times> block) list" where
  "recover_writes start d =
     (let n = sint (get32 (d start) 0); blk = (\<lambda>i. get32 (d start) (4 + 4 * i)) in
      home_blocks (nat n) blk (\<lambda>i. d (start + of_nat i + 1)) @ [(start, head_block 0 blk (d start))])"

definition log_area :: "u32 \<Rightarrow> nat \<Rightarrow> u32 set" where
  "log_area start n = {start + of_nat i | i. i \<le> n}"

lemma log_areaI: "i \<le> n \<Longrightarrow> start + of_nat i \<in> log_area start n"
  by (auto simp: log_area_def)

lemma log_area_start [simp]: "start \<in> log_area start n"
  using log_areaI [of 0 n start] by simp

lemma log_area_next: "i < n \<Longrightarrow> start + of_nat i + 1 \<in> log_area start n"
  using log_areaI [of "Suc i" n start] by (simp add: ac_simps)

lemma log_inj:
  assumes "i < 2 ^ 32" and "j < 2 ^ 32" and "start + of_nat i = start + (of_nat j :: u32)"
  shows "i = j"
proof -
  have "unat (of_nat i :: u32) = unat (of_nat j :: u32)" using assms(3) by simp
  then show ?thesis using assms(1,2) by (simp add: unat_of_nat)
qed

lemma log_blocks_out: "m \<notin> log_area start n \<Longrightarrow> m \<notin> fst ` set (log_blocks start n blk c)"
  using log_area_next by (force simp: log_blocks_def)

lemma log_blocks_start: "n < 2 ^ 31 \<Longrightarrow> start \<notin> fst ` set (log_blocks start n blk c)"
proof
  assume n: "n < 2 ^ 31" and "start \<in> fst ` set (log_blocks start n blk c)"
  then obtain i where i: "i < n" "start = start + of_nat i + 1" by (auto simp: log_blocks_def)
  have "(0::nat) = Suc i" by (rule log_inj [of 0 "Suc i" start]) (use i n in \<open>simp_all add: ac_simps\<close>)
  then show False by simp
qed

lemma log_blocks_at:
  assumes "i < n" and "n < 2 ^ 31"
  shows "apply_writes (log_blocks start n blk c) d (start + of_nat i + 1) = c (blk i)"
proof (rule apply_writes_same)
  fix y
  assume "(start + of_nat i + 1, y) \<in> set (log_blocks start n blk c)"
  then obtain j where j: "j < n" "start + of_nat i + 1 = start + of_nat j + 1" "y = c (blk j)"
    by (auto simp: log_blocks_def)
  have "i = j" by (rule log_inj [of i j start]) (use j assms in simp_all)
  then show "y = c (blk i)" using j by simp
qed (use assms in \<open>auto simp: log_blocks_def image_image\<close>)

lemma home_blocks_at:
  "apply_writes (home_blocks n blk (\<lambda>i. c (blk i))) d m = (if m \<in> blk ` {0..<n} then c m else d m)"
proof (cases "m \<in> blk ` {0..<n}")
  case True
  then show ?thesis by simp (rule apply_writes_same, auto simp: home_blocks_def image_image)
next
  case False
  then show ?thesis by simp (rule apply_writes_notin, auto simp: home_blocks_def)
qed

lemma home_blocks_prefix: "m \<notin> blk ` {0..<n} \<Longrightarrow> m \<notin> fst ` set (take k (home_blocks n blk c))"
  by (auto simp: home_blocks_def dest!: in_set_takeD)

text \<open>Recovery after a crash, by what the header on the disk says.\<close>

lemma recover_empty:
  assumes "get32 (d start) 0 = 0" and "m \<noteq> start"
  shows "apply_writes (recover_writes start d) d m = d m"
  using assms by (simp add: recover_writes_def home_blocks_def apply_writes_def)

lemma recover_full:
  assumes "get32 (d start) 0 = word_of_int n" and n: "0 \<le> n" "n < 2 ^ 31"
    and blk: "\<And>i. i < nat n \<Longrightarrow> get32 (d start) (4 + 4 * i) = blk i"
    and log: "\<And>i. i < nat n \<Longrightarrow> d (start + of_nat i + 1) = c (blk i)" and "m \<noteq> start"
  shows "apply_writes (recover_writes start d) d m = (if m \<in> blk ` {0..<nat n} then c m else d m)"
proof -
  have "sint (get32 (d start) 0) = n" using assms(1) n by (simp add: signed_of_int signed_take_bit_int_eq_self)
  then have "recover_writes start d = home_blocks (nat n) blk (\<lambda>i. c (blk i)) @
      [(start, head_block 0 (\<lambda>i. get32 (d start) (4 + 4 * i)) (d start))]"
    using blk log by (simp add: recover_writes_def home_blocks_def)
  then show ?thesis using \<open>m \<noteq> start\<close> home_blocks_at [of "nat n" blk c d m]
    by (simp add: apply_writes_append)
qed

text \<open>
  A crash may keep any prefix of the writes of a commit.  Recovery then makes the disk, outside
  the log, what it was before the transaction, or what it is after it.
\<close>

definition after_commit :: "int \<Rightarrow> (nat \<Rightarrow> u32) \<Rightarrow> (u32 \<Rightarrow> block) \<Rightarrow> (u32 \<Rightarrow> block) \<Rightarrow> u32 \<Rightarrow> block" where
  "after_commit n blk c d m = (if m \<in> blk ` {0..<nat n} then c m else d m)"

lemma crash_cases:
  assumes old: "get32 (d start) 0 = 0" and n: "0 \<le> n" "n < 2 ^ 31"
    and homes: "\<And>i. i < nat n \<Longrightarrow> blk i \<notin> log_area start (nat n)"
    and d': "d' = apply_writes (take k (commit_writes start n blk c hdr)) d"
  obtains (empty) new where "new \<in> {d, after_commit n blk c d}" and "get32 (d' start) 0 = 0"
      and "\<And>m. m \<notin> log_area start (nat n) \<Longrightarrow> d' m = new m"
    | (full) "d' start = head_block n blk hdr" and "\<And>i. i < nat n \<Longrightarrow> d' (start + of_nat i + 1) = c (blk i)"
      and "\<And>m. m \<notin> log_area start (nat n) \<Longrightarrow> m \<notin> blk ` {0..<nat n} \<Longrightarrow> d' m = d m"
proof -
  let ?W1 = "log_blocks start (nat n) blk c" and ?H = "head_block n blk hdr"
    and ?W3 = "home_blocks (nat n) blk (\<lambda>i. c (blk i))"
  have n': "nat n < 2 ^ 31" using n by simp
  have len: "length ?W1 = nat n" "length ?W3 = nat n" by (simp_all add: log_blocks_def home_blocks_def)
  have out: "m \<noteq> start" if "m \<notin> log_area start (nat n)" for m using that by auto
  have home: "m \<notin> blk ` {0..<nat n}" if "m \<in> log_area start (nat n)" for m using that homes by auto
  consider (log) "k \<le> nat n" | (install) "nat n < k" "k \<le> 2 * nat n + 1" | (all) "2 * nat n + 1 < k" by linarith
  then show ?thesis
  proof cases
    case log
    then have d: "d' = apply_writes (take k ?W1) d" using d' len by (simp add: commit_writes_def)
    have "m \<notin> fst ` set (take k ?W1)" if "m \<notin> fst ` set ?W1" for m using that by (auto dest: in_set_takeD)
    then have "d' start = d start" "\<And>m. m \<notin> log_area start (nat n) \<Longrightarrow> d' m = d m"
      using log_blocks_start [OF n'] log_blocks_out [of _ start "nat n" blk c] by (simp_all add: d apply_writes_notin)
    then show ?thesis using empty [of d] old by simp
  next
    case install
    define j where "j = k - nat n - 1"
    have "d' = apply_writes (take j ?W3) ((apply_writes ?W1 d)(start := ?H))"
      using install d' len by (simp add: commit_writes_def j_def apply_writes_append take_Cons')
    then have at: "d' m = ((apply_writes ?W1 d)(start := ?H)) m" if "m \<notin> blk ` {0..<nat n}" for m
      using home_blocks_prefix [OF that] by (simp add: apply_writes_notin)
    show ?thesis
    proof (rule full)
      show "d' start = ?H" using at [OF home [OF log_area_start]] by simp
      show "d' (start + of_nat i + 1) = c (blk i)" if "i < nat n" for i
      proof -
        have "start \<noteq> start + of_nat i + 1" using log_inj [of 0 "Suc i" start] that n' by (auto simp: ac_simps)
        then show ?thesis using at [OF home [OF log_area_next [OF that]]] log_blocks_at [OF that n'] by simp
      qed
      show "d' m = d m" if "m \<notin> log_area start (nat n)" "m \<notin> blk ` {0..<nat n}" for m
        using at [OF that(2)] out [OF that(1)] log_blocks_out [OF that(1), of blk c] by (simp add: apply_writes_notin)
    qed
  next
    case all
    then have d: "d' = (apply_writes ?W3 ((apply_writes ?W1 d)(start := ?H)))(start := head_block 0 blk ?H)"
      using d' len by (simp add: commit_writes_def apply_writes_append take_Cons')
    then have "get32 (d' start) 0 = 0" by (simp add: head_block_count)
    moreover have "d' m = after_commit n blk c d m" if "m \<notin> log_area start (nat n)" for m
      using out [OF that] log_blocks_out [OF that, of blk c]
      by (simp add: d home_blocks_at after_commit_def apply_writes_notin)
    ultimately show ?thesis using empty [of "after_commit n blk c d"] by simp
  qed
qed

lemma commit_crash:
  assumes "get32 (d start) 0 = 0" and n: "0 \<le> n" "n < 2 ^ 31"
    and homes: "\<And>i. i < nat n \<Longrightarrow> blk i \<notin> log_area start (nat n)"
    and "d' = apply_writes (take k (commit_writes start n blk c hdr)) d"
  shows "\<exists>new \<in> {d, after_commit n blk c d}. \<forall>m. m \<notin> log_area start (nat n) \<longrightarrow>
    apply_writes (recover_writes start d') d' m = new m"
proof (rule crash_cases [OF assms])
  fix new
  assume empty: "new \<in> {d, after_commit n blk c d}" "get32 (d' start) 0 = 0" "\<And>m. m \<notin> log_area start (nat n) \<Longrightarrow> d' m = new m"
  then have "apply_writes (recover_writes start d') d' m = new m" if "m \<notin> log_area start (nat n)" for m
    using that recover_empty [of d' start m] log_area_start [of start "nat n"] by metis
  then show ?thesis using empty(1) by blast
next
  assume full: "d' start = head_block n blk hdr" "\<And>i. i < nat n \<Longrightarrow> d' (start + of_nat i + 1) = c (blk i)"
    "\<And>m. m \<notin> log_area start (nat n) \<Longrightarrow> m \<notin> blk ` {0..<nat n} \<Longrightarrow> d' m = d m"
  have "apply_writes (recover_writes start d') d' m = after_commit n blk c d m" if "m \<notin> log_area start (nat n)" for m
  proof -
    have "m \<noteq> start" using that by auto
    then have "apply_writes (recover_writes start d') d' m = (if m \<in> blk ` {0..<nat n} then c m else d' m)"
      using full(1,2) n by (intro recover_full) (simp_all add: head_block_count head_block_entry)
    then show ?thesis using full(3) [OF that] by (simp add: after_commit_def)
  qed
  then show ?thesis by blast
qed

lemma crash_header:
  assumes "get32 (d start) 0 = 0" and n: "0 \<le> n" "n < 2 ^ 31"
    and homes: "\<And>i. i < nat n \<Longrightarrow> blk i \<notin> log_area start (nat n)"
    and "d' = apply_writes (take k (commit_writes start n blk c hdr)) d"
    and "i < nat (sint (get32 (d' start) 0))"
  shows "get32 (d' start) (4 + 4 * i) \<notin> log_area start (nat (sint (get32 (d' start) 0)))"
proof (rule crash_cases [OF assms(1-5)])
  assume "get32 (d' start) 0 = 0"
  then show ?thesis using assms(6) by simp
next
  assume full: "d' start = head_block n blk hdr" "\<And>i. i < nat n \<Longrightarrow> d' (start + of_nat i + 1) = c (blk i)"
    "\<And>m. m \<notin> log_area start (nat n) \<Longrightarrow> m \<notin> blk ` {0..<nat n} \<Longrightarrow> d' m = d m"
  have "sint (get32 (d' start) 0) = n" using full(1) n by (simp add: head_block_count signed_of_int signed_take_bit_int_eq_self)
  then show ?thesis using full(1) homes assms(6) by (simp add: head_block_entry)
qed

subsection \<open>The log on top of the cache\<close>

lemma same_logs:
  fixes s t :: "'a logs_scheme"
  assumes "bcache.more t = bcache.more s"
  shows "log_start t = log_start s" "log_size t = log_size s" "outstanding t = outstanding s"
    "committing t = committing s" "log_dev t = log_dev s" "lh_n t = lh_n s" "lh_block t = lh_block s"
  using assms by (cases s, cases t, simp)+

lemma write_head_runs:
  fixes s :: "'a logs_scheme"
  assumes inv: "cache_inv p (log_dev s) s" and v: "cache_obs (log_dev s) s = v"
    and "cv_held v (log_start s) = None" and "cv_refs v (log_start s) = 0" and "card {m. cv_refs v m \<noteq> 0} < NBUF"
    and d: "d = head_block (lh_n s) (lh_block s) (cv_content v (log_start s))"
  shows "runs write_head s (\<lambda>_ t. cache_inv p (log_dev s) t \<and> cache_obs (log_dev s) t =
    v\<lparr>cv_content := (cv_content v)(log_start s := d), cv_writes := cv_writes v @ [(log_start s, d)]\<rparr>)"
proof -
  let ?dev = "log_dev s" and ?a = "log_start s"
  obtain b t1 where t1: "bread ?dev ?a s = Ok b t1" "cache_inv p ?dev t1"
      "cache_obs ?dev t1 = v\<lparr>cv_refs := (cv_refs v)(?a := 1), cv_held := (cv_held v)(?a := Some b)\<rparr>"
    using bc.rd_law [OF inv v, of ?a] assms(3-5) by (auto simp: runs_def)
  have same: "lh_n t1 = lh_n s" "lh_block t1 = lh_block s"
    using same_logs(6,7) [of t1 s] arg_cong [OF t1(3), of cv_rest] arg_cong [OF v, of cv_rest] by simp_all
  obtain t2 where t2: "upd_buf b (\<lambda>r. r\<lparr>bdata := put32 0 (word_of_int (lh_n s)) (bdata r)\<rparr>) t1 = Ok () t2" "cache_inv p ?dev t2"
      "cache_obs ?dev t2 = v\<lparr>cv_content := (cv_content v)(?a := put32 0 (word_of_int (lh_n s)) (cv_content v ?a)),
        cv_refs := (cv_refs v)(?a := 1), cv_held := (cv_held v)(?a := Some b)\<rparr>"
    using bc.md_law [OF t1(2,3), of ?a b "put32 0 (word_of_int (lh_n s))"] by (auto simp: runs_def)
  obtain t3 where t3: "for_each [0..<nat (lh_n s)] (\<lambda>i. upd_buf b (\<lambda>r. r\<lparr>bdata := put32 (4 + 4 * i) (lh_block s i) (bdata r)\<rparr>)) t2 = Ok () t3"
      "cache_inv p ?dev t3" "cache_obs ?dev t3 = v\<lparr>cv_content := (cv_content v)(?a := d),
        cv_refs := (cv_refs v)(?a := 1), cv_held := (cv_held v)(?a := Some b)\<rparr>"
    using bc.md_loop [OF t2(2,3), of ?a b "[0..<nat (lh_n s)]" "\<lambda>i. put32 (4 + 4 * i) (lh_block s i)"]
    by (auto simp: runs_def d head_block_def)
  obtain t4 where t4: "bwrite b t3 = Ok () t4" "cache_inv p ?dev t4"
      "cache_obs ?dev t4 = v\<lparr>cv_content := (cv_content v)(?a := d), cv_refs := (cv_refs v)(?a := 1),
        cv_held := (cv_held v)(?a := Some b), cv_writes := cv_writes v @ [(?a, d)]\<rparr>"
    using bc.wr_law [OF t3(2,3), of ?a b] by (auto simp: runs_def)
  obtain t5 where t5: "brelse b t4 = Ok () t5" "cache_inv p ?dev t5"
      "cache_obs ?dev t5 = v\<lparr>cv_content := (cv_content v)(?a := d), cv_writes := cv_writes v @ [(?a, d)]\<rparr>"
    using bc.rl_law [OF t4(2,3), of ?a b] assms(3,4)
    by (auto simp: runs_def fun_upd_idem cv_disk_def apply_writes_append)
  show ?thesis using t1(1) same t2(1) t3(1) t4(1) t5
    by (simp add: write_head_def runs_def bnd_apply)
qed

text \<open>
  A view in which the blocks \<open>blk 0\<close>, \<open>blk 1\<close>, ... of a transaction can be moved to or from the
  log: nothing is held, the blocks of the log have no user, and there is a buffer to spare.
\<close>

definition log_ready :: "u32 \<Rightarrow> nat \<Rightarrow> (nat \<Rightarrow> u32) \<Rightarrow> ('b, 'f) cache_view \<Rightarrow> bool" where
  "log_ready start n blk v \<longleftrightarrow> n < 2 ^ 31 \<and> (\<forall>m. cv_held v m = None) \<and>
     (\<forall>i<n. blk i \<notin> log_area start n) \<and> (\<forall>m \<in> log_area start n. cv_refs v m = 0) \<and>
     card {m. cv_refs v m \<noteq> 0} < NBUF"

definition pinned :: "nat \<Rightarrow> (nat \<Rightarrow> u32) \<Rightarrow> ('b, 'f) cache_view \<Rightarrow> bool" where
  "pinned n blk v \<longleftrightarrow> inj_on blk {0..<n} \<and> (\<forall>i<n. cv_refs v (blk i) = 1)"

lemma log_blocks_Suc: "log_blocks start (Suc i) blk c = log_blocks start i blk c @ [(start + of_nat i + 1, c (blk i))]"
  by (simp add: log_blocks_def)

lemma home_blocks_Suc: "home_blocks (Suc i) blk c = home_blocks i blk c @ [(blk i, c i)]"
  by (simp add: home_blocks_def)

lemma log_area_mono: "m \<in> log_area start i \<Longrightarrow> i \<le> n \<Longrightarrow> m \<in> log_area start n"
  by (auto simp: log_area_def)

lemma write_log_runs:
  fixes s :: "'a logs_scheme"
  assumes inv: "cache_inv p (log_dev s) s" and v: "cache_obs (log_dev s) s = v"
    and ready: "log_ready (log_start s) (nat (lh_n s)) (lh_block s) v" and pins: "pinned (nat (lh_n s)) (lh_block s) v"
    and ws: "ws = log_blocks (log_start s) (nat (lh_n s)) (lh_block s) (cv_content v)"
  shows "runs write_log s (\<lambda>_ t. cache_inv p (log_dev s) t \<and> cache_obs (log_dev s) t =
    v\<lparr>cv_content := apply_writes ws (cv_content v), cv_writes := cv_writes v @ ws\<rparr>)"
proof -
  let ?dev = "log_dev s" and ?a = "log_start s" and ?n = "nat (lh_n s)" and ?blk = "lh_block s"
  let ?ws = "\<lambda>i. log_blocks ?a i ?blk (cv_content v)"
  let ?v = "\<lambda>i. v\<lparr>cv_content := apply_writes (?ws i) (cv_content v), cv_writes := cv_writes v @ ?ws i\<rparr>"
  let ?I = "\<lambda>i t. cache_inv p ?dev t \<and> cache_obs ?dev t = ?v i"
  have "runs (for_each [0..<?n] (\<lambda>tail.
       bnd (gets (\<lambda>s. (log_dev s, log_start s + of_nat tail + 1, lh_block s tail))) (\<lambda>(dev, dst, src).
       bnd (bread dev dst) (\<lambda>to. bnd (bread dev src) (\<lambda>src. bnd (copy_block to src) (\<lambda>_.
       bnd (bwrite to) (\<lambda>_. bnd (brelse src) (\<lambda>_. brelse to)))))))) s (\<lambda>_ t. ?I ?n t)"
  proof (rule runs_for_each [where I = ?I])
    fix i and t :: "'a logs_scheme"
    assume i: "i < ?n" and I: "?I i t"
    have "bcache.more t = bcache.more s"
      using arg_cong [OF v, of cv_rest] arg_cong [OF conjunct2 [OF I], of cv_rest] by simp
    note same = same_logs [OF this]
    have blk: "?blk i \<notin> log_area ?a ?n" using ready i by (simp add: log_ready_def)
    then have "?blk i \<notin> log_area ?a i" using log_area_mono [of "?blk i" ?a i ?n] i by auto
    then have home: "apply_writes (?ws i) (cv_content v) (?blk i) = cv_content v (?blk i)"
      using log_blocks_out [of "?blk i" ?a i] by (simp add: apply_writes_notin)
    have area: "?a + of_nat i + 1 \<in> log_area ?a ?n" by (rule log_area_next [OF i])
    have step: "runs (bnd (bread ?dev (?a + of_nat i + 1)) (\<lambda>to. bnd (bread ?dev (?blk i)) (\<lambda>src. bnd (copy_block to src) (\<lambda>_.
       bnd (bwrite to) (\<lambda>_. bnd (brelse src) (\<lambda>_. brelse to)))))) t (\<lambda>_ u. cache_inv p ?dev u \<and> cache_obs ?dev u =
       (?v i)\<lparr>cv_content := (cv_content (?v i))(?a + of_nat i + 1 := cv_content (?v i) (?blk i)),
         cv_writes := cv_writes (?v i) @ [(?a + of_nat i + 1, cv_content (?v i) (?blk i))]\<rparr>)"
      unfolding copy_block_def
      by (rule bc.copy_to [of p ?dev t "?v i"])
        (use I ready pins area blk i in \<open>auto simp: log_ready_def pinned_def\<close>)
    then show "runs (bnd (gets (\<lambda>s. (log_dev s, log_start s + of_nat i + 1, lh_block s i))) (\<lambda>(dev, dst, src).
       bnd (bread dev dst) (\<lambda>to. bnd (bread dev src) (\<lambda>src. bnd (copy_block to src) (\<lambda>_.
       bnd (bwrite to) (\<lambda>_. bnd (brelse src) (\<lambda>_. brelse to))))))) t (\<lambda>_ t. ?I (Suc i) t)"
      by (simp add: same home log_blocks_Suc apply_writes_append)
  qed (use inv v in \<open>auto simp: log_blocks_def\<close>)
  then show ?thesis by (simp add: write_log_def ws)
qed

lemma install_trans_runs:
  fixes s :: "'a logs_scheme"
  assumes inv: "cache_inv p (log_dev s) s" and v: "cache_obs (log_dev s) s = v"
    and ready: "log_ready (log_start s) (nat (lh_n s)) (lh_block s) v"
    and use: "if recovering then \<forall>m. cv_refs v m = 0 else pinned (nat (lh_n s)) (lh_block s) v"
    and ws: "ws = home_blocks (nat (lh_n s)) (lh_block s) (\<lambda>i. cv_content v (log_start s + of_nat i + 1))"
  shows "runs (install_trans recovering) s (\<lambda>_ t. cache_inv p (log_dev s) t \<and> cache_obs (log_dev s) t =
    v\<lparr>cv_content := apply_writes ws (cv_content v),
      cv_refs := (\<lambda>m. if m \<in> lh_block s ` {0..<nat (lh_n s)} then 0 else cv_refs v m), cv_writes := cv_writes v @ ws\<rparr>)"
proof -
  let ?dev = "log_dev s" and ?a = "log_start s" and ?n = "nat (lh_n s)" and ?blk = "lh_block s"
  let ?ws = "\<lambda>i. home_blocks i ?blk (\<lambda>i. cv_content v (?a + of_nat i + 1))"
  let ?v = "\<lambda>i. v\<lparr>cv_content := apply_writes (?ws i) (cv_content v),
    cv_refs := (\<lambda>m. if m \<in> ?blk ` {0..<i} then 0 else cv_refs v m), cv_writes := cv_writes v @ ?ws i\<rparr>"
  let ?I = "\<lambda>i t. cache_inv p ?dev t \<and> cache_obs ?dev t = ?v i"
  have "runs (for_each [0..<?n] (\<lambda>tail.
       bnd (gets (\<lambda>s. (log_dev s, log_start s + of_nat tail + 1, lh_block s tail))) (\<lambda>(dev, src, dst).
       bnd (bread dev src) (\<lambda>lbuf. bnd (bread dev dst) (\<lambda>dbuf. bnd (copy_block dbuf lbuf) (\<lambda>_.
       bnd (bwrite dbuf) (\<lambda>_. bnd (do_if (\<not> recovering) (bunpin dbuf)) (\<lambda>_. bnd (brelse lbuf) (\<lambda>_. brelse dbuf))))))))) s
     (\<lambda>_ t. ?I ?n t)"
  proof (rule runs_for_each [where I = ?I])
    fix i and t :: "'a logs_scheme"
    assume i: "i < ?n" and I: "?I i t"
    have "bcache.more t = bcache.more s"
      using arg_cong [OF v, of cv_rest] arg_cong [OF conjunct2 [OF I], of cv_rest] by simp
    note same = same_logs [OF this]
    have area: "?a + of_nat i + 1 \<in> log_area ?a ?n" by (rule log_area_next [OF i])
    have blk: "?blk j \<notin> log_area ?a ?n" if "j < ?n" for j using ready that by (simp add: log_ready_def)
    have "?a + of_nat i + 1 \<notin> ?blk ` {0..<i}" using area blk i by force
    then have log: "apply_writes (?ws i) (cv_content v) (?a + of_nat i + 1) = cv_content v (?a + of_nat i + 1)"
      using home_blocks_prefix [of "?a + of_nat i + 1" ?blk i i] by (simp add: apply_writes_notin home_blocks_def)
    have "?blk i \<notin> ?blk ` {0..<i}" if "\<not> recovering"
    proof
      assume "?blk i \<in> ?blk ` {0..<i}"
      then obtain x where x: "x < i" "?blk i = ?blk x" by auto
      have "i = x" using use that i x by (intro inj_onD [of ?blk "{0..<?n}"]) (simp_all add: pinned_def)
      then show False using x by simp
    qed
    then have refs: "cv_refs (?v i) (?blk i) = (if recovering then 0 else 1)"
      using use i by (auto simp: pinned_def)
    have "card {m. cv_refs (?v i) m \<noteq> 0} \<le> card {m. cv_refs v m \<noteq> 0}" by (rule card_mono) auto
    moreover have "card {m. cv_refs v m \<noteq> 0} + (if recovering then 1 else 0) < NBUF"
      using use ready by (auto simp: log_ready_def NBUF_def MAXOPBLOCKS_def)
    ultimately have room: "card {m. cv_refs (?v i) m \<noteq> 0} + (if recovering then 1 else 0) < NBUF" by linarith
    have "runs (bnd (bread ?dev (?a + of_nat i + 1)) (\<lambda>lbuf. bnd (bread ?dev (?blk i)) (\<lambda>dbuf. bnd (copy_block dbuf lbuf) (\<lambda>_.
       bnd (bwrite dbuf) (\<lambda>_. bnd (do_if (\<not> recovering) (bunpin dbuf)) (\<lambda>_. bnd (brelse lbuf) (\<lambda>_. brelse dbuf))))))) t
       (\<lambda>_ u. cache_inv p ?dev u \<and> cache_obs ?dev u =
       (?v i)\<lparr>cv_content := (cv_content (?v i))(?blk i := cv_content (?v i) (?a + of_nat i + 1)),
         cv_refs := (cv_refs (?v i))(?blk i := 0),
         cv_writes := cv_writes (?v i) @ [(?blk i, cv_content (?v i) (?a + of_nat i + 1))]\<rparr>)"
      unfolding copy_block_def
      by (rule bc.copy_back [of p ?dev t "?v i"])
        (use I ready area blk [OF i] refs room in \<open>auto simp: log_ready_def\<close>)
    moreover have "(cv_refs (?v i))(?blk i := 0) = cv_refs (?v (Suc i))" by (auto simp: fun_eq_iff less_Suc_eq)
    ultimately show "runs (bnd (gets (\<lambda>s. (log_dev s, log_start s + of_nat i + 1, lh_block s i))) (\<lambda>(dev, src, dst).
       bnd (bread dev src) (\<lambda>lbuf. bnd (bread dev dst) (\<lambda>dbuf. bnd (copy_block dbuf lbuf) (\<lambda>_.
       bnd (bwrite dbuf) (\<lambda>_. bnd (do_if (\<not> recovering) (bunpin dbuf)) (\<lambda>_. bnd (brelse lbuf) (\<lambda>_. brelse dbuf)))))))) t
       (\<lambda>_ t. ?I (Suc i) t)"
      by (simp add: same log home_blocks_Suc apply_writes_append)
  qed (use inv v in \<open>auto simp: home_blocks_def\<close>)
  then show ?thesis by (simp add: install_trans_def ws)
qed

lemma cache_logs [simp]:
  "calm p (s\<lparr>lh_n := x\<rparr>) = calm p s" "disk (s\<lparr>lh_n := x\<rparr>) = disk s"
  "calm p (s\<lparr>lh_block := f\<rparr>) = calm p s" "disk (s\<lparr>lh_block := f\<rparr>) = disk s"
  by (simp_all add: calm_def cpu_ok_def lock_free_def sie_on_def disk_def)

lemma cache_logs_inv [simp]:
  "cache_inv p dev (s\<lparr>lh_n := x\<rparr>) = cache_inv p dev s" "cache_inv p dev (s\<lparr>lh_block := f\<rparr>) = cache_inv p dev s"
  by (simp_all add: cache_inv_def)

lemma cache_logs_obs [simp]:
  "cache_obs dev (s\<lparr>lh_n := x\<rparr>) = (cache_obs dev s)\<lparr>cv_rest := bcache.more (s\<lparr>lh_n := x\<rparr>)\<rparr>"
  "cache_obs dev (s\<lparr>lh_block := f\<rparr>) = (cache_obs dev s)\<lparr>cv_rest := bcache.more (s\<lparr>lh_block := f\<rparr>)\<rparr>"
  by (simp_all add: cache_obs_def content_def refs_def held_buf_def fun_eq_iff split: option.split)

lemma read_blocks:
  "for_each [0..<n] (\<lambda>i. modify (\<lambda>s. s\<lparr>lh_block := (lh_block s)(i := f i)\<rparr>)) s =
    Ok () (s\<lparr>lh_block := (\<lambda>i. if i < n then f i else lh_block s i)\<rparr>)"
proof (induction n)
  case (Suc n)
  have "(\<lambda>i. if i < n then f i else lh_block s i)(n := f n) = (\<lambda>i. if i < Suc n then f i else lh_block s i)"
    by (auto simp: fun_eq_iff less_Suc_eq)
  then show ?case using Suc by (simp add: for_each_append bnd_apply cong: if_cong) (simp add: fun_upd_def)
qed simp

lemma read_head_runs:
  fixes s :: "'a logs_scheme"
  assumes inv: "cache_inv p (log_dev s) s" and v: "cache_obs (log_dev s) s = v"
    and free: "\<forall>m. cv_held v m = None" "\<forall>m. cv_refs v m = 0"
    and d: "d = cv_content v (log_start s)"
  shows "runs read_head s (\<lambda>_ t. cache_inv p (log_dev s) t \<and> log_dev t = log_dev s \<and> log_start t = log_start s \<and>
    lh_n t = sint (get32 d 0) \<and> (\<forall>i<nat (sint (get32 d 0)). lh_block t i = get32 d (4 + 4 * i)) \<and>
    cache_obs (log_dev s) t = v\<lparr>cv_rest := bcache.more t\<rparr>)"
proof -
  let ?dev = "log_dev s" and ?a = "log_start s" and ?n = "sint (get32 d 0)"
  have "card {m. cv_refs v m \<noteq> 0} < NBUF" using free by (simp add: NBUF_def MAXOPBLOCKS_def)
  then obtain b t1 where t1: "bread ?dev ?a s = Ok b t1" "cache_inv p ?dev t1"
      "cache_obs ?dev t1 = v\<lparr>cv_refs := (cv_refs v)(?a := 1), cv_held := (cv_held v)(?a := Some b)\<rparr>"
    using bc.rd_law [OF inv v, of ?a] free by (auto simp: runs_def)
  have dat: "bdata (bufs t1 b) = d" using bc.held_data [OF t1(2), of ?a b] t1(3) d by simp
  have "bcache.more t1 = bcache.more s" using arg_cong [OF t1(3), of cv_rest] arg_cong [OF v, of cv_rest] by simp
  note same = same_logs [OF this]
  let ?t2 = "t1\<lparr>lh_n := ?n, lh_block := (\<lambda>i. if i < nat ?n then get32 d (4 + 4 * i) else lh_block t1 i)\<rparr>"
  have t2: "cache_inv p ?dev ?t2" "cache_obs ?dev ?t2 =
      v\<lparr>cv_refs := (cv_refs v)(?a := 1), cv_held := (cv_held v)(?a := Some b), cv_rest := bcache.more ?t2\<rparr>"
    using t1 by simp_all
  have "cv_content v ?a = cv_disk v ?a" using bc.clean [OF inv, of ?a] free(2) v by simp
  then obtain t3 where t3: "brelse b ?t2 = Ok () t3" "cache_inv p ?dev t3"
      "cache_obs ?dev t3 = v\<lparr>cv_rest := bcache.more ?t2\<rparr>"
    using bc.rl_law [OF t2, of ?a b] free by (auto simp: runs_def fun_upd_idem cv_disk_def)
  have more: "bcache.more t3 = bcache.more ?t2" using arg_cong [OF t3(3), of cv_rest] by simp
  have "read_head s = Ok () t3" using t1(1) t3(1) dat same by (simp add: read_head_def bnd_apply read_blocks cong: if_cong)
  moreover have "cache_obs ?dev t3 = v\<lparr>cv_rest := bcache.more t3\<rparr>" using t3(3) more by simp
  ultimately show ?thesis using t3(2) same same_logs [OF more] by (simp add: runs_def)
qed

text \<open>Recovery returns, and its writes to the disk are those of the protocol.\<close>

lemma recover_runs:
  fixes s :: "'a logs_scheme"
  assumes inv: "cache_inv p (log_dev s) s" and free: "\<forall>m. refs (log_dev s) s m = 0"
    and hdr: "\<And>i. i < nat (sint (get32 (disk s (log_start s)) 0)) \<Longrightarrow>
      get32 (disk s (log_start s)) (4 + 4 * i) \<notin> log_area (log_start s) (nat (sint (get32 (disk s (log_start s)) 0)))"
  shows "runs recover_from_log s (\<lambda>_ t. cache_inv p (log_dev s) t \<and> lh_n t = 0 \<and> log_start t = log_start s \<and>
    log_dev t = log_dev s \<and> disk_img t = disk_img s \<and> disk_wr t = disk_wr s @ recover_writes (log_start s) (disk s))"
proof -
  let ?dev = "log_dev s" and ?a = "log_start s" and ?v = "cache_obs (log_dev s) s"
  let ?d = "disk s ?a" and ?n = "sint (get32 (disk s ?a) 0)"
  have clean: "content ?dev s = disk s" "held_buf ?dev s m = None" for m using cache_clean [OF inv] free by auto
  obtain t1 where t1: "read_head s = Ok () t1" "cache_inv p ?dev t1" "log_dev t1 = ?dev" "log_start t1 = ?a" "lh_n t1 = ?n"
      "\<forall>i<nat ?n. lh_block t1 i = get32 ?d (4 + 4 * i)" "cache_obs ?dev t1 = ?v\<lparr>cv_rest := bcache.more t1\<rparr>"
    using read_head_runs [OF inv refl, of ?d] clean free by (auto simp: runs_def)
  let ?v1 = "?v\<lparr>cv_rest := bcache.more t1\<rparr>"
  let ?ws = "home_blocks (nat ?n) (lh_block t1) (\<lambda>i. disk s (?a + of_nat i + 1))"
  have "sint (get32 ?d 0) < 2 ^ 31" using sint_range_size [of "get32 ?d 0"] by (simp add: word_size)
  then have ready: "log_ready ?a (nat ?n) (lh_block t1) ?v1"
    using clean free hdr t1(6) by (auto simp: log_ready_def NBUF_def MAXOPBLOCKS_def)
  obtain t2 where t2: "install_trans True t1 = Ok () t2" "cache_inv p ?dev t2"
      "cache_obs ?dev t2 = ?v1\<lparr>cv_content := apply_writes ?ws (disk s), cv_refs := (\<lambda>_. 0), cv_writes := disk_wr s @ ?ws\<rparr>"
    using install_trans_runs [where s = t1 and recovering = True and v = ?v1 and p = p and ws = ?ws] t1(2-7) ready free clean(1)
    by (auto simp: runs_def cong: if_cong)
  have "bcache.more t2 = bcache.more t1" using arg_cong [OF t2(3), of cv_rest] by simp
  note same = same_logs [OF this]
  let ?t3 = "t2\<lparr>lh_n := 0\<rparr>"
  let ?v3 = "?v1\<lparr>cv_content := apply_writes ?ws (disk s), cv_refs := (\<lambda>_. 0), cv_writes := disk_wr s @ ?ws, cv_rest := bcache.more ?t3\<rparr>"
  have "?a \<notin> lh_block t1 ` {0..<nat ?n}"
    using hdr t1(6) log_area_start [of ?a "nat ?n"] by (metis atLeastLessThan_iff imageE)
  then have home: "?a \<notin> fst ` set ?ws" by (simp add: home_blocks_def image_image)
  have "head_block 0 (lh_block t1) (cv_content ?v3 ?a) = head_block 0 (\<lambda>i. get32 ?d (4 + 4 * i)) ?d"
    using apply_writes_notin [OF home, of "disk s"] by (simp add: head_block_def)
  then obtain t4 where t4: "write_head ?t3 = Ok () t4" "cache_inv p ?dev t4"
      "cache_obs ?dev t4 = ?v3\<lparr>cv_content := (cv_content ?v3)(?a := head_block 0 (\<lambda>i. get32 ?d (4 + 4 * i)) ?d),
         cv_writes := disk_wr s @ ?ws @ [(?a, head_block 0 (\<lambda>i. get32 ?d (4 + 4 * i)) ?d)]\<rparr>"
    using write_head_runs [where s = ?t3 and v = ?v3 and p = p, OF _ _ _ _ _ refl] t2(2,3) same t1(3-5) free clean(2)
    by (auto simp: runs_def NBUF_def MAXOPBLOCKS_def)
  have "?ws = home_blocks (nat ?n) (\<lambda>i. get32 ?d (4 + 4 * i)) (\<lambda>i. disk s (?a + of_nat i + 1))"
    using t1(6) by (simp add: home_blocks_def)
  then have "disk_wr t4 = disk_wr s @ recover_writes ?a (disk s)" "disk_img t4 = disk_img s"
    using arg_cong [OF t4(3), of cv_writes] arg_cong [OF t4(3), of cv_base] by (simp_all add: recover_writes_def Let_def)
  moreover have "bcache.more t4 = bcache.more ?t3" using arg_cong [OF t4(3), of cv_rest] by simp
  note same4 = same_logs [OF this]
  moreover have "recover_from_log s = Ok () t4" using t1(1) t2(1) t4(1) by (simp add: recover_from_log_def bnd_apply)
  ultimately show ?thesis using t4(2) same t1(3,4) by (simp add: runs_def)
qed

text \<open>
  The state in which \<open>end_op\<close> starts to commit: the blocks of the transaction are pinned in the
  cache, nobody else uses a buffer of the log, and the header on the disk says that the log is
  empty.
\<close>

definition commit_ready :: "nat \<Rightarrow> 'a logs_scheme \<Rightarrow> bool" where
  "commit_ready p s \<longleftrightarrow> cache_inv p (log_dev s) s \<and> 0 < lh_n s \<and>
     log_ready (log_start s) (nat (lh_n s)) (lh_block s) (cache_obs (log_dev s) s) \<and>
     pinned (nat (lh_n s)) (lh_block s) (cache_obs (log_dev s) s) \<and> get32 (disk s (log_start s)) 0 = 0"

lemma log_ready_cong:
  "cv_held w = cv_held v \<Longrightarrow> cv_refs w = cv_refs v \<Longrightarrow> log_ready a n blk v \<Longrightarrow> log_ready a n blk w"
  "cv_refs w = cv_refs v \<Longrightarrow> pinned n blk v \<Longrightarrow> pinned n blk w"
  by (simp_all add: log_ready_def pinned_def)

lemma commit_runs:
  fixes s :: "'a logs_scheme"
  assumes "commit_ready p s" and v: "v = cache_obs (log_dev s) s"
  shows "runs commit s (\<lambda>_ t. cache_inv p (log_dev s) t \<and> lh_n t = 0 \<and> log_start t = log_start s \<and> log_dev t = log_dev s \<and>
    disk_img t = disk_img s \<and> disk_wr t = disk_wr s @
      commit_writes (log_start s) (lh_n s) (lh_block s) (cv_content v) (cv_content v (log_start s)))"
proof -
  let ?dev = "log_dev s" and ?a = "log_start s" and ?n = "nat (lh_n s)" and ?blk = "lh_block s" and ?c = "cv_content v"
  have inv: "cache_inv p ?dev s" and pos: "0 < lh_n s" and ready: "log_ready ?a ?n ?blk v" and pins: "pinned ?n ?blk v"
    using assms by (simp_all add: commit_ready_def)
  have n: "?n < 2 ^ 31" and room: "card {m. cv_refs v m \<noteq> 0} < NBUF" and idle: "cv_held v m = None"
    and area: "m \<in> log_area ?a ?n \<Longrightarrow> cv_refs v m = 0" for m using ready by (simp_all add: log_ready_def)
  have blk: "?blk i \<notin> log_area ?a ?n" if "i < ?n" for i using ready that by (simp add: log_ready_def)
  let ?w1 = "log_blocks ?a ?n ?blk ?c" and ?H = "head_block (lh_n s) ?blk (?c ?a)" and ?w3 = "home_blocks ?n ?blk (\<lambda>i. ?c (?blk i))"
  let ?v1 = "v\<lparr>cv_content := apply_writes ?w1 ?c, cv_writes := disk_wr s @ ?w1\<rparr>"
  obtain t1 where t1: "write_log s = Ok () t1" "cache_inv p ?dev t1" "cache_obs ?dev t1 = ?v1"
    using write_log_runs [OF inv v [symmetric] ready pins refl] by (auto simp: runs_def v)
  have "bcache.more t1 = bcache.more s" using arg_cong [OF t1(3), of cv_rest] by (simp add: v)
  note same1 = same_logs [OF this]
  have start: "apply_writes ?w1 ?c ?a = ?c ?a" by (rule apply_writes_notin [OF log_blocks_start [OF n]])
  let ?v2 = "v\<lparr>cv_content := (apply_writes ?w1 ?c)(?a := ?H), cv_writes := disk_wr s @ ?w1 @ [(?a, ?H)]\<rparr>"
  obtain t2 where t2: "write_head t1 = Ok () t2" "cache_inv p ?dev t2" "cache_obs ?dev t2 = ?v2"
    using write_head_runs [where s = t1 and v = ?v1 and p = p and d = ?H] t1(2,3) same1 idle area room start
    by (auto simp: runs_def)
  have "bcache.more t2 = bcache.more s" using arg_cong [OF t2(3), of cv_rest] by (simp add: v)
  note same2 = same_logs [OF this]
  have log: "((apply_writes ?w1 ?c)(?a := ?H)) (?a + of_nat i + 1) = ?c (?blk i)" if "i < ?n" for i
  proof -
    have "?a \<noteq> ?a + of_nat i + 1" using log_inj [of 0 "Suc i" ?a] that n by (auto simp: ac_simps)
    then show ?thesis using log_blocks_at [OF that n] by simp
  qed
  then have w3: "?w3 = home_blocks ?n ?blk (\<lambda>i. cv_content ?v2 (?a + of_nat i + 1))" by (simp add: home_blocks_def)
  let ?v3 = "v\<lparr>cv_content := apply_writes ?w3 ((apply_writes ?w1 ?c)(?a := ?H)),
    cv_refs := (\<lambda>m. if m \<in> ?blk ` {0..<?n} then 0 else cv_refs v m), cv_writes := disk_wr s @ ?w1 @ (?a, ?H) # ?w3\<rparr>"
  have "runs (install_trans False) t2 (\<lambda>_ t. cache_inv p (log_dev t2) t \<and> cache_obs (log_dev t2) t =
      ?v2\<lparr>cv_content := apply_writes ?w3 (cv_content ?v2),
        cv_refs := (\<lambda>m. if m \<in> lh_block t2 ` {0..<nat (lh_n t2)} then 0 else cv_refs ?v2 m), cv_writes := cv_writes ?v2 @ ?w3\<rparr>)"
    by (rule install_trans_runs)
      (use t2(2,3) same2 ready pins w3 in \<open>auto intro: log_ready_cong [where v = v]\<close>)
  then obtain t3 where t3: "install_trans False t2 = Ok () t3" "cache_inv p ?dev t3" "cache_obs ?dev t3 = ?v3"
    using same2 by (auto simp: runs_def cong: if_cong)
  have "bcache.more t3 = bcache.more s" using arg_cong [OF t3(3), of cv_rest] by (simp add: v)
  note same3 = same_logs [OF this]
  let ?t4 = "t3\<lparr>lh_n := 0\<rparr>"
  have "?a \<notin> ?blk ` {0..<?n}" using blk log_area_start [of ?a ?n] by (metis atLeastLessThan_iff imageE)
  then have hdr: "apply_writes ?w3 ((apply_writes ?w1 ?c)(?a := ?H)) ?a = ?H" by (simp add: home_blocks_at)
  have "card {m. cv_refs ?v3 m \<noteq> 0} \<le> card {m. cv_refs v m \<noteq> 0}" by (rule card_mono) auto
  then have room3: "card {m. cv_refs ?v3 m \<noteq> 0} < NBUF" using room by simp
  let ?H5 = "head_block 0 ?blk ?H"
  let ?v4 = "?v3\<lparr>cv_rest := bcache.more ?t4\<rparr>"
  let ?v5 = "?v4\<lparr>cv_content := (cv_content ?v4)(log_start ?t4 := ?H5), cv_writes := cv_writes ?v4 @ [(log_start ?t4, ?H5)]\<rparr>"
  have "runs write_head ?t4 (\<lambda>_ t. cache_inv p (log_dev ?t4) t \<and> cache_obs (log_dev ?t4) t = ?v5)"
    by (rule write_head_runs) (use t3(2,3) same3 idle area room3 hdr in \<open>simp_all add: head_block_def\<close>)
  then obtain t5 where run5: "write_head ?t4 = Ok () t5" and inv5: "cache_inv p (log_dev ?t4) t5"
      and obs5: "cache_obs (log_dev ?t4) t5 = ?v5"
    unfolding runs_unit by blast
  have inv5': "cache_inv p ?dev t5" using inv5 same3 by simp
  have t5: "disk_wr t5 = disk_wr s @ ?w1 @ (?a, ?H) # ?w3 @ [(?a, ?H5)]"
    using arg_cong [OF obs5, of cv_writes] same3 by (simp add: v)
  have img5: "disk_img t5 = disk_img s" using arg_cong [OF obs5, of cv_base] by (simp add: v)
  have "bcache.more t5 = bcache.more ?t4" using arg_cong [OF obs5, of cv_rest] by simp
  note same5 = same_logs [OF this]
  have "commit s = Ok () t5" using pos t1(1) t2(1) t3(1) run5 by (simp add: commit_def bnd_apply do_if_def)
  then show ?thesis using inv5' t5 img5 same3 same5 by (simp add: runs_def commit_writes_def)
qed


subsection \<open>Crash safety\<close>

text \<open>A machine that has just been switched on: an empty cache over the disk \<open>d\<close>.\<close>

definition rebooted :: "nat \<Rightarrow> u32 \<Rightarrow> u32 \<Rightarrow> (u32 \<Rightarrow> block) \<Rightarrow> 'a logs_scheme \<Rightarrow> bool" where
  "rebooted p dev start d r \<longleftrightarrow> cache_inv p dev r \<and> (\<forall>m. refs dev r m = 0) \<and> log_dev r = dev \<and>
     log_start r = start \<and> disk r = d"

lemma log_ready_facts:
  assumes "log_ready start n blk v"
  shows "n < 2 ^ 31" "i < n \<Longrightarrow> blk i \<notin> log_area start n"
  using assms by (simp_all add: log_ready_def)

lemma disk_after:
  "disk_img t = disk_img s \<Longrightarrow> disk_wr t = disk_wr s @ ws \<Longrightarrow> disk t = apply_writes ws (disk s)"
  by (simp add: disk_def apply_writes_append)

lemma recover_after_crash:
  fixes s r :: "'a logs_scheme"
  assumes ready: "commit_ready p s" and c: "c = content (log_dev s) s"
    and boot: "rebooted q (log_dev s) (log_start s) (apply_writes (take k (commit_writes (log_start s) (lh_n s) (lh_block s) c h)) (disk s)) r"
  shows "\<exists>u. recover_from_log r = Ok () u \<and> (\<exists>new \<in> {disk s, after_commit (lh_n s) (lh_block s) c (disk s)}.
    \<forall>m. m \<notin> log_area (log_start s) (nat (lh_n s)) \<longrightarrow> disk u m = new m)"
proof -
  let ?a = "log_start s" and ?n = "lh_n s" and ?blk = "lh_block s"
  have lr: "log_ready ?a (nat ?n) ?blk (cache_obs (log_dev s) s)" and old: "get32 (disk s ?a) 0 = 0" and n0: "0 \<le> ?n"
    using ready by (simp_all add: commit_ready_def)
  have n: "?n < 2 ^ 31" using log_ready_facts(1) [OF lr] by (simp add: nat_less_iff)
  have r: "log_dev r = log_dev s" "log_start r = ?a" "cache_inv q (log_dev r) r" "\<forall>m. refs (log_dev r) r m = 0"
      "disk r = apply_writes (take k (commit_writes ?a ?n ?blk c h)) (disk s)"
    using boot by (simp_all add: rebooted_def)
  note crash = old n0 n log_ready_facts(2) [OF lr] r(5)
  obtain u where u: "recover_from_log r = Ok () u" "disk_img u = disk_img r"
      "disk_wr u = disk_wr r @ recover_writes ?a (disk r)"
    using recover_runs [OF r(3,4)] crash_header [OF crash] r(2) by (auto simp: runs_unit)
  then show ?thesis using commit_crash [OF crash] disk_after [OF u(2,3)] by simp
qed

text \<open>
  Claim C1.  A commit is atomic.  From a state in which the blocks of a transaction are pinned,
  \<open>commit\<close> returns, with the new contents of all of them on the disk.  Whichever prefix of its
  disk writes survives a crash, \<open>recover_from_log\<close> then returns, on a machine with an empty
  cache over that disk, with either all blocks outside the log as they were before the
  transaction or all of them as they are after it.
\<close>

theorem commit_atomic:
  fixes s :: "'a logs_scheme"
  assumes "commit_ready p s"
  shows "\<exists>t ws. commit s = Ok () t \<and> disk_wr t = disk_wr s @ ws \<and>
    (\<forall>m. m \<notin> log_area (log_start s) (nat (lh_n s)) \<longrightarrow>
       disk t m = after_commit (lh_n s) (lh_block s) (content (log_dev s) s) (disk s) m) \<and>
    (\<forall>k q (r :: 'a logs_scheme). rebooted q (log_dev s) (log_start s) (apply_writes (take k ws) (disk s)) r \<longrightarrow>
       (\<exists>u. recover_from_log r = Ok () u \<and>
          (\<exists>new \<in> {disk s, after_commit (lh_n s) (lh_block s) (content (log_dev s) s) (disk s)}.
             \<forall>m. m \<notin> log_area (log_start s) (nat (lh_n s)) \<longrightarrow> disk u m = new m)))"
proof -
  let ?a = "log_start s" and ?n = "lh_n s" and ?blk = "lh_block s" and ?c = "content (log_dev s) s"
  let ?ws = "commit_writes ?a ?n ?blk ?c (?c ?a)"
  obtain t where t: "commit s = Ok () t" "disk_img t = disk_img s" "disk_wr t = disk_wr s @ ?ws"
    using commit_runs [OF assms refl] by (auto simp: runs_unit)
  have lr: "log_ready ?a (nat ?n) ?blk (cache_obs (log_dev s) s)" using assms by (simp add: commit_ready_def)
  have "disk t m = after_commit ?n ?blk ?c (disk s) m" if "m \<notin> log_area ?a (nat ?n)" for m
  proof -
    have "m \<noteq> ?a" using that by auto
    then show ?thesis using log_blocks_out [OF that, of ?blk ?c]
      by (simp add: disk_after [OF t(2,3)] commit_writes_def apply_writes_append home_blocks_at after_commit_def apply_writes_notin)
  qed
  then show ?thesis using t(1,3) recover_after_crash [OF assms refl] by blast
qed

definition boot_logs :: "'a \<Rightarrow> 'a logs_scheme" where
  "boot_logs m = boot_bcache \<lparr>log_start = 2, log_size = 30, outstanding = 0, committing = False, log_dev = 1,
     lh_n = 0, lh_block = (\<lambda>_. 0), \<dots> = m\<rparr>"

text \<open>A transaction that has changed block 50, to all sevens.\<close>

definition seven_buf :: buf where
  "seven_buf = (boot_buf 0)\<lparr>bvalid := True, bdev := 1, bblockno := 50, brefcnt := 1, bdata := (\<lambda>_. 7)\<rparr>"

definition seven_logs :: logs where
  "seven_logs = (boot_logs ())\<lparr>lh_n := 1, lh_block := (\<lambda>_. 50), bufs := boot_buf(0 := seven_buf)\<rparr>"

lemma seven_sel [simp]:
  "calm 0 seven_logs" "slocks seven_logs l = \<lparr>sl_locked = 0, sl_name = [], sl_pid = 0\<rparr>"
  "bufs seven_logs = boot_buf(0 := seven_buf)" "disk seven_logs = (\<lambda>_ _. 0)" "log_dev seven_logs = 1"
  "log_start seven_logs = 2" "lh_n seven_logs = 1" "lh_block seven_logs = (\<lambda>_. 50)"
  by (simp_all add: seven_logs_def boot_logs_def)
    (simp_all add: boot_bcache_def boot_sleeplocks_def boot_consol_def boot_procs_def)

lemma seven_buf_sel [simp]:
  "bvalid seven_buf" "bdev seven_buf = 1" "bblockno seven_buf = 50" "brefcnt seven_buf = 1" "bdata seven_buf = (\<lambda>_. 7)"
  by (simp_all add: seven_buf_def)

lemma seven_area: "log_area 2 (Suc 0) = {2, 3}"
proof -
  have "i \<le> Suc 0 \<longleftrightarrow> i = 0 \<or> i = Suc 0" for i :: nat by auto
  then show ?thesis by (auto simp: log_area_def conj_disj_distribL ex_disj_distrib)
qed

lemma seven_one_buf: "one_buf 1 (boot_buf(0 := seven_buf))"
  by (auto simp: one_buf_def boot_buf_def)

lemma seven_slot: "slot 1 (boot_buf(0 := seven_buf)) n = (if n = 50 then Some 0 else None)"
proof (cases "n = 50")
  case True
  then show ?thesis by (simp add: slot_eq [OF seven_one_buf] NBUF_def MAXOPBLOCKS_def)
next
  case False
  have "slot 1 (boot_buf(0 := seven_buf)) n \<noteq> Some b" for b
    using False by (auto simp: slot_eq [OF seven_one_buf] boot_buf_def)
  then show ?thesis using False by auto
qed

lemma seven_ready: "commit_ready 0 seven_logs"
proof -
  have refs: "refs 1 seven_logs = (\<lambda>n. if n = 50 then 1 else 0)"
    by (simp add: fun_eq_iff refs_def seven_slot)
  have held: "held_buf 1 seven_logs n = None" for n by (simp add: held_buf_def seven_slot)
  have "ring (boot_buf(0 := seven_buf)) [0..<NBUF]" by (rule boot_ring_upd) (simp_all add: seven_buf_def)
  then have "cache_inv 0 1 seven_logs"
    using seven_one_buf by (auto simp: cache_inv_def buf_ok_def boot_buf_def)
  moreover have "{m. refs 1 seven_logs m \<noteq> 0} = {50}" by (auto simp: refs)
  ultimately show ?thesis
    by (simp add: seven_area commit_ready_def log_ready_def pinned_def refs held get32_def NBUF_def MAXOPBLOCKS_def)
qed

theorem commit_atomic_witness: "\<exists>t. commit seven_logs = Ok () t \<and> disk t 50 = (\<lambda>_. 7)"
  using commit_atomic [OF seven_ready] by (auto simp: seven_area after_commit_def content_def seven_slot)


subsection \<open>Adding a block to the transaction\<close>

lemma take_lock_logs [simp]:
  "(take_lock l s)\<lparr>lh_n := x\<rparr> = take_lock l (s\<lparr>lh_n := x\<rparr>)" "(take_lock l s)\<lparr>lh_block := f\<rparr> = take_lock l (s\<lparr>lh_block := f\<rparr>)"
  "lock_free l (s\<lparr>lh_n := x\<rparr>) = lock_free l s" "lock_free l (s\<lparr>lh_block := f\<rparr>) = lock_free l s"
  "cpu_ok (s\<lparr>lh_n := x\<rparr>) = cpu_ok s" "cpu_ok (s\<lparr>lh_block := f\<rparr>) = cpu_ok s"
  "lh_n (take_lock l s) = lh_n s" "lh_block (take_lock l s) = lh_block s" "log_size (take_lock l s) = log_size s"
  "outstanding (take_lock l s) = outstanding s"
  by (simp_all add: take_lock_def off_state_def lock_free_def cpu_ok_def sie_on_def)

lemma log_find_list: "log_find blk b xs n = (case List.find (\<lambda>i. blk i = b) xs of Some i \<Rightarrow> i | None \<Rightarrow> n)"
  by (induction xs) simp_all

lemma bpin_locked:
  assumes "calm p s"
  shows "bpin b (take_lock L_log s) = Ok () (take_lock L_log (s\<lparr>bufs := (bufs s)(b := (bufs s b)\<lparr>brefcnt := brefcnt (bufs s b) + 1\<rparr>)\<rparr>))"
  unfolding bpin_def using assms by (intro locking_Ok) (simp_all add: calm_simps upd_buf_def)

definition log_list :: "'a logs_scheme \<Rightarrow> u32 list" where
  "log_list s = map (lh_block s) [0..<nat (lh_n s)]"

text \<open>
  Claim C19.  \<open>log_write\<close> panics if the log is full or no operation is open; otherwise it returns,
  having appended the block to the transaction and pinned its buffer if the block was not yet
  in it, and having changed nothing if it was (absorption).
\<close>

theorem log_write_absorbs:
  fixes s :: "'a logs_scheme"
  assumes "calm p s" and "0 \<le> lh_n s" and no: "no = bblockno (bufs s b)"
  shows "if lh_n s \<ge> LOGSIZE \<or> lh_n s \<ge> log_size s - 1 then log_write b s = Panic ''too big a transaction''
    else if outstanding s < 1 then log_write b s = Panic ''log_write outside of trans''
    else if no \<in> set (log_list s) then log_write b s = Ok () s
    else \<exists>t. log_write b s = Ok () t \<and> log_list t = log_list s @ [no] \<and> lh_n t = lh_n s + 1 \<and>
      bufs t = (bufs s)(b := (bufs s b)\<lparr>brefcnt := brefcnt (bufs s b) + 1\<rparr>)"
proof -
  let ?find = "List.find (\<lambda>i. lh_block s i = no) [0..<nat (lh_n s)]"
  have absorbed: "log_write b s = Ok () s"
    if ok: "\<not> (lh_n s \<ge> LOGSIZE \<or> lh_n s \<ge> log_size s - 1)" "\<not> outstanding s < 1" and found: "?find = Some i" for i
  proof -
    have "lh_block s i = no" "i \<noteq> nat (lh_n s)" using find_upt_from(1) [OF found] by auto
    then have "s\<lparr>lh_block := (lh_block s)(i := no)\<rparr> = s" by (simp add: fun_upd_idem)
    then show ?thesis
      unfolding log_write_def using assms(1) ok found \<open>i \<noteq> _\<close> no
      by (intro locking_Ok) (auto simp: calm_simps exec log_find_list do_if_def)
  qed
  have appended: "log_write b s = Ok () (s\<lparr>lh_block := (lh_block s)(nat (lh_n s) := no),
      bufs := (bufs s)(b := (bufs s b)\<lparr>brefcnt := brefcnt (bufs s b) + 1\<rparr>), lh_n := lh_n s + 1\<rparr>)"
    if ok: "\<not> (lh_n s \<ge> LOGSIZE \<or> lh_n s \<ge> log_size s - 1)" "\<not> outstanding s < 1" and "?find = None"
    unfolding log_write_def using assms(1) that no
    by (intro locking_Ok) (auto simp: calm_simps exec log_find_list bpin_locked)
  have full: "log_write b s = Panic ''too big a transaction''" if "lh_n s \<ge> LOGSIZE \<or> lh_n s \<ge> log_size s - 1"
    unfolding log_write_def using assms(1) that by (intro locking_Panic) (auto simp: calm_simps exec)
  have closed: "log_write b s = Panic ''log_write outside of trans''"
    if "\<not> (lh_n s \<ge> LOGSIZE \<or> lh_n s \<ge> log_size s - 1)" "outstanding s < 1"
    unfolding log_write_def using assms(1) that by (intro locking_Panic) (auto simp: calm_simps exec)
  show ?thesis
  proof (cases ?find)
    case None
    then have new: "no \<notin> set (log_list s)" by (auto simp: log_list_def find_None_iff)
    let ?t = "s\<lparr>lh_block := (lh_block s)(nat (lh_n s) := no),
      bufs := (bufs s)(b := (bufs s b)\<lparr>brefcnt := brefcnt (bufs s b) + 1\<rparr>), lh_n := lh_n s + 1\<rparr>"
    have "log_list ?t = log_list s @ [no]" using assms(2) by (simp add: log_list_def nat_add_distrib)
    then show ?thesis using full closed appended [OF _ _ None] new by simp
  next
    case (Some i)
    then have "no \<in> set (log_list s)" using find_upt_from(1) [OF Some] by (auto simp: log_list_def)
    then show ?thesis using full closed absorbed [OF _ _ Some] by simp
  qed
qed

lemma boot_logs_simps [simp]:
  "calm 0 (boot_logs m)" "bufs (boot_logs m) = boot_buf" "disk (boot_logs m) = (\<lambda>_ _. 0)" "lh_n (boot_logs m) = 0"
  "log_size (boot_logs m) = 30" "log_dev (boot_logs m) = 1" "log_start (boot_logs m) = 2" "outstanding (boot_logs m) = 0"
  by (simp_all add: boot_logs_def) (simp_all add: boot_bcache_def boot_sleeplocks_def boot_consol_def boot_procs_def)

lemma calm_outstanding [simp]: "calm p (s\<lparr>outstanding := n\<rparr>) = calm p s"
  by (simp add: calm_def cpu_ok_def lock_free_def sie_on_def)

theorem log_write_absorbs_witness:
  "\<exists>t. log_write 3 ((boot_logs ())\<lparr>outstanding := 1\<rparr>) = Ok () t \<and> log_list t = [0]"
  using log_write_absorbs [of 0 "(boot_logs ())\<lparr>outstanding := 1\<rparr>" 0 3]
  by (auto simp: log_list_def LOGSIZE_def MAXOPBLOCKS_def boot_buf_def)

end
