(* ===== verification/Xv6_Fs.thy ===== *)
theory Xv6_Fs
  imports Xv6_Log
begin

text \<open>
  The file system proper, \<^verbatim>\<open>kernel/fs.c\<close> with the on-disk format of \<^verbatim>\<open>kernel/fs.h\<close> and the
  in-memory inode of \<^verbatim>\<open>kernel/file.h\<close>: block allocator, inodes, file contents, directories
  and path names.

  An in-memory inode is its index in \<^verbatim>\<open>itable.inode\<close>; a pointer that may be null is an option.
  A path and a path element are the bytes before the terminating zero.  A buffer on the
  kernel stack is passed by value: \<open>readi\<close> into \<open>Local\<close> returns the bytes it read.
\<close>

subsection \<open>kernel/fs.h and kernel/stat.h\<close>

definition ROOTINO :: u32 where "ROOTINO = 1"
definition FSMAGIC :: u32 where "FSMAGIC = 0x10203040"
definition NDIRECT :: nat where "NDIRECT = 12"
definition NINDIRECT :: nat where "NINDIRECT = BSIZE div 4"
definition MAXFILE :: nat where "MAXFILE = NDIRECT + NINDIRECT"
definition sizeof_dinode :: nat where "sizeof_dinode = 64"
definition IPB :: nat where "IPB = BSIZE div sizeof_dinode"
definition IBLOCK :: "u32 \<Rightarrow> superblock \<Rightarrow> u32" where
  "IBLOCK i sb = i div of_nat IPB + sb_inodestart sb"
definition BPB :: nat where "BPB = BSIZE * 8"
definition BBLOCK :: "u32 \<Rightarrow> superblock \<Rightarrow> u32" where
  "BBLOCK b sb = b div of_nat BPB + sb_bmapstart sb"
definition DIRSIZ :: nat where "DIRSIZ = 14"
definition sizeof_dirent :: nat where "sizeof_dirent = 16"

definition T_DIR :: u16 where "T_DIR = 1"
definition T_FILE :: u16 where "T_FILE = 2"
definition T_DEVICE :: u16 where "T_DEVICE = 3"

record dinode =
  d_type :: u16
  d_major :: u16
  d_minor :: u16
  d_nlink :: u16
  d_size :: u32
  d_addrs :: "nat \<Rightarrow> u32"

record dirent =
  de_inum :: u16
  de_name :: "u8 list"

record inode =
  idev :: u32
  inum :: u32
  iref :: int
  ivalid :: bool
  itype :: u16
  imajor :: u16
  iminor :: u16
  inlink :: u16
  isize :: u32
  iaddrs :: "nat \<Rightarrow> u32"

record stat =
  st_dev :: u32
  st_ino :: u32
  st_type :: u16
  st_nlink :: u16
  st_size :: u64

record fsys = logs +
  sb :: superblock
  inodes :: "nat \<Rightarrow> inode"

definition upd_inode :: "nat \<Rightarrow> (inode \<Rightarrow> inode) \<Rightarrow> ('a fsys_scheme, unit) kfun" where
  "upd_inode i f = modify (\<lambda>s. s\<lparr>inodes := (inodes s)(i := f (inodes s i))\<rparr>)"

definition upd_data :: "nat \<Rightarrow> (block \<Rightarrow> block) \<Rightarrow> ('a bcache_scheme, unit) kfun" where
  "upd_data b f = upd_buf b (\<lambda>r. r\<lparr>bdata := f (bdata r)\<rparr>)"

subsection \<open>Super block\<close>

definition superblock_of :: "block \<Rightarrow> superblock" where
  "superblock_of d = \<lparr>sb_magic = get32 d 0, sb_size = get32 d 4, sb_nblocks = get32 d 8,
     sb_ninodes = get32 d 12, sb_nlog = get32 d 16, sb_logstart = get32 d 20,
     sb_inodestart = get32 d 24, sb_bmapstart = get32 d 28\<rparr>"

definition readsb :: "u32 \<Rightarrow> ('a fsys_scheme, unit) kfun" where
  "readsb dev =
     bnd (bread dev 1) (\<lambda>bp.
     bnd (modify (\<lambda>s. s\<lparr>sb := superblock_of (bdata (bufs s bp))\<rparr>)) (\<lambda>_.
     brelse bp))"

definition fsinit :: "u32 \<Rightarrow> ('a fsys_scheme, unit) kfun" where
  "fsinit dev =
     bnd (readsb dev) (\<lambda>_.
     bnd (gets sb) (\<lambda>b.
     if sb_magic b \<noteq> FSMAGIC then panic ''invalid file system'' else initlog dev b))"

subsection \<open>Blocks\<close>

definition bzero :: "u32 \<Rightarrow> u32 \<Rightarrow> ('a logs_scheme, unit) kfun" where
  "bzero dev bno =
     bnd (bread dev bno) (\<lambda>bp.
     bnd (upd_data bp (\<lambda>d. \<lambda>i. 0)) (\<lambda>_.
     bnd (log_write bp) (\<lambda>_.
     brelse bp)))"

text \<open>
  The inner loop of \<open>balloc\<close>: the first clear bit of the bitmap block that starts at block
  \<open>b\<close>.  The outer loop visits \<open>b = 0, BPB, 2 * BPB, ...\<close> below the size of the file system.
\<close>

definition bit_clear :: "block \<Rightarrow> nat \<Rightarrow> bool" where
  "bit_clear d bi \<longleftrightarrow> d (bi div 8) AND push_bit (bi mod 8) 1 = 0"

definition free_bit :: "block \<Rightarrow> nat \<Rightarrow> nat \<Rightarrow> nat option" where
  "free_bit d b nblk = List.find (bit_clear d) [0..<min BPB (nblk - b)]"

definition balloc :: "u32 \<Rightarrow> ('a fsys_scheme, u32) kfun" where
  "balloc dev =
     bnd (gets sb) (\<lambda>sblk.
     bnd (for_until (map (\<lambda>k. k * BPB) [0..<(unat (sb_size sblk) + BPB - 1) div BPB]) (\<lambda>b.
       bnd (bread dev (BBLOCK (of_nat b) sblk)) (\<lambda>bp.
       bnd (gets (\<lambda>s. free_bit (bdata (bufs s bp)) b (unat (sb_size sblk)))) (\<lambda>r.
       case r of
         Some bi \<Rightarrow>
           bnd (upd_data bp (\<lambda>d. d(bi div 8 := d (bi div 8) OR push_bit (bi mod 8) 1))) (\<lambda>_.
           bnd (log_write bp) (\<lambda>_.
           bnd (brelse bp) (\<lambda>_.
           bnd (bzero dev (of_nat (b + bi))) (\<lambda>_.
           ret (Some (of_nat (b + bi)))))))
       | None \<Rightarrow> bnd (brelse bp) (\<lambda>_. ret None))))) (\<lambda>r.
     case r of
       Some a \<Rightarrow> ret a
     | None \<Rightarrow> bnd (printf (''balloc: out of blocks'' @ nl) []) (\<lambda>_. ret 0)))"

definition bfree :: "u32 \<Rightarrow> u32 \<Rightarrow> ('a fsys_scheme, unit) kfun" where
  "bfree dev b =
     bnd (gets sb) (\<lambda>sblk.
     bnd (bread dev (BBLOCK b sblk)) (\<lambda>bp.
     let bi = unat b mod BPB in
     bnd (gets (\<lambda>s. bit_clear (bdata (bufs s bp)) bi)) (\<lambda>free.
     if free then panic ''freeing free block''
     else bnd (upd_data bp (\<lambda>d. d(bi div 8 := d (bi div 8) AND NOT (push_bit (bi mod 8) 1)))) (\<lambda>_.
          bnd (log_write bp) (\<lambda>_.
          brelse bp)))))"

subsection \<open>Inodes\<close>

definition iinit :: "('a fsys_scheme, unit) kfun" where
  "iinit =
     bnd (initlock L_itable ''itable'') (\<lambda>_.
     for_each [0..<NINODE] (\<lambda>i. initsleeplock (SL_inode i) ''inode''))"

text \<open>The inode table scan of \<open>iget\<close>: the entry in use for the inode, or the first free one.\<close>

definition iget_hit :: "u32 \<Rightarrow> u32 \<Rightarrow> (nat \<Rightarrow> inode) \<Rightarrow> nat option" where
  "iget_hit dev ino t =
     List.find (\<lambda>i. iref (t i) > 0 \<and> idev (t i) = dev \<and> inum (t i) = ino) [0..<NINODE]"

definition iget_empty :: "(nat \<Rightarrow> inode) \<Rightarrow> nat option" where
  "iget_empty t = List.find (\<lambda>i. iref (t i) = 0) [0..<NINODE]"

definition iget :: "u32 \<Rightarrow> u32 \<Rightarrow> ('a fsys_scheme, nat) kfun" where
  "iget dev ino =
     bnd (acquire L_itable) (\<lambda>_.
     bnd (gets (\<lambda>s. (iget_hit dev ino (inodes s), iget_empty (inodes s)))) (\<lambda>(hit, empty).
     case hit of
       Some ip \<Rightarrow>
         bnd (upd_inode ip (\<lambda>r. r\<lparr>iref := iref r + 1\<rparr>)) (\<lambda>_.
         bnd (release L_itable) (\<lambda>_.
         ret ip))
     | None \<Rightarrow>
         (case empty of
            None \<Rightarrow> panic ''iget: no inodes''
          | Some ip \<Rightarrow>
              bnd (upd_inode ip (\<lambda>r. r\<lparr>idev := dev, inum := ino, iref := 1, ivalid := False\<rparr>)) (\<lambda>_.
              bnd (release L_itable) (\<lambda>_.
              ret ip)))))"

text \<open>The on-disk inode at byte \<open>o\<close> of its block.\<close>

definition dinode_at :: "block \<Rightarrow> nat \<Rightarrow> dinode" where
  "dinode_at d p = \<lparr>d_type = get16 d p, d_major = get16 d (p + 2), d_minor = get16 d (p + 4),
     d_nlink = get16 d (p + 6), d_size = get32 d (p + 8), d_addrs = (\<lambda>i. get32 d (p + 12 + 4 * i))\<rparr>"

definition dinode_off :: "u32 \<Rightarrow> nat" where
  "dinode_off ino = (unat ino mod IPB) * sizeof_dinode"

definition ialloc :: "u32 \<Rightarrow> u16 \<Rightarrow> ('a fsys_scheme, nat option) kfun" where
  "ialloc dev type =
     bnd (gets sb) (\<lambda>sblk.
     bnd (for_until [1..<unat (sb_ninodes sblk)] (\<lambda>ino.
       bnd (bread dev (IBLOCK (of_nat ino) sblk)) (\<lambda>bp.
       bnd (gets (\<lambda>s. d_type (dinode_at (bdata (bufs s bp)) (dinode_off (of_nat ino))) = 0)) (\<lambda>free.
       if free
       then let p = dinode_off (of_nat ino) in
            bnd (upd_data bp (\<lambda>d. \<lambda>i. if p \<le> i \<and> i < p + sizeof_dinode then 0 else d i)) (\<lambda>_.
            bnd (upd_data bp (put16 p type)) (\<lambda>_.
            bnd (log_write bp) (\<lambda>_.
            bnd (brelse bp) (\<lambda>_.
            bnd (iget dev (of_nat ino)) (\<lambda>ip.
            ret (Some ip))))))
       else bnd (brelse bp) (\<lambda>_. ret None))))) (\<lambda>r.
     case r of
       Some ip \<Rightarrow> ret (Some ip)
     | None \<Rightarrow> bnd (printf (''ialloc: no inodes'' @ nl) []) (\<lambda>_. ret None)))"

definition put_dinode :: "inode \<Rightarrow> nat \<Rightarrow> block \<Rightarrow> block" where
  "put_dinode ip p d =
     fold (\<lambda>i. put32 (p + 12 + 4 * i) (iaddrs ip i)) [0..<NDIRECT + 1]
       (put32 (p + 8) (isize ip)
       (put16 (p + 6) (inlink ip)
       (put16 (p + 4) (iminor ip)
       (put16 (p + 2) (imajor ip)
       (put16 p (itype ip) d)))))"

definition iupdate :: "nat \<Rightarrow> ('a fsys_scheme, unit) kfun" where
  "iupdate i =
     bnd (gets (\<lambda>s. (inodes s i, sb s))) (\<lambda>(ip, sblk).
     bnd (bread (idev ip) (IBLOCK (inum ip) sblk)) (\<lambda>bp.
     bnd (upd_data bp (put_dinode ip (dinode_off (inum ip)))) (\<lambda>_.
     bnd (log_write bp) (\<lambda>_.
     brelse bp))))"

definition idup :: "nat \<Rightarrow> ('a fsys_scheme, nat) kfun" where
  "idup i = bnd (locking L_itable (upd_inode i (\<lambda>r. r\<lparr>iref := iref r + 1\<rparr>))) (\<lambda>_. ret i)"

definition ilock_load :: "nat \<Rightarrow> ('a fsys_scheme, unit) kfun" where
  "ilock_load i =
     bnd (gets (\<lambda>s. ivalid (inodes s i))) (\<lambda>v.
     do_if (\<not> v)
       (bnd (gets (\<lambda>s. (inodes s i, sb s))) (\<lambda>(ip, sblk).
        bnd (bread (idev ip) (IBLOCK (inum ip) sblk)) (\<lambda>bp.
        bnd (gets (\<lambda>s. dinode_at (bdata (bufs s bp)) (dinode_off (inum ip)))) (\<lambda>dip.
        bnd (upd_inode i (\<lambda>r. r\<lparr>itype := d_type dip, imajor := d_major dip, iminor := d_minor dip,
                               inlink := d_nlink dip, isize := d_size dip,
                               iaddrs := (\<lambda>k. if k < NDIRECT + 1 then d_addrs dip k else iaddrs r k)\<rparr>)) (\<lambda>_.
        bnd (brelse bp) (\<lambda>_.
        bnd (upd_inode i (\<lambda>r. r\<lparr>ivalid := True\<rparr>)) (\<lambda>_.
        bnd (gets (\<lambda>s. itype (inodes s i) = 0)) (\<lambda>bad.
        do_if bad (panic ''ilock: no type''))))))))))"

definition ilock :: "nat option \<Rightarrow> ('a fsys_scheme, unit) kfun" where
  "ilock ipo =
     (case ipo of
        None \<Rightarrow> panic ''ilock''
      | Some i \<Rightarrow>
          bnd (gets (\<lambda>s. iref (inodes s i) < 1)) (\<lambda>bad.
          if bad then panic ''ilock''
          else bnd (acquiresleep (SL_inode i)) (\<lambda>_. ilock_load i)))"

definition iunlock :: "nat option \<Rightarrow> ('a fsys_scheme, unit) kfun" where
  "iunlock ipo =
     (case ipo of
        None \<Rightarrow> panic ''iunlock''
      | Some i \<Rightarrow>
          bnd (holdingsleep (SL_inode i)) (\<lambda>h.
          bnd (gets (\<lambda>s. iref (inodes s i) < 1)) (\<lambda>bad.
          if \<not> h \<or> bad then panic ''iunlock''
          else releasesleep (SL_inode i))))"

subsection \<open>Contents\<close>

definition bmap_direct :: "nat \<Rightarrow> nat \<Rightarrow> ('a fsys_scheme, u32) kfun" where
  "bmap_direct i k =
     bnd (gets (\<lambda>s. inodes s i)) (\<lambda>ip.
     if iaddrs ip k \<noteq> 0 then ret (iaddrs ip k)
     else bnd (balloc (idev ip)) (\<lambda>a.
          if a = 0 then ret 0
          else bnd (upd_inode i (\<lambda>r. r\<lparr>iaddrs := (iaddrs r)(k := a)\<rparr>)) (\<lambda>_. ret a)))"

definition bmap :: "nat \<Rightarrow> u32 \<Rightarrow> ('a fsys_scheme, u32) kfun" where
  "bmap i bn0 =
     (let bn = unat bn0 in
      if bn < NDIRECT then bmap_direct i bn
      else if bn - NDIRECT < NINDIRECT
      then bnd (bmap_direct i NDIRECT) (\<lambda>a.
           if a = 0 then ret 0
           else bnd (gets (\<lambda>s. idev (inodes s i))) (\<lambda>dev.
                bnd (bread dev a) (\<lambda>bp.
                bnd (gets (\<lambda>s. get32 (bdata (bufs s bp)) (4 * (bn - NDIRECT)))) (\<lambda>addr.
                bnd (if addr \<noteq> 0 then ret addr
                     else bnd (balloc dev) (\<lambda>addr.
                          bnd (do_if (addr \<noteq> 0)
                                (bnd (upd_data bp (put32 (4 * (bn - NDIRECT)) addr)) (\<lambda>_.
                                 log_write bp))) (\<lambda>_.
                          ret addr))) (\<lambda>addr.
                bnd (brelse bp) (\<lambda>_.
                ret addr))))))
      else panic ''bmap: out of range'')"

definition itrunc :: "nat \<Rightarrow> ('a fsys_scheme, unit) kfun" where
  "itrunc i =
     bnd (for_each [0..<NDIRECT] (\<lambda>k.
       bnd (gets (\<lambda>s. inodes s i)) (\<lambda>ip.
       do_if (iaddrs ip k \<noteq> 0)
         (bnd (bfree (idev ip) (iaddrs ip k)) (\<lambda>_.
          upd_inode i (\<lambda>r. r\<lparr>iaddrs := (iaddrs r)(k := 0)\<rparr>)))))) (\<lambda>_.
     bnd (gets (\<lambda>s. inodes s i)) (\<lambda>ip.
     bnd (do_if (iaddrs ip NDIRECT \<noteq> 0)
       (bnd (bread (idev ip) (iaddrs ip NDIRECT)) (\<lambda>bp.
        bnd (for_each [0..<NINDIRECT] (\<lambda>j.
          bnd (gets (\<lambda>s. get32 (bdata (bufs s bp)) (4 * j))) (\<lambda>a.
          do_if (a \<noteq> 0) (bfree (idev ip) a)))) (\<lambda>_.
        bnd (brelse bp) (\<lambda>_.
        bnd (bfree (idev ip) (iaddrs ip NDIRECT)) (\<lambda>_.
        upd_inode i (\<lambda>r. r\<lparr>iaddrs := (iaddrs r)(NDIRECT := 0)\<rparr>))))))) (\<lambda>_.
     bnd (upd_inode i (\<lambda>r. r\<lparr>isize := 0\<rparr>)) (\<lambda>_.
     iupdate i))))"

definition iput :: "nat \<Rightarrow> ('a fsys_scheme, unit) kfun" where
  "iput i =
     bnd (acquire L_itable) (\<lambda>_.
     bnd (gets (\<lambda>s. iref (inodes s i) = 1 \<and> ivalid (inodes s i) \<and> inlink (inodes s i) = 0)) (\<lambda>dead.
     bnd (do_if dead
       (bnd (acquiresleep (SL_inode i)) (\<lambda>_.
        bnd (release L_itable) (\<lambda>_.
        bnd (itrunc i) (\<lambda>_.
        bnd (upd_inode i (\<lambda>r. r\<lparr>itype := 0\<rparr>)) (\<lambda>_.
        bnd (iupdate i) (\<lambda>_.
        bnd (upd_inode i (\<lambda>r. r\<lparr>ivalid := False\<rparr>)) (\<lambda>_.
        bnd (releasesleep (SL_inode i)) (\<lambda>_.
        acquire L_itable))))))))) (\<lambda>_.
     bnd (upd_inode i (\<lambda>r. r\<lparr>iref := iref r - 1\<rparr>)) (\<lambda>_.
     release L_itable))))"

definition iunlockput :: "nat \<Rightarrow> ('a fsys_scheme, unit) kfun" where
  "iunlockput i = bnd (iunlock (Some i)) (\<lambda>_. iput i)"

definition stati :: "nat \<Rightarrow> ('a fsys_scheme, stat) kfun" where
  "stati i = gets (\<lambda>s. let ip = inodes s i in
     \<lparr>st_dev = idev ip, st_ino = inum ip, st_type = itype ip, st_nlink = inlink ip,
      st_size = ucast (isize ip)\<rparr>)"


text \<open>\<^verbatim>\<open>min(n - tot, BSIZE - off%BSIZE)\<close>: what one round of \<open>readi\<close> or \<open>writei\<close> copies.\<close>

definition rw_chunk :: "u32 \<Rightarrow> u32 \<Rightarrow> u32" where
  "rw_chunk left off = min left (of_nat BSIZE - off mod of_nat BSIZE)"

lemma rw_chunk_le: "rw_chunk left off \<le> left"
  by (simp add: rw_chunk_def)

lemma rw_chunk_pos: "0 < left \<Longrightarrow> 0 < rw_chunk left off"
proof -
  assume "0 < left"
  have "off mod 1024 < 1024" by (simp add: word_mod_less_divisor)
  then have "0 < (1024 :: u32) - off mod 1024"
    using word_gt_0 [of "1024 - off mod 1024"] by auto
  with \<open>0 < left\<close> show ?thesis by (simp add: rw_chunk_def BSIZE_def min_def)
qed

lemma rw_chunk_step:
  assumes "tot < n"
  shows "unat (n - (tot + rw_chunk (n - tot) off)) < unat (n - tot)"
proof -
  have pos: "0 < n - tot" using assms word_gt_0 [of "n - tot"] by auto
  have "unat (n - tot - rw_chunk (n - tot) off) = unat (n - tot) - unat (rw_chunk (n - tot) off)"
    by (rule unat_sub_le) (rule rw_chunk_le)
  moreover have "0 < unat (rw_chunk (n - tot) off)"
    using rw_chunk_pos [OF pos, of off] by (simp add: word_less_nat_alt)
  moreover have "0 < unat (n - tot)"
    using pos by (simp add: word_less_nat_alt)
  ultimately show ?thesis by (simp add: algebra_simps)
qed

definition block_bytes :: "block \<Rightarrow> nat \<Rightarrow> nat \<Rightarrow> u8 list" where
  "block_bytes d from n = map d [from..<from + n]"

definition put_bytes :: "nat \<Rightarrow> u8 list \<Rightarrow> block \<Rightarrow> block" where
  "put_bytes from bs d = (\<lambda>i. if from \<le> i \<and> i < from + length bs then bs ! (i - from) else d i)"

function readi_loop :: "nat \<Rightarrow> copydst \<Rightarrow> u32 \<Rightarrow> u32 \<Rightarrow> u32 \<Rightarrow> u8 list \<Rightarrow>
    ('a fsys_scheme, int \<times> u8 list) kfun" where
  "readi_loop i dst off n tot acc s =
     (if tot < n
      then bnd (bmap i (off div of_nat BSIZE)) (\<lambda>addr.
           if addr = 0 then ret (sint tot, acc)
           else bnd (gets (\<lambda>s. idev (inodes s i))) (\<lambda>dev.
                bnd (bread dev addr) (\<lambda>bp.
                bnd (gets (\<lambda>s. block_bytes (bdata (bufs s bp)) (unat off mod BSIZE)
                                 (unat (rw_chunk (n - tot) off)))) (\<lambda>bs.
                bnd (either_copyout dst bs) (\<lambda>r.
                bnd (brelse bp) (\<lambda>_.
                if r = - 1 then ret (- 1, acc)
                else readi_loop i (dst_plus dst (unat (rw_chunk (n - tot) off)))
                       (off + rw_chunk (n - tot) off) n (tot + rw_chunk (n - tot) off) (acc @ bs)))))))
      else ret (sint tot, acc)) s"
  by pat_completeness auto
termination
  by (relation "measure (\<lambda>(i, dst, off, n, tot, acc, s). unat (n - tot))") (simp_all add: rw_chunk_step)

declare readi_loop.simps [simp del]

definition readi :: "nat \<Rightarrow> copydst \<Rightarrow> u32 \<Rightarrow> u32 \<Rightarrow> ('a fsys_scheme, int \<times> u8 list) kfun" where
  "readi i dst off n =
     bnd (gets (\<lambda>s. isize (inodes s i))) (\<lambda>sz.
     if off > sz \<or> off + n < off then ret (0, [])
     else readi_loop i dst off (if off + n > sz then sz - off else n) 0 [])"

function writei_loop :: "nat \<Rightarrow> copysrc \<Rightarrow> u32 \<Rightarrow> u32 \<Rightarrow> u32 \<Rightarrow> ('a fsys_scheme, u32 \<times> u32) kfun" where
  "writei_loop i src off n tot s =
     (if tot < n
      then bnd (bmap i (off div of_nat BSIZE)) (\<lambda>addr.
           if addr = 0 then ret (tot, off)
           else bnd (gets (\<lambda>s. idev (inodes s i))) (\<lambda>dev.
                bnd (bread dev addr) (\<lambda>bp.
                bnd (either_copyin src (unat (rw_chunk (n - tot) off))) (\<lambda>r.
                bnd (upd_data bp (put_bytes (unat off mod BSIZE) (snd r))) (\<lambda>_.
                if fst r = - 1 then bnd (brelse bp) (\<lambda>_. ret (tot, off))
                else bnd (log_write bp) (\<lambda>_.
                     bnd (brelse bp) (\<lambda>_.
                     writei_loop i (src_plus src (unat (rw_chunk (n - tot) off)))
                       (off + rw_chunk (n - tot) off) n (tot + rw_chunk (n - tot) off))))))))
      else ret (tot, off)) s"
  by pat_completeness auto
termination
  by (relation "measure (\<lambda>(i, src, off, n, tot, s). unat (n - tot))") (simp_all add: rw_chunk_step)

declare writei_loop.simps [simp del]

definition writei :: "nat \<Rightarrow> copysrc \<Rightarrow> u32 \<Rightarrow> u32 \<Rightarrow> ('a fsys_scheme, int) kfun" where
  "writei i src off n =
     bnd (gets (\<lambda>s. isize (inodes s i))) (\<lambda>sz.
     if off > sz \<or> off + n < off then ret (- 1)
     else if off + n > of_nat (MAXFILE * BSIZE) then ret (- 1)
     else bnd (writei_loop i src off n 0) (\<lambda>(tot, off).
          bnd (do_if (off > sz) (upd_inode i (\<lambda>r. r\<lparr>isize := off\<rparr>))) (\<lambda>_.
          bnd (iupdate i) (\<lambda>_.
          ret (sint tot)))))"

subsection \<open>Directories\<close>

text \<open>\<open>strncmp\<close> and \<open>strncpy\<close> of \<^verbatim>\<open>kernel/string.c\<close> on strings held by value.\<close>

definition chd :: "u8 list \<Rightarrow> u8" where
  "chd xs = (case xs of [] \<Rightarrow> 0 | x # _ \<Rightarrow> x)"

fun strncmp_val :: "u8 list \<Rightarrow> u8 list \<Rightarrow> nat \<Rightarrow> int" where
  "strncmp_val p q 0 = 0"
| "strncmp_val p q (Suc n) =
     (if chd p \<noteq> 0 \<and> chd p = chd q then strncmp_val (tl p) (tl q) n
      else uint (chd p) - uint (chd q))"

definition strncpy_val :: "u8 list \<Rightarrow> nat \<Rightarrow> u8 list" where
  "strncpy_val t n = (let c = takeWhile (\<lambda>b. b \<noteq> 0) (take n t) in c @ replicate (n - length c) 0)"

definition namecmp :: "u8 list \<Rightarrow> u8 list \<Rightarrow> int" where
  "namecmp p q = strncmp_val p q DIRSIZ"

definition dirent_of :: "u8 list \<Rightarrow> dirent" where
  "dirent_of bs = \<lparr>de_inum = le_word (take 2 bs), de_name = drop 2 bs\<rparr>"

definition dirent_bytes :: "dirent \<Rightarrow> u8 list" where
  "dirent_bytes de = le_bytes 2 (de_inum de) @ de_name de"

definition dirent_offs :: "u32 \<Rightarrow> u32 list" where
  "dirent_offs sz = map (\<lambda>k. of_nat (k * sizeof_dirent)) [0..<(unat sz + sizeof_dirent - 1) div sizeof_dirent]"

definition read_dirent :: "string \<Rightarrow> nat \<Rightarrow> u32 \<Rightarrow> ('a fsys_scheme, dirent) kfun" where
  "read_dirent msg dp off =
     bnd (readi dp Local off (of_nat sizeof_dirent)) (\<lambda>(r, bs).
     if r \<noteq> int sizeof_dirent then panic msg else ret (dirent_of bs))"

definition dirlookup :: "nat \<Rightarrow> u8 list \<Rightarrow> ('a fsys_scheme, (nat \<times> u32) option) kfun" where
  "dirlookup dp name =
     bnd (gets (\<lambda>s. inodes s dp)) (\<lambda>d.
     if itype d \<noteq> T_DIR then panic ''dirlookup not DIR''
     else for_until (dirent_offs (isize d)) (\<lambda>off.
       bnd (read_dirent ''dirlookup read'' dp off) (\<lambda>de.
       if de_inum de = 0 then ret None
       else if namecmp name (de_name de) = 0
       then bnd (iget (idev d) (ucast (de_inum de))) (\<lambda>ip. ret (Some (ip, off)))
       else ret None)))"

definition dirlink :: "nat \<Rightarrow> u8 list \<Rightarrow> u32 \<Rightarrow> ('a fsys_scheme, int) kfun" where
  "dirlink dp name ino =
     bnd (dirlookup dp name) (\<lambda>hit.
     case hit of
       Some (ip, _) \<Rightarrow> bnd (iput ip) (\<lambda>_. ret (- 1))
     | None \<Rightarrow>
         bnd (gets (\<lambda>s. isize (inodes s dp))) (\<lambda>sz.
         bnd (for_until (dirent_offs sz) (\<lambda>off.
           bnd (read_dirent ''dirlink read'' dp off) (\<lambda>de.
           if de_inum de = 0 then ret (Some off) else ret None))) (\<lambda>r.
         let off = (case r of Some off \<Rightarrow> off | None \<Rightarrow> of_nat (length (dirent_offs sz) * sizeof_dirent));
             de = \<lparr>de_inum = ucast ino, de_name = strncpy_val name DIRSIZ\<rparr> in
         bnd (writei dp (SLocal (dirent_bytes de)) off (of_nat sizeof_dirent)) (\<lambda>w.
         if w \<noteq> int sizeof_dirent then ret (- 1) else ret 0))))"

subsection \<open>Paths\<close>

definition slash :: u8 where "slash = 47"

text \<open>
  The path that is left and the element.  \<^verbatim>\<open>name\<close> is read only up to its terminating zero or
  \<open>DIRSIZ\<close> bytes, which is the part the model keeps.
\<close>

definition skipelem :: "u8 list \<Rightarrow> (u8 list \<times> u8 list) option" where
  "skipelem path =
     (let p = dropWhile (\<lambda>c. c = slash) path in
      if p = [] then None
      else let e = takeWhile (\<lambda>c. c \<noteq> slash) p;
               rest = dropWhile (\<lambda>c. c = slash) (dropWhile (\<lambda>c. c \<noteq> slash) p)
           in Some (rest, if DIRSIZ \<le> length e then take DIRSIZ e else e))"

lemma skipelem_shorter: "skipelem path = Some (rest, e) \<Longrightarrow> length rest < length path"
proof -
  assume a: "skipelem path = Some (rest, e)"
  define p where "p = dropWhile (\<lambda>c. c = slash) path"
  have ne: "p \<noteq> []" and rest: "rest = dropWhile (\<lambda>c. c = slash) (dropWhile (\<lambda>c. c \<noteq> slash) p)"
    using a by (auto simp: skipelem_def Let_def p_def split: if_splits)
  have "hd p \<noteq> slash" using ne hd_dropWhile [of "\<lambda>c. c = slash" path] by (simp add: p_def)
  then have "dropWhile (\<lambda>c. c \<noteq> slash) p = dropWhile (\<lambda>c. c \<noteq> slash) (tl p)"
    using ne by (cases p) simp_all
  moreover have "length (dropWhile (\<lambda>c. c = slash) (dropWhile (\<lambda>c. c \<noteq> slash) (tl p))) \<le> length (tl p)"
    by (meson length_dropWhile_le order_trans)
  moreover have "length (tl p) < length p" using ne by simp
  moreover have "length p \<le> length path" by (simp add: p_def length_dropWhile_le)
  ultimately show ?thesis unfolding rest by simp
qed

function namex_loop :: "u8 list \<Rightarrow> u8 list \<Rightarrow> bool \<Rightarrow> nat \<Rightarrow> ('a fsys_scheme, nat option \<times> u8 list) kfun" where
  "namex_loop path name par ip s =
     (case skipelem path of
        None \<Rightarrow> if par then bnd (iput ip) (\<lambda>_. ret (None, name)) s else ret (Some ip, name) s
      | Some (rest, name) \<Rightarrow>
          bnd (ilock (Some ip)) (\<lambda>_.
          bnd (gets (\<lambda>s. itype (inodes s ip))) (\<lambda>ty.
          if ty \<noteq> T_DIR then bnd (iunlockput ip) (\<lambda>_. ret (None, name))
          else if par \<and> rest = [] then bnd (iunlock (Some ip)) (\<lambda>_. ret (Some ip, name))
          else bnd (dirlookup ip name) (\<lambda>nxt.
               if nxt = None then bnd (iunlockput ip) (\<lambda>_. ret (None, name))
               else bnd (iunlockput ip) (\<lambda>_. namex_loop rest name par (fst (the nxt)))))) s)"
  by pat_completeness auto
termination
  by (relation "measure (\<lambda>(path, name, par, ip, s). length path)") (auto simp: skipelem_shorter)

declare namex_loop.simps [simp del]

definition namex :: "u8 list \<Rightarrow> bool \<Rightarrow> ('a fsys_scheme, nat option \<times> u8 list) kfun" where
  "namex path par =
     bnd (if chd path = slash then iget ROOTDEV ROOTINO
          else bnd cur_proc (\<lambda>p.
               bnd (gets (\<lambda>s. cwd (ptab s p))) (\<lambda>d.
               case d of None \<Rightarrow> panic ''kerneltrap'' | Some ip \<Rightarrow> idup ip))) (\<lambda>ip.
     namex_loop path [] par ip)"

definition namei :: "u8 list \<Rightarrow> ('a fsys_scheme, nat option) kfun" where
  "namei path = bnd (namex path False) (\<lambda>(ip, _). ret ip)"

definition nameiparent :: "u8 list \<Rightarrow> ('a fsys_scheme, nat option \<times> u8 list) kfun" where
  "nameiparent path = namex path True"

definition boot_inode :: inode where
  "boot_inode = \<lparr>idev = 0, inum = 0, iref = 0, ivalid = False, itype = 0, imajor = 0, iminor = 0, inlink = 0,
     isize = 0, iaddrs = (\<lambda>_. 0)\<rparr>"

definition boot_fsys :: "'a \<Rightarrow> 'a fsys_scheme" where
  "boot_fsys m = boot_logs \<lparr>sb = \<lparr>sb_magic = 0x10203040, sb_size = 2000, sb_nblocks = 1954, sb_ninodes = 200,
     sb_nlog = 30, sb_logstart = 2, sb_inodestart = 32, sb_bmapstart = 45\<rparr>, inodes = (\<lambda>_. boot_inode), \<dots> = m\<rparr>"

end
