(* ===== verification/Xv6_File.thy ===== *)
theory Xv6_File
  imports Xv6_Fs
begin

text \<open>
  Open files and pipes, \<^verbatim>\<open>kernel/file.c\<close>, \<^verbatim>\<open>kernel/file.h\<close> and \<^verbatim>\<open>kernel/pipe.c\<close>.  A file is its
  index in \<^verbatim>\<open>ftable.file\<close>.  A pipe lives in a page of its own that the kernel only uses as
  \<^verbatim>\<open>struct pipe\<close>; \<open>pipes\<close> gives the contents by page address.
\<close>

subsection \<open>State\<close>

definition PIPESIZE :: u32 where "PIPESIZE = 512"

record pipe =
  pi_data :: "u32 \<Rightarrow> u8"
  nread :: u32
  nwrite :: u32
  readopen :: bool
  writeopen :: bool

datatype fdtype = FD_NONE | FD_PIPE | FD_INODE | FD_DEVICE

record kfile =
  ftype :: fdtype
  fref :: int
  readable :: bool
  writable :: bool
  fpipe :: u64
  fip :: "nat option"
  foff :: u32
  fmajor :: u16

record files = fsys +
  ftable :: "nat \<Rightarrow> kfile"
  pipes :: "u64 \<Rightarrow> pipe"

definition upd_file :: "nat \<Rightarrow> (kfile \<Rightarrow> kfile) \<Rightarrow> ('a files_scheme, unit) kfun" where
  "upd_file i f = modify (\<lambda>s. s\<lparr>ftable := (ftable s)(i := f (ftable s i))\<rparr>)"

definition upd_pipe :: "u64 \<Rightarrow> (pipe \<Rightarrow> pipe) \<Rightarrow> ('a files_scheme, unit) kfun" where
  "upd_pipe a f = modify (\<lambda>s. s\<lparr>pipes := (pipes s)(a := f (pipes s a))\<rparr>)"

subsection \<open>The file table\<close>

definition fileinit :: "('a files_scheme, unit) kfun" where
  "fileinit = initlock L_ftable ''ftable''"

definition filealloc :: "('a files_scheme, nat option) kfun" where
  "filealloc =
     locking L_ftable
       (bnd (gets (\<lambda>s. List.find (\<lambda>i. fref (ftable s i) = 0) [0..<NFILE])) (\<lambda>r.
        case r of
          Some i \<Rightarrow> bnd (upd_file i (\<lambda>f. f\<lparr>fref := 1\<rparr>)) (\<lambda>_. ret (Some i))
        | None \<Rightarrow> ret None))"

definition filedup :: "nat \<Rightarrow> ('a files_scheme, nat) kfun" where
  "filedup i =
     locking L_ftable
       (bnd (gets (\<lambda>s. fref (ftable s i) < 1)) (\<lambda>bad.
        if bad then panic ''filedup''
        else bnd (upd_file i (\<lambda>f. f\<lparr>fref := fref f + 1\<rparr>)) (\<lambda>_. ret i)))"

definition pipeclose :: "u64 \<Rightarrow> bool \<Rightarrow> ('a files_scheme, unit) kfun" where
  "pipeclose pi w =
     bnd (acquire (L_pipe pi)) (\<lambda>_.
     bnd (if w
          then bnd (upd_pipe pi (\<lambda>r. r\<lparr>writeopen := False\<rparr>)) (\<lambda>_. wakeup (Some (C_pipe_nread pi)))
          else bnd (upd_pipe pi (\<lambda>r. r\<lparr>readopen := False\<rparr>)) (\<lambda>_. wakeup (Some (C_pipe_nwrite pi)))) (\<lambda>_.
     bnd (gets (\<lambda>s. \<not> readopen (pipes s pi) \<and> \<not> writeopen (pipes s pi))) (\<lambda>dead.
     if dead then bnd (release (L_pipe pi)) (\<lambda>_. kfree pi)
     else release (L_pipe pi))))"

text \<open>The reference count is dropped under the lock; the last close goes on after it.\<close>

definition fileclose_drop :: "nat \<Rightarrow> ('a files_scheme, kfile option) kfun" where
  "fileclose_drop i =
     locking L_ftable
       (bnd (gets (\<lambda>s. fref (ftable s i) < 1)) (\<lambda>bad.
        if bad then panic ''fileclose''
        else bnd (upd_file i (\<lambda>f. f\<lparr>fref := fref f - 1\<rparr>)) (\<lambda>_.
             bnd (gets (\<lambda>s. ftable s i)) (\<lambda>ff.
             if fref ff > 0 then ret None
             else bnd (upd_file i (\<lambda>f. f\<lparr>fref := 0, ftype := FD_NONE\<rparr>)) (\<lambda>_.
                  ret (Some ff))))))"

text \<open>\<open>iput\<close> of a null inode pointer faults.\<close>

definition iput_ptr :: "nat option \<Rightarrow> ('a fsys_scheme, unit) kfun" where
  "iput_ptr ip = (case ip of None \<Rightarrow> panic ''kerneltrap'' | Some i \<Rightarrow> iput i)"

definition fileclose :: "nat \<Rightarrow> ('a files_scheme, unit) kfun" where
  "fileclose i =
     bnd (fileclose_drop i) (\<lambda>r.
     case r of
       None \<Rightarrow> ret ()
     | Some ff \<Rightarrow>
         if ftype ff = FD_PIPE then pipeclose (fpipe ff) (writable ff)
         else do_if (ftype ff = FD_INODE \<or> ftype ff = FD_DEVICE)
           (bnd begin_op (\<lambda>_.
            bnd (iput_ptr (fip ff)) (\<lambda>_.
            end_op))))"

subsection \<open>Pipes\<close>

definition pipealloc_bad :: "nat option \<Rightarrow> nat option \<Rightarrow> ('a files_scheme, (nat \<times> nat) option) kfun" where
  "pipealloc_bad f0 f1 =
     bnd (case f0 of Some f \<Rightarrow> fileclose f | None \<Rightarrow> ret ()) (\<lambda>_.
     bnd (case f1 of Some f \<Rightarrow> fileclose f | None \<Rightarrow> ret ()) (\<lambda>_.
     ret None))"

definition pipealloc :: "('a files_scheme, (nat \<times> nat) option) kfun" where
  "pipealloc =
     bnd filealloc (\<lambda>r0.
     case r0 of
       None \<Rightarrow> pipealloc_bad None None
     | Some f0 \<Rightarrow>
     bnd filealloc (\<lambda>r1.
     case r1 of
       None \<Rightarrow> pipealloc_bad (Some f0) None
     | Some f1 \<Rightarrow>
     bnd kalloc (\<lambda>pi.
     if pi = 0 then pipealloc_bad (Some f0) (Some f1)
     else bnd (upd_pipe pi (\<lambda>r. r\<lparr>readopen := True, writeopen := True, nwrite := 0, nread := 0\<rparr>)) (\<lambda>_.
          bnd (initlock (L_pipe pi) ''pipe'') (\<lambda>_.
          bnd (upd_file f0 (\<lambda>f. f\<lparr>ftype := FD_PIPE, readable := True, writable := False, fpipe := pi\<rparr>)) (\<lambda>_.
          bnd (upd_file f1 (\<lambda>f. f\<lparr>ftype := FD_PIPE, readable := False, writable := True, fpipe := pi\<rparr>)) (\<lambda>_.
          ret (Some (f0, f1)))))))))"

text \<open>\<open>pipewrite\<close> from its loop on: \<open>i\<close> bytes are written, \<open>k\<close> are left.\<close>

definition pipewrite_done :: "u64 \<Rightarrow> nat \<Rightarrow> ('a files_scheme, int) kfun" where
  "pipewrite_done pi i =
     bnd (wakeup (Some (C_pipe_nread pi))) (\<lambda>_.
     bnd (release (L_pipe pi)) (\<lambda>_.
     ret (int i)))"

definition pipe_put :: "u8 \<Rightarrow> pipe \<Rightarrow> pipe" where
  "pipe_put c r = r\<lparr>pi_data := (pi_data r)(nwrite r mod PIPESIZE := c), nwrite := nwrite r + 1\<rparr>"

fun pipewrite_loop :: "nat \<Rightarrow> u64 \<Rightarrow> u64 \<Rightarrow> nat \<Rightarrow> nat \<Rightarrow> ('a files_scheme, int) kfun" where
  "pipewrite_loop pr pi addr i 0 = pipewrite_done pi i"
| "pipewrite_loop pr pi addr i (Suc k) =
     bnd (gets (\<lambda>s. readopen (pipes s pi))) (\<lambda>op.
     bnd (if op then killed pr else ret 1) (\<lambda>stop.
     if stop \<noteq> 0 then bnd (release (L_pipe pi)) (\<lambda>_. ret (- 1))
     else bnd (gets (\<lambda>s. nwrite (pipes s pi) = nread (pipes s pi) + PIPESIZE)) (\<lambda>full.
       if full
       then bnd (wakeup (Some (C_pipe_nread pi))) (\<lambda>_.
            bnd (sleep (C_pipe_nwrite pi) (L_pipe pi)) (\<lambda>_. ret 0))
       else bnd (gets (\<lambda>s. pagetable (ptab s pr))) (\<lambda>pt.
            bnd (copyin pt (addr + of_nat i) 1) (\<lambda>(r, bs).
            if r = - 1 then pipewrite_done pi i
            else bnd (upd_pipe pi (pipe_put (bs ! 0))) (\<lambda>_.
                 pipewrite_loop pr pi addr (Suc i) k))))))"

definition pipewrite :: "u64 \<Rightarrow> u64 \<Rightarrow> int \<Rightarrow> ('a files_scheme, int) kfun" where
  "pipewrite pi addr n =
     bnd cur_proc (\<lambda>pr.
     bnd (acquire (L_pipe pi)) (\<lambda>_.
     pipewrite_loop pr pi addr 0 (nat n)))"

definition pipewrite_resume :: "nat \<Rightarrow> bool \<Rightarrow> u64 \<Rightarrow> u64 \<Rightarrow> nat \<Rightarrow> nat \<Rightarrow> ('a files_scheme, int) kfun" where
  "pipewrite_resume pr ie pi addr i k =
     bnd (sleep_resume pr (L_pipe pi) ie) (\<lambda>_. pipewrite_loop pr pi addr i k)"

definition pipe_get :: "pipe \<Rightarrow> pipe" where
  "pipe_get r = r\<lparr>nread := nread r + 1\<rparr>"

fun piperead_copy :: "nat \<Rightarrow> u64 \<Rightarrow> u64 \<Rightarrow> nat \<Rightarrow> nat \<Rightarrow> ('a files_scheme, nat) kfun" where
  "piperead_copy pr pi addr i 0 = ret i"
| "piperead_copy pr pi addr i (Suc k) =
     bnd (gets (\<lambda>s. pipes s pi)) (\<lambda>r.
     if nread r = nwrite r then ret i
     else bnd (upd_pipe pi pipe_get) (\<lambda>_.
          bnd (gets (\<lambda>s. pagetable (ptab s pr))) (\<lambda>pt.
          bnd (copyout pt (addr + of_nat i) [pi_data r (nread r mod PIPESIZE)]) (\<lambda>e.
          if e = - 1 then ret i else piperead_copy pr pi addr (Suc i) k))))"

definition piperead_loop :: "nat \<Rightarrow> u64 \<Rightarrow> u64 \<Rightarrow> nat \<Rightarrow> ('a files_scheme, int) kfun" where
  "piperead_loop pr pi addr n =
     bnd (gets (\<lambda>s. nread (pipes s pi) = nwrite (pipes s pi) \<and> writeopen (pipes s pi))) (\<lambda>empty.
     if empty
     then bnd (killed pr) (\<lambda>k.
          if k \<noteq> 0 then bnd (release (L_pipe pi)) (\<lambda>_. ret (- 1))
          else bnd (sleep (C_pipe_nread pi) (L_pipe pi)) (\<lambda>_. ret 0))
     else bnd (piperead_copy pr pi addr 0 n) (\<lambda>i.
          bnd (wakeup (Some (C_pipe_nwrite pi))) (\<lambda>_.
          bnd (release (L_pipe pi)) (\<lambda>_.
          ret (int i)))))"

definition piperead :: "u64 \<Rightarrow> u64 \<Rightarrow> int \<Rightarrow> ('a files_scheme, int) kfun" where
  "piperead pi addr n =
     bnd cur_proc (\<lambda>pr.
     bnd (acquire (L_pipe pi)) (\<lambda>_.
     piperead_loop pr pi addr (nat n)))"

definition piperead_resume :: "nat \<Rightarrow> bool \<Rightarrow> u64 \<Rightarrow> u64 \<Rightarrow> nat \<Rightarrow> ('a files_scheme, int) kfun" where
  "piperead_resume pr ie pi addr n =
     bnd (sleep_resume pr (L_pipe pi) ie) (\<lambda>_. piperead_loop pr pi addr n)"

subsection \<open>Reading and writing\<close>

text \<open>
  The layout of \<^verbatim>\<open>struct stat\<close>: four bytes of padding stand before the 64-bit size, and hold
  whatever was on the stack (\<open>pad\<close>).
\<close>

definition stat_bytes :: "u8 list \<Rightarrow> stat \<Rightarrow> u8 list" where
  "stat_bytes pad st = le_bytes 4 (st_dev st) @ le_bytes 4 (st_ino st) @ le_bytes 2 (st_type st) @
     le_bytes 2 (st_nlink st) @ pad @ le_bytes 8 (st_size st)"

definition filestat :: "u8 list \<Rightarrow> nat \<Rightarrow> u64 \<Rightarrow> ('a files_scheme, int) kfun" where
  "filestat pad i addr =
     bnd cur_proc (\<lambda>p.
     bnd (gets (\<lambda>s. ftable s i)) (\<lambda>f.
     if ftype f = FD_INODE \<or> ftype f = FD_DEVICE
     then bnd (ilock (fip f)) (\<lambda>_.
          bnd (stati (the (fip f))) (\<lambda>st.
          bnd (iunlock (fip f)) (\<lambda>_.
          bnd (gets (\<lambda>s. pagetable (ptab s p))) (\<lambda>pt.
          bnd (copyout pt addr (stat_bytes pad st)) (\<lambda>r.
          if r < 0 then ret (- 1) else ret 0)))))
     else ret (- 1)))"

text \<open>Only the console registers itself in \<^verbatim>\<open>devsw\<close>.\<close>

definition dev_ok :: "u16 \<Rightarrow> bool" where
  "dev_ok m \<longleftrightarrow> \<not> sint m < 0 \<and> \<not> sint m \<ge> NDEV"

definition fileread :: "nat \<Rightarrow> u64 \<Rightarrow> int \<Rightarrow> ('a files_scheme, int) kfun" where
  "fileread i addr n =
     bnd (gets (\<lambda>s. ftable s i)) (\<lambda>f.
     if \<not> readable f then ret (- 1)
     else case ftype f of
       FD_PIPE \<Rightarrow> piperead (fpipe f) addr n
     | FD_DEVICE \<Rightarrow>
         bnd (gets (\<lambda>s. dev_ok (fmajor f) \<and> devsw_read s (sint (fmajor f)))) (\<lambda>ok.
         if \<not> ok then ret (- 1) else consoleread (User addr) n)
     | FD_INODE \<Rightarrow>
         bnd (ilock (fip f)) (\<lambda>_.
         bnd (gets (\<lambda>s. foff (ftable s i))) (\<lambda>off.
         bnd (readi (the (fip f)) (User addr) off (word_of_int n)) (\<lambda>(r, _).
         bnd (do_if (r > 0) (upd_file i (\<lambda>f. f\<lparr>foff := foff f + word_of_int r\<rparr>))) (\<lambda>_.
         bnd (iunlock (fip f)) (\<lambda>_.
         ret r)))))
     | FD_NONE \<Rightarrow> panic ''fileread'')"

definition write_max :: int where "write_max = ((MAXOPBLOCKS - 1 - 1 - 2) div 2) * int BSIZE"

text \<open>
  The loop of \<open>filewrite\<close> for an inode: each round is a transaction of its own, of at most
  \<open>write_max\<close> bytes.
\<close>

definition filewrite_round :: "nat \<Rightarrow> nat option \<Rightarrow> u64 \<Rightarrow> int \<Rightarrow> ('a files_scheme, int) kfun" where
  "filewrite_round i ip addr n1 =
     bnd begin_op (\<lambda>_.
     bnd (ilock ip) (\<lambda>_.
     bnd (gets (\<lambda>s. foff (ftable s i))) (\<lambda>off.
     bnd (writei (the ip) (SUser addr) off (word_of_int n1)) (\<lambda>r.
     bnd (do_if (r > 0) (upd_file i (\<lambda>f. f\<lparr>foff := foff f + word_of_int r\<rparr>))) (\<lambda>_.
     bnd (iunlock ip) (\<lambda>_.
     bnd end_op (\<lambda>_.
     ret r)))))))"

function filewrite_loop :: "nat \<Rightarrow> nat option \<Rightarrow> u64 \<Rightarrow> int \<Rightarrow> int \<Rightarrow> ('a files_scheme, int) kfun" where
  "filewrite_loop i ip addr n k s =
     (if k < n
      then bnd (filewrite_round i ip (addr + word_of_int k) (min (n - k) write_max)) (\<lambda>r.
           if r \<noteq> min (n - k) write_max then ret k
           else filewrite_loop i ip addr n (k + r))
      else ret k) s"
  by pat_completeness auto
termination
  by (relation "measure (\<lambda>(i, ip, addr, n, k, s). nat (n - k))")
    (auto simp: write_max_def MAXOPBLOCKS_def BSIZE_def)

declare filewrite_loop.simps [simp del]

definition filewrite :: "nat \<Rightarrow> u64 \<Rightarrow> int \<Rightarrow> ('a files_scheme, int) kfun" where
  "filewrite i addr n =
     bnd (gets (\<lambda>s. ftable s i)) (\<lambda>f.
     if \<not> writable f then ret (- 1)
     else case ftype f of
       FD_PIPE \<Rightarrow> pipewrite (fpipe f) addr n
     | FD_DEVICE \<Rightarrow>
         bnd (gets (\<lambda>s. dev_ok (fmajor f) \<and> devsw_write s (sint (fmajor f)))) (\<lambda>ok.
         if \<not> ok then ret (- 1) else consolewrite (SUser addr) n)
     | FD_INODE \<Rightarrow>
         bnd (filewrite_loop i (fip f) addr n 0) (\<lambda>k. ret (if k = n then n else - 1))
     | FD_NONE \<Rightarrow> panic ''filewrite'')"

definition boot_files :: "'a \<Rightarrow> 'a files_scheme" where
  "boot_files m = boot_fsys \<lparr>ftable = (\<lambda>_. \<lparr>ftype = FD_NONE, fref = 0, readable = False, writable = False,
     fpipe = 0, fip = None, foff = 0, fmajor = 0\<rparr>),
     pipes = (\<lambda>_. \<lparr>pi_data = (\<lambda>_. 0), nread = 0, nwrite = 0, readopen = False, writeopen = False\<rparr>), \<dots> = m\<rparr>"

end
