(* ===== verification/Xv6_Pipe.thy ===== *)
theory Xv6_Pipe
  imports Xv6_File
begin

text \<open>
  A pipe is a bounded queue of bytes.  The theory shows that the ring of \<^verbatim>\<open>struct pipe\<close>, with its
  counters that run over at 32 bits, implements the queue, and what \<open>pipewrite\<close> and \<open>piperead\<close> do to
  the queue and to the memory of the process.
\<close>

subsection \<open>The ring\<close>

definition pcount :: "pipe \<Rightarrow> nat" where
  "pcount r = unat (nwrite r - nread r)"

definition pqueue :: "pipe \<Rightarrow> u8 list" where
  "pqueue r = map (\<lambda>i. pi_data r ((nread r + of_nat i) mod PIPESIZE)) [0..<pcount r]"


lemma length_pqueue [simp]: "length (pqueue r) = pcount r"
  by (simp add: pqueue_def)

lemma nwrite_eq: "nwrite r = nread r + of_nat (pcount r)"
  by (simp add: pcount_def)






lemma pipe_empty: "(nread r = nwrite r) = (pqueue r = [])"
proof -
  have "(pqueue r = []) = (nwrite r - nread r = 0)" by (simp add: pqueue_def pcount_def unat_eq_0)
  then show ?thesis by auto
qed

lemma pqueue_get:
  assumes "pqueue r = c # q"
  shows "pi_data r (nread r mod PIPESIZE) = c" and "pqueue (pipe_get r) = q" and "pcount r = Suc (length q)"
proof -
  have n: "pcount r = Suc (length q)" using assms length_pqueue [of r] by simp
  have q: "pi_data r ((nread r + of_nat i) mod PIPESIZE) = (c # q) ! i" if "i < Suc (length q)" for i
    using arg_cong [OF assms, of "\<lambda>l. l ! i"] that n by (simp add: pqueue_def del: upt_Suc)
  show "pi_data r (nread r mod PIPESIZE) = c" using q [of 0] by simp
  have "nwrite r - (nread r + 1) = of_nat (length q)" using n by (subst nwrite_eq) simp
  moreover have lt: "unat (nwrite r - nread r) < 2 ^ LENGTH(32)" by (rule unsigned_less)
  ultimately have "pcount (pipe_get r) = length q"
    using n lt by (simp add: pcount_def pipe_get_def unat_of_nat_small)
  moreover have "pi_data (pipe_get r) ((nread (pipe_get r) + of_nat i) mod PIPESIZE) = q ! i" if "i < length q" for i
    using q [of "Suc i"] that by (simp add: pipe_get_def add.assoc)
  ultimately show "pqueue (pipe_get r) = q" unfolding pqueue_def by (intro nth_equalityI) simp_all
  show "pcount r = Suc (length q)" by (rule n)
qed

subsection \<open>Writing\<close>

lemma take_lock_pipes [simp]:
  "(take_lock l s)\<lparr>pipes := f\<rparr> = take_lock l (s\<lparr>pipes := f\<rparr>)"
  "lock_free l (s\<lparr>pipes := f\<rparr>) = lock_free l s" "cpu_ok (s\<lparr>pipes := f\<rparr>) = cpu_ok s"
  "pipes (take_lock l s) = pipes s" "calm p (s\<lparr>pipes := f\<rparr>) = calm p s"
  by (simp_all add: take_lock_def off_state_def lock_free_def cpu_ok_def sie_on_def calm_def)

text \<open>A range of user memory that a process can use: mapped in a well-formed page table.\<close>

definition user_range :: "memory \<Rightarrow> u64 \<Rightarrow> u64 \<Rightarrow> nat \<Rightarrow> bool" where
  "user_range m root va n \<longleftrightarrow> (\<exists>e>0. pt_wf e m root) \<and> user_sep m root \<and> unat va + n \<le> 2 ^ 38 \<and>
     (\<forall>i<n. uaddr m root (va + of_nat i) \<noteq> None)"

lemma user_range_byte:
  assumes "user_range m root va n" and "i < n"
  shows "unat (va + of_nat i) + 1 \<le> 2 ^ 38" and "uaddr m root (va + of_nat i) \<noteq> None"
proof -
  have le: "unat va + n \<le> 2 ^ 38" using assms(1) by (simp add: user_range_def)
  have i: "unat (of_nat i :: u64) = i" using le assms(2) by (intro unat_of_nat_small) simp
  then have "unat (va + of_nat i) = unat va + i" using le assms(2) by (subst unat_add_no_wrap) simp_all
  then show "unat (va + of_nat i) + 1 \<le> 2 ^ 38" using le assms(2) by simp
  show "uaddr m root (va + of_nat i) \<noteq> None" using assms by (simp add: user_range_def)
qed





lemma pipewrite_enter:
  "calm p s \<Longrightarrow> pipewrite pi addr (int n) s = pipewrite_loop p pi addr 0 n (take_lock (L_pipe pi) s)"
  by (simp add: pipewrite_def exec cur_proc_def acquire_free calm_simps)


lemma pipewrite_closed:
  assumes "calm p s" and "\<not> readopen (pipes s pi)" and "0 < n"
  shows "pipewrite pi addr (int n) s = Ok (- 1) s"
proof -
  obtain k where "n = Suc k" using assms(3) by (cases n) auto
  then show ?thesis unfolding pipewrite_enter [OF assms(1)]
    using assms(1,2) by (simp add: exec release_take_lock calm_simps)
qed

subsection \<open>Reading\<close>

lemma user_range_mem:
  assumes "user_range m root va n" and "\<And>x. PGROUNDDOWN x \<in> pt_pages m root \<Longrightarrow> m' x = m x"
  shows "user_range m' root va n"
proof -
  obtain e where e: "0 < e" "pt_wf e m root" "user_sep m root" using assms(1) by (auto simp: user_range_def)
  have ua: "uaddr m' root v = uaddr m root v" for v
    using outside_pt(2) [OF e(2) assms(2), of v] by (simp add: uaddr_def)
  show ?thesis using assms(1) e outside_pt_inv [OF e(2,3) assms(2)] by (auto simp: user_range_def ua)
qed

lemma copyout_byte:
  assumes "user_range (mem s) root va n" and "i < n"
  shows "\<exists>m'. copyout root (va + of_nat i) [b] s = Ok 0 (s\<lparr>mem := m'\<rparr>) \<and> user_range m' root va n \<and>
    (\<forall>v<MAXVA. ubyte m' root v = (if v = va + of_nat i then Some b else ubyte (mem s) root v))"
proof -
  obtain e where e: "0 < e" "pt_wf e (mem s) root" "user_sep (mem s) root" using assms(1) by (auto simp: user_range_def)
  have "\<exists>m'. copyout root (va + of_nat i) [b] s = Ok 0 (s\<lparr>mem := m'\<rparr>) \<and>
     (\<forall>x. PGROUNDDOWN x \<in> pt_pages (mem s) root \<longrightarrow> m' x = mem s x) \<and>
     (\<forall>v < MAXVA. ubyte m' root v =
        (if unat (v - (va + of_nat i)) < length [b] then Some ([b] ! unat (v - (va + of_nat i))) else ubyte (mem s) root v))"
    using e user_range_byte [OF assms] by (intro copyout_spec) simp_all
  then obtain m' where m': "copyout root (va + of_nat i) [b] s = Ok 0 (s\<lparr>mem := m'\<rparr>)"
    "\<And>x. PGROUNDDOWN x \<in> pt_pages (mem s) root \<Longrightarrow> m' x = mem s x"
    "\<And>v. v < MAXVA \<Longrightarrow> ubyte m' root v =
        (if unat (v - (va + of_nat i)) < 1 then Some ([b] ! unat (v - (va + of_nat i))) else ubyte (mem s) root v)" by auto
  have "ubyte m' root v = (if v = va + of_nat i then Some b else ubyte (mem s) root v)" if "v < MAXVA" for v
    using m'(3) [OF that] by (auto simp: unat_eq_0)
  then show ?thesis using m'(1) user_range_mem [OF assms(1) m'(2)] by blast
qed

lemma piperead_copy_takes:
  assumes "user_range (mem s) (pagetable (ptab s p)) addr (i + k)"
  shows "\<exists>m' r. piperead_copy p pi addr i k (take_lock (L_pipe pi) s) =
      Ok (i + min k (pcount (pipes s pi))) ((take_lock (L_pipe pi) (s\<lparr>pipes := (pipes s)(pi := r)\<rparr>))\<lparr>mem := m'\<rparr>) \<and>
    pqueue r = drop k (pqueue (pipes s pi)) \<and>
    (\<forall>v<MAXVA. ubyte m' (pagetable (ptab s p)) v =
       (if unat (v - (addr + of_nat i)) < min k (pcount (pipes s pi))
        then Some (pqueue (pipes s pi) ! unat (v - (addr + of_nat i))) else ubyte (mem s) (pagetable (ptab s p)) v))"
  using assms
proof (induction k arbitrary: s i)
  case 0
  have id: "s\<lparr>pipes := (pipes s)(pi := pipes s pi)\<rparr> = s" by simp
  show ?case by (intro exI [of _ "mem s"] exI [of _ "pipes s pi"]) (simp add: id del: fun_upd_apply)
next
  case (Suc k)
  let ?root = "pagetable (ptab s p)"
  show ?case
  proof (cases "pqueue (pipes s pi)")
    case Nil
    then have n: "nread (pipes s pi) = nwrite (pipes s pi)" "pcount (pipes s pi) = 0"
      using pipe_empty [of "pipes s pi"] length_pqueue [of "pipes s pi"] by auto
    have id: "s\<lparr>pipes := (pipes s)(pi := pipes s pi)\<rparr> = s" by simp
    show ?thesis
      by (intro exI [of _ "mem s"] exI [of _ "pipes s pi"]) (simp add: exec n id Nil del: fun_upd_apply)
  next
    case (Cons c q)
    then have n: "nread (pipes s pi) \<noteq> nwrite (pipes s pi)" using pipe_empty [of "pipes s pi"] by auto
    let ?s = "s\<lparr>pipes := (pipes s)(pi := pipe_get (pipes s pi))\<rparr>"
    have mem: "mem (take_lock (L_pipe pi) ?s) = mem s" by simp
    obtain m1 where m1: "copyout ?root (addr + of_nat i) [c] (take_lock (L_pipe pi) ?s) = Ok 0 ((take_lock (L_pipe pi) ?s)\<lparr>mem := m1\<rparr>)"
      "user_range m1 ?root addr (i + Suc k)"
      "\<forall>v<MAXVA. ubyte m1 ?root v = (if v = addr + of_nat i then Some c else ubyte (mem s) ?root v)"
      using copyout_byte [of "take_lock (L_pipe pi) ?s" ?root addr "i + Suc k" i c, unfolded mem, OF Suc.prems] by auto
    let ?t = "?s\<lparr>mem := m1\<rparr>"
    have step: "piperead_copy p pi addr i (Suc k) (take_lock (L_pipe pi) s) =
        piperead_copy p pi addr (Suc i) k (take_lock (L_pipe pi) ?t)"
      using m1(1) n pqueue_get(1) [OF Cons] by (simp add: exec upd_pipe_def)
    have len: "pcount (pipes s pi) = Suc (length q)" "pcount (pipe_get (pipes s pi)) = length q"
      using pqueue_get [OF Cons] length_pqueue [of "pipe_get (pipes s pi)"] by simp_all
    have t: "pipes ?t pi = pipe_get (pipes s pi)" "mem ?t = m1" "pagetable (ptab ?t p) = ?root" by simp_all
    have "user_range (mem ?t) (pagetable (ptab ?t p)) addr (Suc i + k)" using m1(2) by simp
    from Suc.IH [OF this, unfolded t len pqueue_get(2) [OF Cons]]
    obtain m' r where raw: "piperead_copy p pi addr (Suc i) k (take_lock (L_pipe pi) ?t) =
        Ok (Suc i + min k (length q)) ((take_lock (L_pipe pi) (?t\<lparr>pipes := (pipes ?t)(pi := r)\<rparr>))\<lparr>mem := m'\<rparr>)"
      and r: "pqueue r = drop k q"
      and IH: "\<forall>v<MAXVA. ubyte m' ?root v = (if unat (v - (addr + of_nat (Suc i))) < min k (length q)
         then Some (q ! unat (v - (addr + of_nat (Suc i)))) else ubyte m1 ?root v)" by blast
    have st: "(take_lock (L_pipe pi) (?t\<lparr>pipes := (pipes ?t)(pi := r)\<rparr>))\<lparr>mem := m'\<rparr> =
        (take_lock (L_pipe pi) (s\<lparr>pipes := (pipes s)(pi := r)\<rparr>))\<lparr>mem := m'\<rparr>"
    proof -
      have "?t\<lparr>pipes := (pipes ?t)(pi := r)\<rparr> = (s\<lparr>pipes := (pipes s)(pi := r)\<rparr>)\<lparr>mem := m1\<rparr>" by simp
      then show ?thesis by (simp only: kmem_take_lock) simp
    qed
    show ?thesis
    proof (intro exI [of _ m'] exI [of _ r] conjI allI impI)
      fix v
      assume v: "v < MAXVA"
      let ?d = "v - (addr + of_nat i)"
      have d: "v - (addr + of_nat (Suc i)) = ?d - 1" by simp
      have "k < 2 ^ 64 - 1" using Suc.prems by (simp add: user_range_def)
      moreover have "unat (- 1 :: u64) = 2 ^ 64 - 1" by (simp add: unsigned_minus_1_eq_mask mask_eq_exp_minus_1)
      ultimately have k: "\<not> unat (- 1 :: u64) < k" by simp
      show "ubyte m' ?root v = (if unat ?d < min (Suc k) (pcount (pipes s pi)) then Some (pqueue (pipes s pi) ! unat ?d)
          else ubyte (mem s) ?root v)"
      proof (cases "?d = 0")
        case True
        then have "v = addr + of_nat i" by simp
        then show ?thesis using IH [rule_format, OF v] m1(3) [rule_format, OF v] d k len Cons by simp
      next
        case False
        then have "unat (?d - 1) = unat ?d - 1" "0 < unat ?d" by (simp_all add: Word.unat_minus_one unat_gt_0)
        then show ?thesis using IH [rule_format, OF v] m1(3) [rule_format, OF v] False len Cons unfolding d
          by (auto simp: nth_Cons' not_less)
      qed
    next
      show "piperead_copy p pi addr i (Suc k) (take_lock (L_pipe pi) s) =
          Ok (i + min (Suc k) (pcount (pipes s pi))) ((take_lock (L_pipe pi) (s\<lparr>pipes := (pipes s)(pi := r)\<rparr>))\<lparr>mem := m'\<rparr>)"
        unfolding step raw st len by simp
    qed (use r Cons in simp)
  qed
qed

lemma piperead_enter:
  assumes "calm p s" and "pqueue (pipes s pi) \<noteq> [] \<or> \<not> writeopen (pipes s pi)"
  shows "piperead pi addr (int n) s =
    bnd (piperead_copy p pi addr 0 n) (\<lambda>i. bnd (wakeup (Some (C_pipe_nwrite pi))) (\<lambda>_.
      bnd (release (L_pipe pi)) (\<lambda>_. ret (int i)))) (take_lock (L_pipe pi) s)"
  using assms pipe_empty [of "pipes s pi"]
  by (auto simp: piperead_def piperead_loop_def exec cur_proc_def acquire_free calm_simps)

lemma piperead_takes:
  assumes "calm p s" and "pqueue (pipes s pi) \<noteq> [] \<or> \<not> writeopen (pipes s pi)"
    and "user_range (mem s) (pagetable (ptab s p)) addr n"
  shows "\<exists>r m'. piperead pi addr (int n) s = Ok (int (min n (length (pqueue (pipes s pi)))))
      (s\<lparr>pipes := (pipes s)(pi := r), mem := m', ptab := woken p (C_pipe_nwrite pi) (ptab s)\<rparr>) \<and>
    pqueue r = drop n (pqueue (pipes s pi)) \<and>
    (\<forall>v<MAXVA. ubyte m' (pagetable (ptab s p)) v =
       (if unat (v - addr) < min n (length (pqueue (pipes s pi)))
        then Some (pqueue (pipes s pi) ! unat (v - addr)) else ubyte (mem s) (pagetable (ptab s p)) v))"
proof -
  obtain m' r where c: "piperead_copy p pi addr 0 n (take_lock (L_pipe pi) s) =
      Ok (min n (pcount (pipes s pi))) ((take_lock (L_pipe pi) (s\<lparr>pipes := (pipes s)(pi := r)\<rparr>))\<lparr>mem := m'\<rparr>)"
    "pqueue r = drop n (pqueue (pipes s pi))"
    "\<forall>v<MAXVA. ubyte m' (pagetable (ptab s p)) v =
       (if unat (v - addr) < min n (pcount (pipes s pi))
        then Some (pqueue (pipes s pi) ! unat (v - addr)) else ubyte (mem s) (pagetable (ptab s p)) v)"
    using piperead_copy_takes [of s p addr 0 n pi] assms(3) by auto
  let ?t = "s\<lparr>pipes := (pipes s)(pi := r), mem := m'\<rparr>"
  have t: "(take_lock (L_pipe pi) (s\<lparr>pipes := (pipes s)(pi := r)\<rparr>))\<lparr>mem := m'\<rparr> = take_lock (L_pipe pi) ?t" by simp
  have calm: "calm p ?t" using assms(1) by (simp add: calm_def)
  have rel: "release (L_pipe pi) (take_lock (L_pipe pi) (?t\<lparr>ptab := f\<rparr>)) = Ok () (?t\<lparr>ptab := f\<rparr>)" for f
    by (rule release_take_lock) (use assms(1) in \<open>simp_all add: calm_def\<close>)
  have "piperead pi addr (int n) s = Ok (int (min n (pcount (pipes s pi)))) (?t\<lparr>ptab := woken p (C_pipe_nwrite pi) (ptab s)\<rparr>)"
    unfolding piperead_enter [OF assms(1,2)]
    using c(1) calm_wakeup [OF calm, of "L_pipe pi"] rel unfolding t by (simp add: exec del: kmem_take_lock)
  then show ?thesis using c(2,3) by (intro exI [of _ r] exI [of _ m']) simp
qed

subsection \<open>Properties\<close>

text \<open>
  A process with one page of memory and a pipe whose counters are about to run over: three bytes
  are in the ring.
\<close>

definition pipe_user :: "unit files_scheme" where
  "pipe_user = (boot_files ())\<lparr>mem := um_mem, ptab := (\<lambda>_. idle_proc\<lparr>pagetable := 0x80032000\<rparr>),
     pipes := (\<lambda>_. \<lparr>pi_data = (\<lambda>i. ucast i), nread = 0xFFFFFFFE, nwrite = 1, readopen = True, writeopen = True\<rparr>)\<rparr>"

lemma pipe_user_calm: "calm 0 pipe_user"
proof -
  have "calm 0 (boot_files ())" by (simp add: boot_files_def boot_fsys_def boot_logs_def boot_bcache_def boot_sleeplocks_def boot_consol_def)
  then show ?thesis by (simp add: pipe_user_def calm_def)
qed

lemma pipe_user_range: "n \<le> 4096 \<Longrightarrow> user_range (mem pipe_user) (pagetable (ptab pipe_user 0)) 0 n"
  using um_wf um_sep um_mapped
  by (auto simp: user_range_def pipe_user_def um_machine_def intro!: exI [of _ "0x80030000 :: u64"])

lemma pipe_user_queue: "pqueue (pipes pipe_user 7) = [254, 255, 0]"
proof -
  have "pcount (pipes pipe_user 7) = 3" by (simp add: pipe_user_def pcount_def)
  moreover have "[0..<3] = [0, 1, 2 :: nat]" by (simp add: upt_rec)
  ultimately show ?thesis by (simp add: pqueue_def pipe_user_def PIPESIZE_def)
qed

lemma pipe_user_simps:
  "pkilled (ptab pipe_user 0) = 0" "readopen (pipes pipe_user 7)" "pagetable (ptab pipe_user 0) = 0x80032000"
  by (simp_all add: pipe_user_def idle_proc_def)


text \<open>
  Claim C10.  \<open>piperead\<close> takes from the front of the queue.  When there are bytes, or the writer is
  gone, it returns how many it took (none at the end of the data); they are in the process's
  memory in the order in which they were written, and every other byte of it is as before.
\<close>

theorem piperead_takes_front:
  assumes "calm p s" and "pqueue (pipes s pi) \<noteq> [] \<or> \<not> writeopen (pipes s pi)"
    and "user_range (mem s) (pagetable (ptab s p)) addr n"
  shows "\<exists>r m'. piperead pi addr (int n) s = Ok (int (min n (length (pqueue (pipes s pi)))))
      (s\<lparr>pipes := (pipes s)(pi := r), mem := m', ptab := woken p (C_pipe_nwrite pi) (ptab s)\<rparr>) \<and>
    pqueue r = drop n (pqueue (pipes s pi)) \<and>
    (\<forall>v<MAXVA. ubyte m' (pagetable (ptab s p)) v =
       (if unat (v - addr) < min n (length (pqueue (pipes s pi)))
        then Some (pqueue (pipes s pi) ! unat (v - addr)) else ubyte (mem s) (pagetable (ptab s p)) v))"
  by (rule piperead_takes [OF assms])


theorem piperead_takes_front_witness:
  "\<exists>r m'. piperead 7 0 (int 2) pipe_user = Ok 2
      (pipe_user\<lparr>pipes := (pipes pipe_user)(7 := r), mem := m', ptab := woken 0 (C_pipe_nwrite 7) (ptab pipe_user)\<rparr>) \<and>
    pqueue r = [0] \<and> ubyte m' 0x80032000 1 = Some 255"
proof -
  have v: "(1 :: u64) < MAXVA" by (simp add: MAXVA_def)
  have "pqueue (pipes pipe_user 7) \<noteq> [] \<or> \<not> writeopen (pipes pipe_user 7)" by (simp add: pipe_user_queue)
  from piperead_takes_front [OF pipe_user_calm this pipe_user_range [of 2]]
  obtain r m' where "piperead 7 0 (int 2) pipe_user = Ok (int (min 2 (length [254, 255, 0 :: u8])))
      (pipe_user\<lparr>pipes := (pipes pipe_user)(7 := r), mem := m', ptab := woken 0 (C_pipe_nwrite 7) (ptab pipe_user)\<rparr>)"
    "pqueue r = drop 2 [254, 255, 0]"
    "\<forall>v<MAXVA. ubyte m' 0x80032000 v = (if unat (v - 0) < min 2 (length [254, 255, 0 :: u8])
        then Some ([254, 255, 0] ! unat (v - 0)) else ubyte (mem pipe_user) 0x80032000 v)"
    unfolding pipe_user_queue pipe_user_simps(3) by auto
  then show ?thesis using v by (intro exI [of _ r] exI [of _ m']) simp
qed

end
