(* ===== verification/Xv6_Exec.thy ===== *)
theory Xv6_Exec
  imports Xv6_File
begin

text \<open>
  Replacing the image of a process, \<^verbatim>\<open>kernel/exec.c\<close> and \<^verbatim>\<open>kernel/elf.h\<close>.  The argument vector is
  the list of the non-null pointers before its terminating null; the strings are in kernel
  memory.
\<close>

subsection \<open>kernel/elf.h\<close>

definition ELF_MAGIC :: u32 where "ELF_MAGIC = 0x464C457F"
definition ELF_PROG_LOAD :: u32 where "ELF_PROG_LOAD = 1"

record elfhdr =
  e_magic :: u32
  e_entry :: u64
  e_phoff :: u64
  e_phnum :: u16

record proghdr =
  ph_type :: u32
  ph_flags :: u32
  ph_off :: u64
  ph_vaddr :: u64
  ph_filesz :: u64
  ph_memsz :: u64

definition sizeof_elfhdr :: nat where "sizeof_elfhdr = 64"
definition sizeof_proghdr :: nat where "sizeof_proghdr = 56"

text \<open>The fields \<open>exec\<close> reads, at their offsets in the structures.\<close>

definition field :: "u8 list \<Rightarrow> nat \<Rightarrow> nat \<Rightarrow> 'a::len word" where
  "field bs off n = le_word (take n (drop off bs))"

definition elfhdr_of :: "u8 list \<Rightarrow> elfhdr" where
  "elfhdr_of bs = \<lparr>e_magic = field bs 0 4, e_entry = field bs 24 8, e_phoff = field bs 32 8,
     e_phnum = field bs 56 2\<rparr>"

definition proghdr_of :: "u8 list \<Rightarrow> proghdr" where
  "proghdr_of bs = \<lparr>ph_type = field bs 0 4, ph_flags = field bs 4 4, ph_off = field bs 8 8,
     ph_vaddr = field bs 16 8, ph_filesz = field bs 32 8, ph_memsz = field bs 40 8\<rparr>"

subsection \<open>Loading\<close>

definition flags2perm :: "u32 \<Rightarrow> u64" where
  "flags2perm flags =
     (let perm = (if flags AND 0x1 \<noteq> 0 then PTE_X else 0)
      in if flags AND 0x2 \<noteq> 0 then perm OR PTE_W else perm)"

text \<open>The loop of \<open>loadseg\<close> visits \<open>i = 0, PGSIZE, 2 * PGSIZE, ...\<close> below \<open>sz\<close>.\<close>

definition loadseg :: "u64 \<Rightarrow> u64 \<Rightarrow> nat \<Rightarrow> u32 \<Rightarrow> u32 \<Rightarrow> ('a fsys_scheme, int) kfun" where
  "loadseg pt va ip offset sz =
     bnd (for_until (map (\<lambda>k. of_nat (k * 4096)) [0..<(unat sz + 4095) div 4096]) (\<lambda>i.
       bnd (walkaddr pt (va + ucast i)) (\<lambda>pa.
       if pa = 0 then panic ''loadseg: address should exist''
       else let n = (if sz - i < 4096 then sz - i else 4096) in
            bnd (readi ip (Kern pa) (offset + i) n) (\<lambda>(r, _).
            if word_of_int r \<noteq> n then ret (Some (- 1)) else ret None)))) (\<lambda>r.
     case r of Some v \<Rightarrow> ret v | None \<Rightarrow> ret 0)"

text \<open>
  The loop over the program headers.  \<open>Inr sz\<close>: everything is loaded and the image has size
  \<open>sz\<close>.  \<open>Inl sz\<close>: the code jumps to \<^verbatim>\<open>bad\<close> with this size.
\<close>

definition exec_segment :: "u64 \<Rightarrow> nat \<Rightarrow> u64 \<Rightarrow> proghdr \<Rightarrow> ('a fsys_scheme, u64 + u64) kfun" where
  "exec_segment pt ip sz ph =
     (if ph_type ph \<noteq> ELF_PROG_LOAD then ret (Inr sz)
      else if ph_memsz ph < ph_filesz ph then ret (Inl sz)
      else if ph_vaddr ph + ph_memsz ph < ph_vaddr ph then ret (Inl sz)
      else if ph_vaddr ph mod PGSIZE \<noteq> 0 then ret (Inl sz)
      else bnd (uvmalloc pt sz (ph_vaddr ph + ph_memsz ph) (flags2perm (ph_flags ph))) (\<lambda>sz1.
           if sz1 = 0 then ret (Inl sz)
           else bnd (loadseg pt (ph_vaddr ph) ip (ucast (ph_off ph)) (ucast (ph_filesz ph))) (\<lambda>r.
                ret (if r < 0 then Inl sz1 else Inr sz1))))"

fun exec_load :: "nat \<Rightarrow> u64 \<Rightarrow> nat \<Rightarrow> u32 \<Rightarrow> u64 \<Rightarrow> ('a fsys_scheme, u64 + u64) kfun" where
  "exec_load 0 pt ip off sz = ret (Inr sz)"
| "exec_load (Suc k) pt ip off sz =
     bnd (readi ip Local off (of_nat sizeof_proghdr)) (\<lambda>(r, bs).
     if r \<noteq> int sizeof_proghdr then ret (Inl sz)
     else bnd (exec_segment pt ip sz (proghdr_of bs)) (\<lambda>r.
          case r of Inl sz \<Rightarrow> ret (Inl sz)
                  | Inr sz \<Rightarrow> exec_load k pt ip (off + of_nat sizeof_proghdr) sz))"

definition exec_bad :: "u64 \<Rightarrow> u64 \<Rightarrow> nat option \<Rightarrow> ('a files_scheme, int) kfun" where
  "exec_bad pt sz ip =
     bnd (do_if (pt \<noteq> 0) (proc_freepagetable pt sz)) (\<lambda>_.
     bnd (case ip of Some i \<Rightarrow> bnd (iunlockput i) (\<lambda>_. end_op) | None \<Rightarrow> ret ()) (\<lambda>_.
     ret (- 1)))"

text \<open>
  Pushing the argument strings.  The result is the stack pointer and the array \<^verbatim>\<open>ustack\<close>
  without its terminating null; \<open>None\<close> is the jump to \<^verbatim>\<open>bad\<close>.
\<close>

fun push_args :: "u64 \<Rightarrow> u64 \<Rightarrow> u64 list \<Rightarrow> u64 \<Rightarrow> u64 list \<Rightarrow> ('a files_scheme, (u64 \<times> u64 list) option) kfun" where
  "push_args pt stackbase [] sp ustack = ret (Some (sp, ustack))"
| "push_args pt stackbase (a # argv) sp ustack =
     (if MAXARG \<le> length ustack then ret None
      else bnd (gets (\<lambda>s. strlen (mem s) a)) (\<lambda>len.
           case len of
             None \<Rightarrow> (\<lambda>s. Diverges)
           | Some n \<Rightarrow>
               let sp = sp - of_nat (n + 1); sp = sp - sp mod 16 in
               if sp < stackbase then ret None
               else bnd (gets (\<lambda>s. read_bytes (mem s) a (n + 1))) (\<lambda>str.
                    bnd (copyout pt sp str) (\<lambda>r.
                    if r < 0 then ret None
                    else push_args pt stackbase argv sp (ustack @ [sp])))))"

definition push_ustack :: "u64 \<Rightarrow> u64 \<Rightarrow> u64 \<Rightarrow> u64 list \<Rightarrow> ('a files_scheme, u64 option) kfun" where
  "push_ustack pt stackbase sp ustack =
     (let ptrs = ustack @ [0]; sp = sp - of_nat (length ptrs * 8); sp = sp - sp mod 16 in
      if sp < stackbase then ret None
      else bnd (copyout pt sp (concat (map (le_bytes 8) ptrs))) (\<lambda>r.
           ret (if r < 0 then None else Some sp)))"

text \<open>\<open>last\<close> of \<open>exec\<close>: the path after its last slash.\<close>

fun exec_last :: "u8 list \<Rightarrow> u8 list \<Rightarrow> u8 list" where
  "exec_last [] lst = lst"
| "exec_last (c # cs) lst = exec_last cs (if c = slash then cs else lst)"

text \<open>\<open>safestrcpy\<close> of \<^verbatim>\<open>kernel/string.c\<close> on a buffer held by value.\<close>

definition safestrcpy_val :: "u8 list \<Rightarrow> u8 list \<Rightarrow> nat \<Rightarrow> u8 list" where
  "safestrcpy_val old t n =
     (if n = 0 then old
      else let c = take (n - 1) (cstring t) in c @ [0] @ drop (Suc (length c)) old)"

definition upd_tf :: "u64 \<Rightarrow> (trapframe \<Rightarrow> trapframe) \<Rightarrow> ('a procs_scheme, unit) kfun" where
  "upd_tf a f = modify (\<lambda>s. s\<lparr>tfs := (tfs s)(a := f (tfs s a))\<rparr>)"

definition exec_commit :: "nat \<Rightarrow> u64 \<Rightarrow> u64 \<Rightarrow> u64 \<Rightarrow> u64 \<Rightarrow> u8 list \<Rightarrow> u64 \<Rightarrow> nat \<Rightarrow> ('a files_scheme, int) kfun" where
  "exec_commit p pt sz sp oldsz path entry argc =
     bnd (gets (\<lambda>s. ptab s p)) (\<lambda>pr.
     bnd (upd_tf (ptrapframe pr) (\<lambda>t. t\<lparr>tf_a1 := sp\<rparr>)) (\<lambda>_.
     bnd (upd_proc p (\<lambda>r. r\<lparr>pname := safestrcpy_val (pname r) (exec_last path path) 16,
                          pagetable := pt, psz := sz\<rparr>)) (\<lambda>_.
     bnd (upd_tf (ptrapframe pr) (\<lambda>t. t\<lparr>tf_epc := entry, tf_sp := sp\<rparr>)) (\<lambda>_.
     bnd (proc_freepagetable (pagetable pr) oldsz) (\<lambda>_.
     ret (int argc))))))"

text \<open>\<open>exec\<close> after the program is loaded.\<close>

definition exec_stack :: "u8 list \<Rightarrow> u64 list \<Rightarrow> u64 \<Rightarrow> u64 \<Rightarrow> u64 \<Rightarrow> ('a files_scheme, int) kfun" where
  "exec_stack path argv pt sz0 entry =
     bnd cur_proc (\<lambda>p.
     bnd (gets (\<lambda>s. psz (ptab s p))) (\<lambda>oldsz.
     let sz = PGROUNDUP sz0 in
     bnd (uvmalloc pt sz (sz + 2 * PGSIZE) PTE_W) (\<lambda>sz1.
     if sz1 = 0 then exec_bad pt sz None
     else bnd (uvmclear pt (sz1 - 2 * PGSIZE)) (\<lambda>_.
          let stackbase = sz1 - PGSIZE in
          bnd (push_args pt stackbase argv sz1 []) (\<lambda>r.
          case r of
            None \<Rightarrow> exec_bad pt sz1 None
          | Some (sp, ustack) \<Rightarrow>
              bnd (push_ustack pt stackbase sp ustack) (\<lambda>r.
              case r of
                None \<Rightarrow> exec_bad pt sz1 None
              | Some sp \<Rightarrow> exec_commit p pt sz1 sp oldsz path entry (length argv)))))))"

definition exec :: "u8 list \<Rightarrow> u64 list \<Rightarrow> ('a files_scheme, int) kfun" where
  "exec path argv =
     bnd cur_proc (\<lambda>p.
     bnd begin_op (\<lambda>_.
     bnd (namei path) (\<lambda>ipo.
     case ipo of
       None \<Rightarrow> bnd end_op (\<lambda>_. ret (- 1))
     | Some ip \<Rightarrow>
         bnd (ilock (Some ip)) (\<lambda>_.
         bnd (readi ip Local 0 (of_nat sizeof_elfhdr)) (\<lambda>(r, bs).
         let elf = elfhdr_of bs in
         if r \<noteq> int sizeof_elfhdr then exec_bad 0 0 (Some ip)
         else if e_magic elf \<noteq> ELF_MAGIC then exec_bad 0 0 (Some ip)
         else bnd (proc_pagetable p) (\<lambda>pt.
              if pt = 0 then exec_bad 0 0 (Some ip)
              else bnd (exec_load (unat (e_phnum elf)) pt ip (ucast (e_phoff elf)) 0) (\<lambda>r.
                   case r of
                     Inl sz \<Rightarrow> exec_bad pt sz (Some ip)
                   | Inr sz \<Rightarrow>
                       bnd (iunlockput ip) (\<lambda>_.
                       bnd end_op (\<lambda>_.
                       exec_stack path argv pt sz (e_entry elf))))))))))"

end
