(* ===== verification/Xv6_Life.thy ===== *)
theory Xv6_Life
  imports Xv6_Exec
begin

text \<open>
  Birth and death of processes: \<open>userinit\<close>, \<open>fork\<close> and \<open>exit\<close> of \<^verbatim>\<open>kernel/proc.c\<close>, which reach
  into the file system.
\<close>

definition initcode :: "u8 list" where
  "initcode = [
    0x17, 0x05, 0x00, 0x00, 0x13, 0x05, 0x45, 0x02,
    0x97, 0x05, 0x00, 0x00, 0x93, 0x85, 0x35, 0x02,
    0x93, 0x08, 0x70, 0x00, 0x73, 0x00, 0x00, 0x00,
    0x93, 0x08, 0x20, 0x00, 0x73, 0x00, 0x00, 0x00,
    0xef, 0xf0, 0x9f, 0xff, 0x2f, 0x69, 0x6e, 0x69,
    0x74, 0x00, 0x00, 0x24, 0x00, 0x00, 0x00, 0x00,
    0x00, 0x00, 0x00, 0x00]"

definition bytes_of :: "string \<Rightarrow> u8 list" where
  "bytes_of cs = map (\<lambda>c. of_nat (of_char c)) cs"

definition userinit :: "('a files_scheme, unit) kfun" where
  "userinit =
     bnd allocproc (\<lambda>r.
     bnd (modify (\<lambda>s. s\<lparr>initproc := r\<rparr>)) (\<lambda>_.
     case r of
       None \<Rightarrow> panic ''kerneltrap''
     | Some i \<Rightarrow>
         bnd (gets (\<lambda>s. ptab s i)) (\<lambda>p.
         bnd (uvmfirst (pagetable p) initcode) (\<lambda>_.
         bnd (upd_proc i (\<lambda>r. r\<lparr>psz := PGSIZE\<rparr>)) (\<lambda>_.
         bnd (upd_tf (ptrapframe p) (\<lambda>t. t\<lparr>tf_epc := 0, tf_sp := PGSIZE\<rparr>)) (\<lambda>_.
         bnd (upd_proc i (\<lambda>r. r\<lparr>pname := safestrcpy_val (pname r) (bytes_of ''initcode'') 16\<rparr>)) (\<lambda>_.
         bnd (namei [slash]) (\<lambda>d.
         bnd (upd_proc i (\<lambda>r. r\<lparr>cwd := d, pstate := RUNNABLE\<rparr>)) (\<lambda>_.
         release (L_proc i))))))))))"

definition fork_files :: "nat \<Rightarrow> nat \<Rightarrow> ('a files_scheme, unit) kfun" where
  "fork_files p np =
     for_each [0..<NOFILE] (\<lambda>i.
       bnd (gets (\<lambda>s. ofile (ptab s p) i)) (\<lambda>f.
       case f of
         None \<Rightarrow> ret ()
       | Some fi \<Rightarrow>
           bnd (filedup fi) (\<lambda>d.
           upd_proc np (\<lambda>r. r\<lparr>ofile := (ofile r)(i := Some d)\<rparr>))))"

definition fork :: "('a files_scheme, int) kfun" where
  "fork =
     bnd cur_proc (\<lambda>p.
     bnd allocproc (\<lambda>r.
     case r of
       None \<Rightarrow> ret (- 1)
     | Some np \<Rightarrow>
         bnd (gets (\<lambda>s. (ptab s p, ptab s np))) (\<lambda>(pr, npr).
         bnd (uvmcopy (pagetable pr) (pagetable npr) (psz pr)) (\<lambda>e.
         if e < 0 then bnd (freeproc np) (\<lambda>_. bnd (release (L_proc np)) (\<lambda>_. ret (- 1)))
         else
         bnd (upd_proc np (\<lambda>r. r\<lparr>psz := psz pr\<rparr>)) (\<lambda>_.
         bnd (gets (\<lambda>s. tfs s (ptrapframe pr))) (\<lambda>tf.
         bnd (upd_tf (ptrapframe npr) (\<lambda>_. tf\<lparr>tf_a0 := 0\<rparr>)) (\<lambda>_.
         bnd (fork_files p np) (\<lambda>_.
         bnd (case cwd pr of None \<Rightarrow> panic ''kerneltrap'' | Some d \<Rightarrow> idup d) (\<lambda>d.
         bnd (upd_proc np (\<lambda>r. r\<lparr>cwd := Some d, pname := safestrcpy_val (pname r) (pname pr) 16\<rparr>)) (\<lambda>_.
         bnd (gets (\<lambda>s. pid (ptab s np))) (\<lambda>n.
         bnd (release (L_proc np)) (\<lambda>_.
         bnd (locking L_wait (upd_proc np (\<lambda>r. r\<lparr>parent := Some p\<rparr>))) (\<lambda>_.
         bnd (locking (L_proc np) (upd_proc np (\<lambda>r. r\<lparr>pstate := RUNNABLE\<rparr>))) (\<lambda>_.
         ret n))))))))))))))"

definition exit_files :: "nat \<Rightarrow> ('a files_scheme, unit) kfun" where
  "exit_files p =
     for_each [0..<NOFILE] (\<lambda>fd.
       bnd (gets (\<lambda>s. ofile (ptab s p) fd)) (\<lambda>f.
       case f of
         None \<Rightarrow> ret ()
       | Some fi \<Rightarrow>
           bnd (fileclose fi) (\<lambda>_.
           upd_proc p (\<lambda>r. r\<lparr>ofile := (ofile r)(fd := None)\<rparr>))))"

text \<open>\<open>exit\<close> after the files and the working directory are given back.\<close>

definition exit_zombie :: "nat \<Rightarrow> int \<Rightarrow> ('a files_scheme, unit) kfun" where
  "exit_zombie p status =
     bnd (acquire L_wait) (\<lambda>_.
     bnd (reparent p) (\<lambda>_.
     bnd (gets (\<lambda>s. parent (ptab s p))) (\<lambda>q.
     bnd (wakeup (map_option C_proc q)) (\<lambda>_.
     bnd (acquire (L_proc p)) (\<lambda>_.
     bnd (upd_proc p (\<lambda>r. r\<lparr>xstate := status, pstate := ZOMBIE\<rparr>)) (\<lambda>_.
     bnd (release L_wait) (\<lambda>_.
     bnd sched (\<lambda>_.
     panic ''zombie exit''))))))))"

definition exit :: "int \<Rightarrow> ('a files_scheme, unit) kfun" where
  "exit status =
     bnd cur_proc (\<lambda>p.
     bnd (gets initproc) (\<lambda>ip.
     if ip = Some p then panic ''init exiting''
     else bnd (exit_files p) (\<lambda>_.
          bnd begin_op (\<lambda>_.
          bnd (gets (\<lambda>s. cwd (ptab s p))) (\<lambda>d.
          bnd (iput_ptr d) (\<lambda>_.
          bnd end_op (\<lambda>_.
          bnd (upd_proc p (\<lambda>r. r\<lparr>cwd := None\<rparr>)) (\<lambda>_.
          exit_zombie p status))))))))"

end
