(* ===== verification/Xv6_Sysfile.thy ===== *)
theory Xv6_Sysfile
  imports Xv6_Life
begin

text \<open>
  Fetching system call arguments (\<^verbatim>\<open>kernel/syscall.c\<close>) and the system calls on files
  (\<^verbatim>\<open>kernel/sysfile.c\<close>).
\<close>

subsection \<open>Arguments\<close>

definition fetchaddr :: "u64 \<Rightarrow> ('a procs_scheme, int \<times> u64) kfun" where
  "fetchaddr addr =
     bnd cur_proc (\<lambda>p.
     bnd (gets (\<lambda>s. ptab s p)) (\<lambda>pr.
     if psz pr \<le> addr \<or> psz pr < addr + 8 then ret (- 1, 0)
     else bnd (copyin (pagetable pr) addr 8) (\<lambda>(r, bs).
          if r \<noteq> 0 then ret (- 1, 0) else ret (0, le_word bs))))"

text \<open>\<open>fetchstr\<close> returns the length and the string; the buffer holds the string and its zero.\<close>

definition fetchstr :: "u64 \<Rightarrow> u64 \<Rightarrow> ('a procs_scheme, int \<times> u8 list) kfun" where
  "fetchstr addr mx =
     bnd cur_proc (\<lambda>p.
     bnd (gets (\<lambda>s. pagetable (ptab s p))) (\<lambda>pt.
     bnd (copyinstr pt addr mx) (\<lambda>(r, bs).
     if r < 0 then ret (- 1, bs) else ret (int (length (cstring bs)), bs))))"

definition argraw :: "nat \<Rightarrow> ('a procs_scheme, u64) kfun" where
  "argraw n =
     bnd cur_proc (\<lambda>p.
     bnd (gets (\<lambda>s. tfs s (ptrapframe (ptab s p)))) (\<lambda>tf.
     if n = 0 then ret (tf_a0 tf)
     else if n = 1 then ret (tf_a1 tf)
     else if n = 2 then ret (tf_a2 tf)
     else if n = 3 then ret (tf_a3 tf)
     else if n = 4 then ret (tf_a4 tf)
     else if n = 5 then ret (tf_a5 tf)
     else panic ''argraw''))"

definition argint :: "nat \<Rightarrow> ('a procs_scheme, u32) kfun" where
  "argint n = bnd (argraw n) (\<lambda>v. ret (ucast v))"

definition argaddr :: "nat \<Rightarrow> ('a procs_scheme, u64) kfun" where
  "argaddr n = argraw n"

definition argstr :: "nat \<Rightarrow> u64 \<Rightarrow> ('a procs_scheme, int \<times> u8 list) kfun" where
  "argstr n mx = bnd (argaddr n) (\<lambda>a. fetchstr a mx)"

text \<open>A path argument: \<open>None\<close> when \<open>argstr\<close> fails.\<close>

definition argpath :: "nat \<Rightarrow> ('a procs_scheme, u8 list option) kfun" where
  "argpath n = bnd (argstr n (of_nat MAXPATH)) (\<lambda>(r, bs). ret (if r < 0 then None else Some (cstring bs)))"

subsection \<open>Descriptors\<close>

definition argfd :: "nat \<Rightarrow> ('a files_scheme, (nat \<times> nat) option) kfun" where
  "argfd n =
     bnd (argint n) (\<lambda>fd.
     if sint fd < 0 \<or> sint fd \<ge> int NOFILE then ret None
     else bnd cur_proc (\<lambda>p.
          bnd (gets (\<lambda>s. ofile (ptab s p) (unat fd))) (\<lambda>f.
          ret (map_option (\<lambda>fi. (unat fd, fi)) f))))"

definition fdalloc :: "nat \<Rightarrow> ('a files_scheme, int) kfun" where
  "fdalloc f =
     bnd cur_proc (\<lambda>p.
     bnd (gets (\<lambda>s. List.find (\<lambda>fd. ofile (ptab s p) fd = None) [0..<NOFILE])) (\<lambda>r.
     case r of
       Some fd \<Rightarrow> bnd (upd_proc p (\<lambda>q. q\<lparr>ofile := (ofile q)(fd := Some f)\<rparr>)) (\<lambda>_. ret (int fd))
     | None \<Rightarrow> ret (- 1)))"

definition sys_dup :: "('a files_scheme, int) kfun" where
  "sys_dup =
     bnd (argfd 0) (\<lambda>r.
     case r of
       None \<Rightarrow> ret (- 1)
     | Some (_, f) \<Rightarrow>
         bnd (fdalloc f) (\<lambda>fd.
         if fd < 0 then ret (- 1) else bnd (filedup f) (\<lambda>_. ret fd)))"

definition sys_read :: "('a files_scheme, int) kfun" where
  "sys_read =
     bnd (argaddr 1) (\<lambda>p.
     bnd (argint 2) (\<lambda>n.
     bnd (argfd 0) (\<lambda>r.
     case r of None \<Rightarrow> ret (- 1) | Some (_, f) \<Rightarrow> fileread f p (sint n))))"

definition sys_write :: "('a files_scheme, int) kfun" where
  "sys_write =
     bnd (argaddr 1) (\<lambda>p.
     bnd (argint 2) (\<lambda>n.
     bnd (argfd 0) (\<lambda>r.
     case r of None \<Rightarrow> ret (- 1) | Some (_, f) \<Rightarrow> filewrite f p (sint n))))"

definition clear_fd :: "nat \<Rightarrow> ('a procs_scheme, unit) kfun" where
  "clear_fd fd = bnd cur_proc (\<lambda>p. upd_proc p (\<lambda>q. q\<lparr>ofile := (ofile q)(fd := None)\<rparr>))"

definition sys_close :: "('a files_scheme, int) kfun" where
  "sys_close =
     bnd (argfd 0) (\<lambda>r.
     case r of
       None \<Rightarrow> ret (- 1)
     | Some (fd, f) \<Rightarrow>
         bnd (clear_fd fd) (\<lambda>_.
         bnd (fileclose f) (\<lambda>_.
         ret 0)))"

definition sys_fstat :: "u8 list \<Rightarrow> ('a files_scheme, int) kfun" where
  "sys_fstat pad =
     bnd (argaddr 1) (\<lambda>st.
     bnd (argfd 0) (\<lambda>r.
     case r of None \<Rightarrow> ret (- 1) | Some (_, f) \<Rightarrow> filestat pad f st))"

subsection \<open>Links\<close>

definition fail_op :: "('a files_scheme, int) kfun" where
  "fail_op = bnd end_op (\<lambda>_. ret (- 1))"

definition sys_link_bad :: "nat \<Rightarrow> ('a files_scheme, int) kfun" where
  "sys_link_bad ip =
     bnd (ilock (Some ip)) (\<lambda>_.
     bnd (upd_inode ip (\<lambda>r. r\<lparr>inlink := inlink r - 1\<rparr>)) (\<lambda>_.
     bnd (iupdate ip) (\<lambda>_.
     bnd (iunlockput ip) (\<lambda>_.
     fail_op))))"

definition sys_link_op :: "u8 list \<Rightarrow> u8 list \<Rightarrow> ('a files_scheme, int) kfun" where
  "sys_link_op old new =
     bnd begin_op (\<lambda>_.
     bnd (namei old) (\<lambda>r.
     case r of
       None \<Rightarrow> fail_op
     | Some ip \<Rightarrow>
         bnd (ilock (Some ip)) (\<lambda>_.
         bnd (gets (\<lambda>s. itype (inodes s ip) = T_DIR)) (\<lambda>isdir.
         if isdir then bnd (iunlockput ip) (\<lambda>_. fail_op)
         else
         bnd (upd_inode ip (\<lambda>r. r\<lparr>inlink := inlink r + 1\<rparr>)) (\<lambda>_.
         bnd (iupdate ip) (\<lambda>_.
         bnd (iunlock (Some ip)) (\<lambda>_.
         bnd (nameiparent new) (\<lambda>(r, name).
         case r of
           None \<Rightarrow> sys_link_bad ip
         | Some dp \<Rightarrow>
             bnd (ilock (Some dp)) (\<lambda>_.
             bnd (gets (\<lambda>s. (idev (inodes s dp) \<noteq> idev (inodes s ip), inum (inodes s ip)))) (\<lambda>(cross, ino).
             bnd (if cross then ret (- 1) else dirlink dp name ino) (\<lambda>e.
             if e < 0 then bnd (iunlockput dp) (\<lambda>_. sys_link_bad ip)
             else bnd (iunlockput dp) (\<lambda>_.
                  bnd (iput ip) (\<lambda>_.
                  bnd end_op (\<lambda>_.
                  ret 0))))))))))))))"

definition sys_link :: "('a files_scheme, int) kfun" where
  "sys_link =
     bnd (argpath 0) (\<lambda>old.
     case old of
       None \<Rightarrow> ret (- 1)
     | Some old \<Rightarrow>
         bnd (argpath 1) (\<lambda>new.
         case new of None \<Rightarrow> ret (- 1) | Some new \<Rightarrow> sys_link_op old new))"

definition isdirempty :: "nat \<Rightarrow> ('a fsys_scheme, bool) kfun" where
  "isdirempty dp =
     bnd (gets (\<lambda>s. isize (inodes s dp))) (\<lambda>sz.
     bnd (for_until (drop 2 (dirent_offs sz)) (\<lambda>off.
       bnd (read_dirent ''isdirempty: readi'' dp off) (\<lambda>de.
       ret (if de_inum de \<noteq> 0 then Some False else None)))) (\<lambda>r.
     ret (case r of Some b \<Rightarrow> b | None \<Rightarrow> True)))"

definition unlink_bad :: "nat \<Rightarrow> ('a files_scheme, int) kfun" where
  "unlink_bad dp = bnd (iunlockput dp) (\<lambda>_. fail_op)"

definition unlink_found :: "nat \<Rightarrow> nat \<Rightarrow> u32 \<Rightarrow> ('a files_scheme, int) kfun" where
  "unlink_found dp ip off =
     bnd (ilock (Some ip)) (\<lambda>_.
     bnd (gets (\<lambda>s. inodes s ip)) (\<lambda>i.
     if sint (inlink i) < 1 then panic ''unlink: nlink < 1''
     else bnd (if itype i = T_DIR then isdirempty ip else ret True) (\<lambda>empty.
       if itype i = T_DIR \<and> \<not> empty then bnd (iunlockput ip) (\<lambda>_. unlink_bad dp)
       else
       bnd (writei dp (SLocal (replicate sizeof_dirent 0)) off (of_nat sizeof_dirent)) (\<lambda>w.
       if w \<noteq> int sizeof_dirent then panic ''unlink: writei''
       else
       bnd (do_if (itype i = T_DIR)
             (bnd (upd_inode dp (\<lambda>r. r\<lparr>inlink := inlink r - 1\<rparr>)) (\<lambda>_. iupdate dp))) (\<lambda>_.
       bnd (iunlockput dp) (\<lambda>_.
       bnd (upd_inode ip (\<lambda>r. r\<lparr>inlink := inlink r - 1\<rparr>)) (\<lambda>_.
       bnd (iupdate ip) (\<lambda>_.
       bnd (iunlockput ip) (\<lambda>_.
       bnd end_op (\<lambda>_.
       ret 0))))))))))"

definition sys_unlink :: "('a files_scheme, int) kfun" where
  "sys_unlink =
     bnd (argpath 0) (\<lambda>path.
     case path of
       None \<Rightarrow> ret (- 1)
     | Some path \<Rightarrow>
         bnd begin_op (\<lambda>_.
         bnd (nameiparent path) (\<lambda>(r, name).
         case r of
           None \<Rightarrow> fail_op
         | Some dp \<Rightarrow>
             bnd (ilock (Some dp)) (\<lambda>_.
             if namecmp name (bytes_of ''.'') = 0 \<or> namecmp name (bytes_of ''..'') = 0 then unlink_bad dp
             else bnd (dirlookup dp name) (\<lambda>hit.
                  case hit of None \<Rightarrow> unlink_bad dp | Some (ip, off) \<Rightarrow> unlink_found dp ip off)))))"

subsection \<open>Creating and opening\<close>

definition create_fail :: "nat \<Rightarrow> nat \<Rightarrow> ('a files_scheme, nat option) kfun" where
  "create_fail dp ip =
     bnd (upd_inode ip (\<lambda>r. r\<lparr>inlink := 0\<rparr>)) (\<lambda>_.
     bnd (iupdate ip) (\<lambda>_.
     bnd (iunlockput ip) (\<lambda>_.
     bnd (iunlockput dp) (\<lambda>_.
     ret None))))"

definition create_new :: "nat \<Rightarrow> u8 list \<Rightarrow> nat \<Rightarrow> u16 \<Rightarrow> u16 \<Rightarrow> u16 \<Rightarrow> ('a files_scheme, nat option) kfun" where
  "create_new dp name ip type major minor =
     bnd (ilock (Some ip)) (\<lambda>_.
     bnd (upd_inode ip (\<lambda>r. r\<lparr>imajor := major, iminor := minor, inlink := 1\<rparr>)) (\<lambda>_.
     bnd (iupdate ip) (\<lambda>_.
     bnd (gets (\<lambda>s. (inum (inodes s ip), inum (inodes s dp)))) (\<lambda>(ino, dino).
     bnd (if type = T_DIR
          then bnd (dirlink ip (bytes_of ''.'') ino) (\<lambda>e.
               if e < 0 then ret e else dirlink ip (bytes_of ''..'') dino)
          else ret 0) (\<lambda>e.
     if e < 0 then create_fail dp ip
     else bnd (dirlink dp name ino) (\<lambda>e.
     if e < 0 then create_fail dp ip
     else bnd (do_if (type = T_DIR)
                (bnd (upd_inode dp (\<lambda>r. r\<lparr>inlink := inlink r + 1\<rparr>)) (\<lambda>_. iupdate dp))) (\<lambda>_.
          bnd (iunlockput dp) (\<lambda>_.
          ret (Some ip)))))))))"

definition create :: "u8 list \<Rightarrow> u16 \<Rightarrow> u16 \<Rightarrow> u16 \<Rightarrow> ('a files_scheme, nat option) kfun" where
  "create path type major minor =
     bnd (nameiparent path) (\<lambda>(r, name).
     case r of
       None \<Rightarrow> ret None
     | Some dp \<Rightarrow>
         bnd (ilock (Some dp)) (\<lambda>_.
         bnd (dirlookup dp name) (\<lambda>hit.
         case hit of
           Some (ip, _) \<Rightarrow>
             bnd (iunlockput dp) (\<lambda>_.
             bnd (ilock (Some ip)) (\<lambda>_.
             bnd (gets (\<lambda>s. itype (inodes s ip))) (\<lambda>ty.
             if type = T_FILE \<and> (ty = T_FILE \<or> ty = T_DEVICE) then ret (Some ip)
             else bnd (iunlockput ip) (\<lambda>_. ret None))))
         | None \<Rightarrow>
             bnd (gets (\<lambda>s. idev (inodes s dp))) (\<lambda>dev.
             bnd (ialloc dev type) (\<lambda>r.
             case r of
               None \<Rightarrow> bnd (iunlockput dp) (\<lambda>_. ret None)
             | Some ip \<Rightarrow> create_new dp name ip type major minor)))))"

definition O_RDONLY :: u32 where "O_RDONLY = 0x000"
definition O_WRONLY :: u32 where "O_WRONLY = 0x001"
definition O_RDWR :: u32 where "O_RDWR = 0x002"
definition O_CREATE :: u32 where "O_CREATE = 0x200"
definition O_TRUNC :: u32 where "O_TRUNC = 0x400"

text \<open>The first half of \<open>sys_open\<close>: the locked inode, \<open>None\<close> after the transaction has ended.\<close>

definition open_inode :: "u8 list \<Rightarrow> u32 \<Rightarrow> ('a files_scheme, nat option) kfun" where
  "open_inode path omode =
     (if omode AND O_CREATE \<noteq> 0
      then bnd (create path T_FILE 0 0) (\<lambda>r.
           if r = None then bnd end_op (\<lambda>_. ret None) else ret r)
      else bnd (namei path) (\<lambda>r.
           case r of
             None \<Rightarrow> bnd end_op (\<lambda>_. ret None)
           | Some ip \<Rightarrow>
               bnd (ilock (Some ip)) (\<lambda>_.
               bnd (gets (\<lambda>s. itype (inodes s ip) = T_DIR)) (\<lambda>isdir.
               if isdir \<and> omode \<noteq> O_RDONLY
               then bnd (iunlockput ip) (\<lambda>_. bnd end_op (\<lambda>_. ret None))
               else ret (Some ip)))))"

definition open_fail :: "nat \<Rightarrow> ('a files_scheme, int) kfun" where
  "open_fail ip = bnd (iunlockput ip) (\<lambda>_. fail_op)"

definition open_file :: "nat \<Rightarrow> u32 \<Rightarrow> nat \<Rightarrow> ('a files_scheme, unit) kfun" where
  "open_file ip omode f =
     bnd (gets (\<lambda>s. inodes s ip)) (\<lambda>i.
     bnd (upd_file f (\<lambda>r.
       (if itype i = T_DEVICE then r\<lparr>ftype := FD_DEVICE, fmajor := imajor i\<rparr>
        else r\<lparr>ftype := FD_INODE, foff := 0\<rparr>)
       \<lparr>fip := Some ip, readable := omode AND O_WRONLY = 0,
        writable := omode AND O_WRONLY \<noteq> 0 \<or> omode AND O_RDWR \<noteq> 0\<rparr>)) (\<lambda>_.
     do_if (omode AND O_TRUNC \<noteq> 0 \<and> itype i = T_FILE) (itrunc ip)))"

definition sys_open :: "('a files_scheme, int) kfun" where
  "sys_open =
     bnd (argint 1) (\<lambda>omode.
     bnd (argpath 0) (\<lambda>path.
     case path of
       None \<Rightarrow> ret (- 1)
     | Some path \<Rightarrow>
         bnd begin_op (\<lambda>_.
         bnd (open_inode path omode) (\<lambda>r.
         case r of
           None \<Rightarrow> ret (- 1)
         | Some ip \<Rightarrow>
             bnd (gets (\<lambda>s. itype (inodes s ip) = T_DEVICE \<and> \<not> dev_ok (imajor (inodes s ip)))) (\<lambda>bad.
             if bad then open_fail ip
             else bnd filealloc (\<lambda>fo.
               case fo of
                 None \<Rightarrow> open_fail ip
               | Some f \<Rightarrow>
                   bnd (fdalloc f) (\<lambda>fd.
                   if fd < 0 then bnd (fileclose f) (\<lambda>_. open_fail ip)
                   else bnd (open_file ip omode f) (\<lambda>_.
                        bnd (iunlock (Some ip)) (\<lambda>_.
                        bnd end_op (\<lambda>_.
                        ret fd))))))))))"

definition create_arg :: "u16 \<Rightarrow> u16 \<Rightarrow> u16 \<Rightarrow> ('a files_scheme, int) kfun" where
  "create_arg type major minor =
     bnd (argpath 0) (\<lambda>path.
     case path of
       None \<Rightarrow> fail_op
     | Some path \<Rightarrow>
         bnd (create path type major minor) (\<lambda>r.
         case r of
           None \<Rightarrow> fail_op
         | Some ip \<Rightarrow> bnd (iunlockput ip) (\<lambda>_. bnd end_op (\<lambda>_. ret 0))))"

definition sys_mkdir :: "('a files_scheme, int) kfun" where
  "sys_mkdir = bnd begin_op (\<lambda>_. create_arg T_DIR 0 0)"

definition sys_mknod :: "('a files_scheme, int) kfun" where
  "sys_mknod =
     bnd begin_op (\<lambda>_.
     bnd (argint 1) (\<lambda>major.
     bnd (argint 2) (\<lambda>minor.
     create_arg T_DEVICE (ucast major) (ucast minor))))"

definition sys_chdir :: "('a files_scheme, int) kfun" where
  "sys_chdir =
     bnd cur_proc (\<lambda>p.
     bnd begin_op (\<lambda>_.
     bnd (argpath 0) (\<lambda>path.
     case path of
       None \<Rightarrow> fail_op
     | Some path \<Rightarrow>
         bnd (namei path) (\<lambda>r.
         case r of
           None \<Rightarrow> fail_op
         | Some ip \<Rightarrow>
             bnd (ilock (Some ip)) (\<lambda>_.
             bnd (gets (\<lambda>s. itype (inodes s ip) = T_DIR)) (\<lambda>isdir.
             if \<not> isdir then bnd (iunlockput ip) (\<lambda>_. fail_op)
             else
             bnd (iunlock (Some ip)) (\<lambda>_.
             bnd (gets (\<lambda>s. cwd (ptab s p))) (\<lambda>d.
             bnd (iput_ptr d) (\<lambda>_.
             bnd end_op (\<lambda>_.
             bnd (upd_proc p (\<lambda>q. q\<lparr>cwd := Some ip\<rparr>)) (\<lambda>_.
             ret 0)))))))))))"

subsection \<open>exec and pipe\<close>

text \<open>
  The loop of \<open>sys_exec\<close> that copies the argument strings into pages of their own; the list
  holds the pages allocated so far.  \<open>(False, pages)\<close> is the jump to \<^verbatim>\<open>bad\<close>.
\<close>

fun exec_args :: "nat \<Rightarrow> u64 \<Rightarrow> u64 list \<Rightarrow> ('a files_scheme, bool \<times> u64 list) kfun" where
  "exec_args 0 uargv argv = ret (False, argv)"
| "exec_args (Suc k) uargv argv =
     bnd (fetchaddr (uargv + 8 * of_nat (length argv))) (\<lambda>(r, uarg).
     if r < 0 then ret (False, argv)
     else if uarg = 0 then ret (True, argv)
     else bnd kalloc (\<lambda>pg.
          if pg = 0 then ret (False, argv)
          else bnd (fetchstr uarg PGSIZE) (\<lambda>(r, bs).
               bnd (write_k pg bs) (\<lambda>_.
               if r < 0 then ret (False, argv @ [pg])
               else exec_args k uargv (argv @ [pg])))))"

definition sys_exec :: "('a files_scheme, int) kfun" where
  "sys_exec =
     bnd (argaddr 1) (\<lambda>uargv.
     bnd (argpath 0) (\<lambda>path.
     case path of
       None \<Rightarrow> ret (- 1)
     | Some path \<Rightarrow>
         bnd (exec_args MAXARG uargv []) (\<lambda>(ok, argv).
         bnd (if ok then exec path argv else ret (- 1)) (\<lambda>r.
         bnd (for_each argv kfree) (\<lambda>_.
         ret r)))))"

definition pipe_fail :: "nat \<Rightarrow> nat \<Rightarrow> ('a files_scheme, int) kfun" where
  "pipe_fail rf wfl =
     bnd (fileclose rf) (\<lambda>_.
     bnd (fileclose wfl) (\<lambda>_.
     ret (- 1)))"

definition sys_pipe :: "('a files_scheme, int) kfun" where
  "sys_pipe =
     bnd cur_proc (\<lambda>p.
     bnd (argaddr 0) (\<lambda>fdarray.
     bnd pipealloc (\<lambda>r.
     case r of
       None \<Rightarrow> ret (- 1)
     | Some (rf, wfl) \<Rightarrow>
         bnd (fdalloc rf) (\<lambda>fd0.
         if fd0 < 0 then pipe_fail rf wfl
         else
         bnd (fdalloc wfl) (\<lambda>fd1.
         if fd1 < 0 then bnd (clear_fd (nat fd0)) (\<lambda>_. pipe_fail rf wfl)
         else
         bnd (gets (\<lambda>s. pagetable (ptab s p))) (\<lambda>pt.
         bnd (copyout pt fdarray (int_bytes fd0)) (\<lambda>e0.
         bnd (if e0 < 0 then ret e0 else copyout pt (fdarray + 4) (int_bytes fd1)) (\<lambda>e1.
         if e1 < 0
         then bnd (clear_fd (nat fd0)) (\<lambda>_.
              bnd (clear_fd (nat fd1)) (\<lambda>_.
              pipe_fail rf wfl))
         else ret 0))))))))"

end
