(* ===== verification/Xv6_Virtio.thy ===== *)
theory Xv6_Virtio
  imports Xv6_File
begin

text \<open>
  The disk driver, \<^verbatim>\<open>kernel/virtio_disk.c\<close> and \<^verbatim>\<open>kernel/virtio.h\<close>.  The queue pages are only used
  through the structures of the driver, which the state holds directly; a descriptor names
  what it points to by a constructor instead of an address.
\<close>

subsection \<open>kernel/virtio.h\<close>

definition VIRTIO_MMIO_MAGIC_VALUE :: u64 where "VIRTIO_MMIO_MAGIC_VALUE = 0x000"
definition VIRTIO_MMIO_VERSION :: u64 where "VIRTIO_MMIO_VERSION = 0x004"
definition VIRTIO_MMIO_DEVICE_ID :: u64 where "VIRTIO_MMIO_DEVICE_ID = 0x008"
definition VIRTIO_MMIO_VENDOR_ID :: u64 where "VIRTIO_MMIO_VENDOR_ID = 0x00c"
definition VIRTIO_MMIO_DEVICE_FEATURES :: u64 where "VIRTIO_MMIO_DEVICE_FEATURES = 0x010"
definition VIRTIO_MMIO_DRIVER_FEATURES :: u64 where "VIRTIO_MMIO_DRIVER_FEATURES = 0x020"
definition VIRTIO_MMIO_QUEUE_SEL :: u64 where "VIRTIO_MMIO_QUEUE_SEL = 0x030"
definition VIRTIO_MMIO_QUEUE_NUM_MAX :: u64 where "VIRTIO_MMIO_QUEUE_NUM_MAX = 0x034"
definition VIRTIO_MMIO_QUEUE_NUM :: u64 where "VIRTIO_MMIO_QUEUE_NUM = 0x038"
definition VIRTIO_MMIO_QUEUE_READY :: u64 where "VIRTIO_MMIO_QUEUE_READY = 0x044"
definition VIRTIO_MMIO_QUEUE_NOTIFY :: u64 where "VIRTIO_MMIO_QUEUE_NOTIFY = 0x050"
definition VIRTIO_MMIO_INTERRUPT_STATUS :: u64 where "VIRTIO_MMIO_INTERRUPT_STATUS = 0x060"
definition VIRTIO_MMIO_INTERRUPT_ACK :: u64 where "VIRTIO_MMIO_INTERRUPT_ACK = 0x064"
definition VIRTIO_MMIO_STATUS :: u64 where "VIRTIO_MMIO_STATUS = 0x070"
definition VIRTIO_MMIO_QUEUE_DESC_LOW :: u64 where "VIRTIO_MMIO_QUEUE_DESC_LOW = 0x080"
definition VIRTIO_MMIO_QUEUE_DESC_HIGH :: u64 where "VIRTIO_MMIO_QUEUE_DESC_HIGH = 0x084"
definition VIRTIO_MMIO_DRIVER_DESC_LOW :: u64 where "VIRTIO_MMIO_DRIVER_DESC_LOW = 0x090"
definition VIRTIO_MMIO_DRIVER_DESC_HIGH :: u64 where "VIRTIO_MMIO_DRIVER_DESC_HIGH = 0x094"
definition VIRTIO_MMIO_DEVICE_DESC_LOW :: u64 where "VIRTIO_MMIO_DEVICE_DESC_LOW = 0x0a0"
definition VIRTIO_MMIO_DEVICE_DESC_HIGH :: u64 where "VIRTIO_MMIO_DEVICE_DESC_HIGH = 0x0a4"

definition VIRTIO_CONFIG_S_ACKNOWLEDGE :: u32 where "VIRTIO_CONFIG_S_ACKNOWLEDGE = 1"
definition VIRTIO_CONFIG_S_DRIVER :: u32 where "VIRTIO_CONFIG_S_DRIVER = 2"
definition VIRTIO_CONFIG_S_DRIVER_OK :: u32 where "VIRTIO_CONFIG_S_DRIVER_OK = 4"
definition VIRTIO_CONFIG_S_FEATURES_OK :: u32 where "VIRTIO_CONFIG_S_FEATURES_OK = 8"

definition VIRTIO_BLK_F_RO :: nat where "VIRTIO_BLK_F_RO = 5"
definition VIRTIO_BLK_F_SCSI :: nat where "VIRTIO_BLK_F_SCSI = 7"
definition VIRTIO_BLK_F_CONFIG_WCE :: nat where "VIRTIO_BLK_F_CONFIG_WCE = 11"
definition VIRTIO_BLK_F_MQ :: nat where "VIRTIO_BLK_F_MQ = 12"
definition VIRTIO_F_ANY_LAYOUT :: nat where "VIRTIO_F_ANY_LAYOUT = 27"
definition VIRTIO_RING_F_INDIRECT_DESC :: nat where "VIRTIO_RING_F_INDIRECT_DESC = 28"
definition VIRTIO_RING_F_EVENT_IDX :: nat where "VIRTIO_RING_F_EVENT_IDX = 29"

definition NUM :: nat where "NUM = 8"

definition VRING_DESC_F_NEXT :: u16 where "VRING_DESC_F_NEXT = 1"
definition VRING_DESC_F_WRITE :: u16 where "VRING_DESC_F_WRITE = 2"
definition VIRTIO_BLK_T_IN :: u32 where "VIRTIO_BLK_T_IN = 0"
definition VIRTIO_BLK_T_OUT :: u32 where "VIRTIO_BLK_T_OUT = 1"

text \<open>Null, \<^verbatim>\<open>&disk.ops[i]\<close>, \<^verbatim>\<open>b->data\<close> and \<^verbatim>\<open>&disk.info[i].status\<close>.\<close>

datatype dma_addr = A_null | A_op nat | A_data nat | A_status nat

record virtq_desc =
  vd_addr :: dma_addr
  vd_len :: u32
  vd_flags :: u16
  vd_next :: u16

record virtio_blk_req =
  req_type :: u32
  req_reserved :: u32
  req_sector :: u64

subsection \<open>State\<close>

record vdisk = files +
  vdesc :: "nat \<Rightarrow> virtq_desc"
  avail_idx :: u16
  avail_ring :: "nat \<Rightarrow> u16"
  dev_used_idx :: u16
  used_ring :: "nat \<Rightarrow> u32"
  vfree :: "nat \<Rightarrow> bool"
  used_idx :: u16
  info_b :: "nat \<Rightarrow> nat option"
  info_status :: "nat \<Rightarrow> u8"
  ops :: "nat \<Rightarrow> virtio_blk_req"

definition upd_desc :: "nat \<Rightarrow> (virtq_desc \<Rightarrow> virtq_desc) \<Rightarrow> ('a vdisk_scheme, unit) kfun" where
  "upd_desc i f = modify (\<lambda>s. s\<lparr>vdesc := (vdesc s)(i := f (vdesc s i))\<rparr>)"

definition vread :: "u64 \<Rightarrow> ('a dev_scheme, u32) kfun" where
  "vread r = mmio_read (VIRTIO0 + r)"

definition vwrite :: "u64 \<Rightarrow> u32 \<Rightarrow> ('a dev_scheme, unit) kfun" where
  "vwrite r v = mmio_write (VIRTIO0 + r) v"

definition zero_desc :: virtq_desc where
  "zero_desc = \<lparr>vd_addr = A_null, vd_len = 0, vd_flags = 0, vd_next = 0\<rparr>"

subsection \<open>Initialisation\<close>

text \<open>The features the driver clears from what the device offers.\<close>

definition driver_features :: "u32 \<Rightarrow> u32" where
  "driver_features f = fold (\<lambda>n f. f AND NOT (push_bit n 1))
     [VIRTIO_BLK_F_RO, VIRTIO_BLK_F_SCSI, VIRTIO_BLK_F_CONFIG_WCE, VIRTIO_BLK_F_MQ,
      VIRTIO_F_ANY_LAYOUT, VIRTIO_RING_F_EVENT_IDX, VIRTIO_RING_F_INDIRECT_DESC] f"

definition virtio_handshake :: "('a dev_scheme, u32) kfun" where
  "virtio_handshake =
     bnd (vread VIRTIO_MMIO_MAGIC_VALUE) (\<lambda>magic.
     bnd (if magic \<noteq> 0x74726976 then ret True
          else bnd (vread VIRTIO_MMIO_VERSION) (\<lambda>v.
               if v \<noteq> 2 then ret True
               else bnd (vread VIRTIO_MMIO_DEVICE_ID) (\<lambda>d.
                    if d \<noteq> 2 then ret True
                    else bnd (vread VIRTIO_MMIO_VENDOR_ID) (\<lambda>w. ret (w \<noteq> 0x554d4551))))) (\<lambda>bad.
     if bad then panic ''could not find virtio disk''
     else
     bnd (vwrite VIRTIO_MMIO_STATUS 0) (\<lambda>_.
     bnd (vwrite VIRTIO_MMIO_STATUS VIRTIO_CONFIG_S_ACKNOWLEDGE) (\<lambda>_.
     let status = VIRTIO_CONFIG_S_ACKNOWLEDGE OR VIRTIO_CONFIG_S_DRIVER in
     bnd (vwrite VIRTIO_MMIO_STATUS status) (\<lambda>_.
     bnd (vread VIRTIO_MMIO_DEVICE_FEATURES) (\<lambda>f.
     bnd (vwrite VIRTIO_MMIO_DRIVER_FEATURES (driver_features f)) (\<lambda>_.
     bnd (vwrite VIRTIO_MMIO_STATUS (status OR VIRTIO_CONFIG_S_FEATURES_OK)) (\<lambda>_.
     bnd (vread VIRTIO_MMIO_STATUS) (\<lambda>status.
     if status AND VIRTIO_CONFIG_S_FEATURES_OK = 0 then panic ''virtio disk FEATURES_OK unset''
     else ret status)))))))))"

definition virtio_queue :: "('a vdisk_scheme, unit) kfun" where
  "virtio_queue =
     bnd kalloc (\<lambda>desc.
     bnd kalloc (\<lambda>avail.
     bnd kalloc (\<lambda>used.
     if desc = 0 \<or> avail = 0 \<or> used = 0 then panic ''virtio disk kalloc''
     else
     bnd (memset_k desc 0 (ucast PGSIZE)) (\<lambda>_.
     bnd (memset_k avail 0 (ucast PGSIZE)) (\<lambda>_.
     bnd (memset_k used 0 (ucast PGSIZE)) (\<lambda>_.
     bnd (modify (\<lambda>s. s\<lparr>vdesc := (\<lambda>_. zero_desc), avail_idx := 0, avail_ring := (\<lambda>_. 0),
                        dev_used_idx := 0, used_ring := (\<lambda>_. 0)\<rparr>)) (\<lambda>_.
     bnd (vwrite VIRTIO_MMIO_QUEUE_NUM (of_nat NUM)) (\<lambda>_.
     bnd (vwrite VIRTIO_MMIO_QUEUE_DESC_LOW (ucast desc)) (\<lambda>_.
     bnd (vwrite VIRTIO_MMIO_QUEUE_DESC_HIGH (ucast (drop_bit 32 desc))) (\<lambda>_.
     bnd (vwrite VIRTIO_MMIO_DRIVER_DESC_LOW (ucast avail)) (\<lambda>_.
     bnd (vwrite VIRTIO_MMIO_DRIVER_DESC_HIGH (ucast (drop_bit 32 avail))) (\<lambda>_.
     bnd (vwrite VIRTIO_MMIO_DEVICE_DESC_LOW (ucast used)) (\<lambda>_.
     vwrite VIRTIO_MMIO_DEVICE_DESC_HIGH (ucast (drop_bit 32 used)))))))))))))))"

definition virtio_disk_init :: "('a vdisk_scheme, unit) kfun" where
  "virtio_disk_init =
     bnd (initlock L_vdisk ''virtio_disk'') (\<lambda>_.
     bnd virtio_handshake (\<lambda>status.
     bnd (vwrite VIRTIO_MMIO_QUEUE_SEL 0) (\<lambda>_.
     bnd (vread VIRTIO_MMIO_QUEUE_READY) (\<lambda>ready.
     if ready \<noteq> 0 then panic ''virtio disk should not be ready''
     else bnd (vread VIRTIO_MMIO_QUEUE_NUM_MAX) (\<lambda>mx.
          if mx = 0 then panic ''virtio disk has no queue 0''
          else if mx < of_nat NUM then panic ''virtio disk max queue too short''
          else bnd virtio_queue (\<lambda>_.
               bnd (vwrite VIRTIO_MMIO_QUEUE_READY 1) (\<lambda>_.
               bnd (for_each [0..<NUM] (\<lambda>i. modify (\<lambda>s. s\<lparr>vfree := (vfree s)(i := True)\<rparr>))) (\<lambda>_.
               vwrite VIRTIO_MMIO_STATUS (status OR VIRTIO_CONFIG_S_DRIVER_OK)))))))))"

subsection \<open>Descriptors\<close>

definition alloc_desc :: "('a vdisk_scheme, nat option) kfun" where
  "alloc_desc =
     bnd (gets (\<lambda>s. List.find (vfree s) [0..<NUM])) (\<lambda>r.
     case r of
       Some i \<Rightarrow> bnd (modify (\<lambda>s. s\<lparr>vfree := (vfree s)(i := False)\<rparr>)) (\<lambda>_. ret (Some i))
     | None \<Rightarrow> ret None)"

definition free_desc :: "nat \<Rightarrow> ('a vdisk_scheme, unit) kfun" where
  "free_desc i =
     (if i \<ge> NUM then panic ''free_desc 1''
      else bnd (gets (\<lambda>s. vfree s i)) (\<lambda>fr.
           if fr then panic ''free_desc 2''
           else bnd (upd_desc i (\<lambda>_. zero_desc)) (\<lambda>_.
                bnd (modify (\<lambda>s. s\<lparr>vfree := (vfree s)(i := True)\<rparr>)) (\<lambda>_.
                wakeup (Some C_disk_free)))))"

text \<open>
  \<open>free_chain\<close> ends because \<open>free_desc\<close> panics on a descriptor that is already free, and what
  it calls leaves the marks alone.
\<close>

lemma keeps_vdisk_wakeup: "keeps (\<lambda>s. files.more s = r) (wakeup ch)"
  by (intro keeps_wakeup) simp_all

lemma vdisk_wakeup:
  assumes "wakeup ch s = Ok u t"
  shows "vfree t = vfree s" "used_idx t = used_idx s" "dev_used_idx t = dev_used_idx s"
  using keepsD_Ok [OF keeps_vdisk_wakeup refl assms] by (cases s; cases t; simp)+

lemma free_desc_vfree:
  assumes "free_desc i s = Ok u t"
  shows "i < NUM" and "\<not> vfree s i" and "vfree t = (vfree s)(i := True)"
  using assms by (auto simp: free_desc_def upd_desc_def exec dest!: vdisk_wakeup(1) split: if_splits)

definition busy_descs :: "'a vdisk_scheme \<Rightarrow> nat set" where
  "busy_descs s = {i. i < NUM \<and> \<not> vfree s i}"

lemma free_desc_busy: "free_desc i s = Ok u t \<Longrightarrow> card (busy_descs t) < card (busy_descs s)"
proof (rule psubset_card_mono)
  assume a: "free_desc i s = Ok u t"
  show "finite (busy_descs s)" by (simp add: busy_descs_def)
  show "busy_descs t \<subset> busy_descs s"
    using free_desc_vfree [OF a] by (auto simp: busy_descs_def)
qed

function free_chain :: "nat \<Rightarrow> ('a vdisk_scheme, unit) kfun" where
  "free_chain i s =
     bnd (gets (\<lambda>s. vdesc s i)) (\<lambda>d.
     bnd (free_desc i) (\<lambda>_.
     if vd_flags d AND VRING_DESC_F_NEXT \<noteq> 0 then free_chain (unat (vd_next d))
     else ret ())) s"
  by pat_completeness auto
termination
  by (relation "measure (\<lambda>(i, s). card (busy_descs s))") (auto intro: free_desc_busy)

declare free_chain.simps [simp del]

definition alloc3_desc :: "('a vdisk_scheme, (nat \<times> nat \<times> nat) option) kfun" where
  "alloc3_desc =
     bnd alloc_desc (\<lambda>r0.
     case r0 of
       None \<Rightarrow> ret None
     | Some i0 \<Rightarrow>
         bnd alloc_desc (\<lambda>r1.
         case r1 of
           None \<Rightarrow> bnd (free_desc i0) (\<lambda>_. ret None)
         | Some i1 \<Rightarrow>
             bnd alloc_desc (\<lambda>r2.
             case r2 of
               None \<Rightarrow> bnd (free_desc i0) (\<lambda>_. bnd (free_desc i1) (\<lambda>_. ret None))
             | Some i2 \<Rightarrow> ret (Some (i0, i1, i2)))))"

subsection \<open>Requests\<close>

text \<open>\<^verbatim>\<open>b->blockno * (BSIZE / 512)\<close> is computed in 32 bits.\<close>

definition sector_of :: "u32 \<Rightarrow> u64" where
  "sector_of blockno = ucast (blockno * of_nat (BSIZE div 512))"

definition virtio_format :: "nat \<Rightarrow> bool \<Rightarrow> u64 \<Rightarrow> nat \<times> nat \<times> nat \<Rightarrow> ('a vdisk_scheme, unit) kfun" where
  "virtio_format b write sector idx = (case idx of (i0, i1, i2) \<Rightarrow>
     bnd (modify (\<lambda>s. s\<lparr>ops := (ops s)(i0 := \<lparr>req_type = (if write then VIRTIO_BLK_T_OUT else VIRTIO_BLK_T_IN),
                                            req_reserved = 0, req_sector = sector\<rparr>)\<rparr>)) (\<lambda>_.
     bnd (upd_desc i0 (\<lambda>d. d\<lparr>vd_addr := A_op i0, vd_len := 16, vd_flags := VRING_DESC_F_NEXT,
                             vd_next := of_nat i1\<rparr>)) (\<lambda>_.
     bnd (upd_desc i1 (\<lambda>d. d\<lparr>vd_addr := A_data b, vd_len := of_nat BSIZE,
                             vd_flags := (if write then 0 else VRING_DESC_F_WRITE) OR VRING_DESC_F_NEXT,
                             vd_next := of_nat i2\<rparr>)) (\<lambda>_.
     bnd (modify (\<lambda>s. s\<lparr>info_status := (info_status s)(i0 := 0xff)\<rparr>)) (\<lambda>_.
     bnd (upd_desc i2 (\<lambda>d. d\<lparr>vd_addr := A_status i0, vd_len := 1, vd_flags := VRING_DESC_F_WRITE,
                             vd_next := 0\<rparr>)) (\<lambda>_.
     bnd (upd_buf b (\<lambda>r. r\<lparr>bdisk := True\<rparr>)) (\<lambda>_.
     bnd (modify (\<lambda>s. s\<lparr>info_b := (info_b s)(i0 := Some b)\<rparr>)) (\<lambda>_.
     bnd (modify (\<lambda>s. s\<lparr>avail_ring := (avail_ring s)(unat (avail_idx s) mod NUM := of_nat i0)\<rparr>)) (\<lambda>_.
     bnd (modify (\<lambda>s. s\<lparr>avail_idx := avail_idx s + 1\<rparr>)) (\<lambda>_.
     vwrite VIRTIO_MMIO_QUEUE_NOTIFY 0))))))))))"

text \<open>The end of \<open>virtio_disk_rw\<close>: waiting until the interrupt handler has cleared \<^verbatim>\<open>b->disk\<close>.\<close>

definition virtio_wait :: "nat \<Rightarrow> nat \<Rightarrow> ('a vdisk_scheme, unit) kfun" where
  "virtio_wait b i0 =
     bnd (gets (\<lambda>s. bdisk (bufs s b))) (\<lambda>busy.
     if busy then sleep (C_buf b) L_vdisk
     else bnd (modify (\<lambda>s. s\<lparr>info_b := (info_b s)(i0 := None)\<rparr>)) (\<lambda>_.
          bnd (free_chain i0) (\<lambda>_.
          release L_vdisk)))"

definition virtio_wait_resume :: "nat \<Rightarrow> bool \<Rightarrow> nat \<Rightarrow> nat \<Rightarrow> ('a vdisk_scheme, unit) kfun" where
  "virtio_wait_resume p ie b i0 = bnd (sleep_resume p L_vdisk ie) (\<lambda>_. virtio_wait b i0)"

definition virtio_request :: "nat \<Rightarrow> bool \<Rightarrow> u64 \<Rightarrow> ('a vdisk_scheme, unit) kfun" where
  "virtio_request b write sector =
     bnd alloc3_desc (\<lambda>r.
     case r of
       None \<Rightarrow> sleep C_disk_free L_vdisk
     | Some idx \<Rightarrow>
         bnd (virtio_format b write sector idx) (\<lambda>_.
         virtio_wait b (fst idx)))"

definition virtio_disk_rw :: "nat \<Rightarrow> bool \<Rightarrow> ('a vdisk_scheme, unit) kfun" where
  "virtio_disk_rw b write =
     bnd (gets (\<lambda>s. sector_of (bblockno (bufs s b)))) (\<lambda>sector.
     bnd (acquire L_vdisk) (\<lambda>_.
     virtio_request b write sector))"

definition virtio_request_resume :: "nat \<Rightarrow> bool \<Rightarrow> nat \<Rightarrow> bool \<Rightarrow> u64 \<Rightarrow> ('a vdisk_scheme, unit) kfun" where
  "virtio_request_resume p ie b write sector =
     bnd (sleep_resume p L_vdisk ie) (\<lambda>_. virtio_request b write sector)"

subsection \<open>Completion interrupts\<close>

function virtio_used_loop :: "('a vdisk_scheme, unit) kfun" where
  "virtio_used_loop s =
     bnd (gets (\<lambda>s. used_idx s = dev_used_idx s)) (\<lambda>done.
     if done then ret ()
     else bnd (gets (\<lambda>s. unat (used_ring s (unat (used_idx s) mod NUM)))) (\<lambda>id.
          bnd (gets (\<lambda>s. info_status s id \<noteq> 0)) (\<lambda>bad.
          if bad then panic ''virtio_disk_intr status''
          else bnd (gets (\<lambda>s. info_b s id)) (\<lambda>bo.
               if bo = None then panic ''kerneltrap''
               else bnd (upd_buf (the bo) (\<lambda>r. r\<lparr>bdisk := False\<rparr>)) (\<lambda>_.
                    bnd (wakeup (Some (C_buf (the bo)))) (\<lambda>_.
                    bnd (modify (\<lambda>s. s\<lparr>used_idx := used_idx s + 1\<rparr>)) (\<lambda>_.
                    virtio_used_loop))))))) s"
  by pat_completeness auto
termination
proof (relation "measure (\<lambda>s. unat (dev_used_idx s - used_idx s))", goal_cases)
  case (2 s d s1 id s2 bad s3 bo s4 u s5 v s6 w s7)
  then have "dev_used_idx s7 = dev_used_idx s" "used_idx s7 = used_idx s + 1" "used_idx s \<noteq> dev_used_idx s"
    using vdisk_wakeup(2,3) [of "Some (C_buf (the bo))" s5 v s6] by (auto simp: upd_buf_def)
  then show ?case using ring_step [of "dev_used_idx s" "used_idx s"] by simp
qed simp

declare virtio_used_loop.simps [simp del]

definition virtio_disk_intr :: "('a vdisk_scheme, unit) kfun" where
  "virtio_disk_intr =
     locking L_vdisk
       (bnd (vread VIRTIO_MMIO_INTERRUPT_STATUS) (\<lambda>st.
        bnd (vwrite VIRTIO_MMIO_INTERRUPT_ACK (st AND 0x3)) (\<lambda>_.
        virtio_used_loop)))"

definition boot_vdisk :: "'a \<Rightarrow> 'a vdisk_scheme" where
  "boot_vdisk m = boot_files \<lparr>vdesc = (\<lambda>_. \<lparr>vd_addr = A_null, vd_len = 0, vd_flags = 0, vd_next = 0\<rparr>), avail_idx = 0,
     avail_ring = (\<lambda>_. 0), dev_used_idx = 0, used_ring = (\<lambda>_. 0), vfree = (\<lambda>i. i < NUM), used_idx = 0,
     info_b = (\<lambda>_. None), info_status = (\<lambda>_. 0), ops = (\<lambda>_. \<lparr>req_type = 0, req_reserved = 0, req_sector = 0\<rparr>), \<dots> = m\<rparr>"

end
