(* ===== verification/Xv6_Trap.thy ===== *)
theory Xv6_Trap
  imports Xv6_Sysfile Xv6_Virtio
begin

text \<open>
  Entry into the kernel: the remaining system calls (\<^verbatim>\<open>kernel/sysproc.c\<close>), the dispatch
  (\<^verbatim>\<open>kernel/syscall.c\<close>), traps and interrupts (\<^verbatim>\<open>kernel/trap.c\<close>), \<open>forkret\<close> of \<^verbatim>\<open>kernel/proc.c\<close>
  and the boot sequence (\<^verbatim>\<open>kernel/main.c\<close>, \<^verbatim>\<open>kernel/start.c\<close>).
\<close>

subsection \<open>Process system calls\<close>

text \<open>
  What the code reads without having set it, and the size of \<^verbatim>\<open>struct proc\<close>: the local array of
  \<open>ps\<close>, the padding of \<^verbatim>\<open>struct stat\<close>, and the memory around \<open>available_schedulers\<close>.
\<close>

record kenv =
  sizeof_proc :: nat
  ps_stack :: "user_proc list"
  stat_pad :: "u8 list"
  sched_beyond :: "int \<Rightarrow> string \<times> sched_impl"

definition sys_exit :: "('a files_scheme, u64) kfun" where
  "sys_exit = bnd (argint 0) (\<lambda>n. bnd (exit (sint n)) (\<lambda>_. ret 0))"

definition sys_getpid :: "('a procs_scheme, u64) kfun" where
  "sys_getpid = bnd cur_proc (\<lambda>p. gets (\<lambda>s. word_of_int (pid (ptab s p))))"

definition sys_fork :: "('a files_scheme, u64) kfun" where
  "sys_fork = bnd fork (\<lambda>r. ret (word_of_int r))"

definition sys_wait :: "('a procs_scheme, u64) kfun" where
  "sys_wait = bnd (argaddr 0) (\<lambda>p. bnd (wait p) (\<lambda>r. ret (word_of_int r)))"

definition sys_sbrk :: "('a procs_scheme, u64) kfun" where
  "sys_sbrk =
     bnd (argint 0) (\<lambda>n.
     bnd cur_proc (\<lambda>p.
     bnd (gets (\<lambda>s. psz (ptab s p))) (\<lambda>addr.
     bnd (growproc n) (\<lambda>r.
     ret (if r < 0 then - 1 else addr)))))"

text \<open>\<^verbatim>\<open>ticks - ticks0 < n\<close> compares an unsigned with a signed number, as unsigned numbers.\<close>

definition sys_sleep_loop :: "u32 \<Rightarrow> u32 \<Rightarrow> ('a procs_scheme, u64) kfun" where
  "sys_sleep_loop n ticks0 =
     bnd (gets (\<lambda>s. ticks s - ticks0 < n)) (\<lambda>early.
     if early
     then bnd cur_proc (\<lambda>p.
          bnd (killed p) (\<lambda>k.
          if k \<noteq> 0 then bnd (release L_ticks) (\<lambda>_. ret (- 1))
          else bnd (sleep C_ticks L_ticks) (\<lambda>_. ret 0)))
     else bnd (release L_ticks) (\<lambda>_. ret 0))"

definition sys_sleep :: "('a procs_scheme, u64) kfun" where
  "sys_sleep =
     bnd (argint 0) (\<lambda>n.
     bnd (acquire L_ticks) (\<lambda>_.
     bnd (gets ticks) (\<lambda>ticks0.
     sys_sleep_loop n ticks0)))"

definition sys_sleep_resume :: "nat \<Rightarrow> bool \<Rightarrow> u32 \<Rightarrow> u32 \<Rightarrow> ('a procs_scheme, u64) kfun" where
  "sys_sleep_resume p ie n ticks0 = bnd (sleep_resume p L_ticks ie) (\<lambda>_. sys_sleep_loop n ticks0)"

definition sys_kill :: "('a procs_scheme, u64) kfun" where
  "sys_kill = bnd (argint 0) (\<lambda>n. bnd (kill (sint n)) (\<lambda>r. ret (word_of_int r)))"

definition sys_uptime :: "('a procs_scheme, u64) kfun" where
  "sys_uptime = bnd (locking L_ticks (gets ticks)) (\<lambda>t. ret (ucast t))"

definition sys_ps :: "kenv \<Rightarrow> ('a procs_scheme, u64) kfun" where
  "sys_ps env =
     bnd (argint 0) (\<lambda>start.
     bnd (argint 1) (\<lambda>count.
     ps (sizeof_proc env) (ps_stack env) (ucast start) (ucast count)))"

definition sys_schedls :: "('a procs_scheme, u64) kfun" where
  "sys_schedls = bnd schedls (\<lambda>_. ret 0)"

definition sys_schedset :: "kenv \<Rightarrow> ('a procs_scheme, u64) kfun" where
  "sys_schedset env =
     bnd (argint 0) (\<lambda>sid.
     bnd (schedset (sched_beyond env) (sint sid)) (\<lambda>_.
     ret 0))"

subsection \<open>Dispatch\<close>

definition as_u64 :: "('a files_scheme, int) kfun \<Rightarrow> ('a files_scheme, u64) kfun" where
  "as_u64 m = bnd m (\<lambda>r. ret (word_of_int r))"

text \<open>The table \<open>syscalls\<close>; its entry 0 is null.\<close>

definition syscalls :: "kenv \<Rightarrow> ('a files_scheme, u64) kfun option list" where
  "syscalls env =
     [None,
      Some sys_fork, Some sys_exit, Some sys_wait, Some (as_u64 sys_pipe),
      Some (as_u64 sys_read), Some sys_kill, Some (as_u64 sys_exec), Some (as_u64 (sys_fstat (stat_pad env))),
      Some (as_u64 sys_chdir), Some (as_u64 sys_dup), Some sys_getpid, Some sys_sbrk,
      Some sys_sleep, Some sys_uptime, Some (as_u64 sys_open), Some (as_u64 sys_write),
      Some (as_u64 sys_mknod), Some (as_u64 sys_unlink), Some (as_u64 sys_link), Some (as_u64 sys_mkdir),
      Some (as_u64 sys_close), Some (sys_ps env), Some sys_schedls, Some (sys_schedset env)]"

definition syscall_entry :: "kenv \<Rightarrow> u32 \<Rightarrow> ('a files_scheme, u64) kfun option" where
  "syscall_entry env num =
     (if 0 < sint num \<and> nat (sint num) < length (syscalls env :: ('a files_scheme, u64) kfun option list)
      then syscalls env ! nat (sint num) else None)"

definition set_a0 :: "nat \<Rightarrow> u64 \<Rightarrow> ('a procs_scheme, unit) kfun" where
  "set_a0 p v = bnd (gets (\<lambda>s. ptrapframe (ptab s p))) (\<lambda>a. upd_tf a (\<lambda>t. t\<lparr>tf_a0 := v\<rparr>))"

definition syscall :: "kenv \<Rightarrow> ('a files_scheme, unit) kfun" where
  "syscall env =
     bnd cur_proc (\<lambda>p.
     bnd (gets (\<lambda>s. ucast (tf_a7 (tfs s (ptrapframe (ptab s p)))))) (\<lambda>num.
     case syscall_entry env num of
       Some f \<Rightarrow> bnd f (\<lambda>v. set_a0 p v)
     | None \<Rightarrow>
         bnd (gets (\<lambda>s. ptab s p)) (\<lambda>pr.
         bnd (printf (''%d %s: unknown sys call %d'' @ nl)
               [A_int (word_of_int (pid pr)), A_str (Some (string_of_bytes (pname pr))), A_int num]) (\<lambda>_.
         set_a0 p (- 1)))))"

subsection \<open>Trap registers\<close>

record traps = vdisk +
  stvec :: "nat \<Rightarrow> u64"
  sepc :: "nat \<Rightarrow> u64"
  scause :: "nat \<Rightarrow> u64"
  stval :: "nat \<Rightarrow> u64"
  sip :: "nat \<Rightarrow> u64"
  forkret_first :: bool
  started :: bool

text \<open>Addresses assigned by the linker.\<close>

record ksyms =
  k_kernelvec :: u64
  k_uservec :: u64
  k_userret :: u64
  k_usertrap :: u64
  k_etext :: u64

definition r_scause :: "('a traps_scheme, u64) kfun" where
  "r_scause = gets (\<lambda>s. scause s (hart s))"

definition r_sepc :: "('a traps_scheme, u64) kfun" where
  "r_sepc = gets (\<lambda>s. sepc s (hart s))"

definition r_stval :: "('a traps_scheme, u64) kfun" where
  "r_stval = gets (\<lambda>s. stval s (hart s))"

definition w_stvec :: "u64 \<Rightarrow> ('a traps_scheme, unit) kfun" where
  "w_stvec x = modify (\<lambda>s. s\<lparr>stvec := (stvec s)(hart s := x)\<rparr>)"

definition w_sepc :: "u64 \<Rightarrow> ('a traps_scheme, unit) kfun" where
  "w_sepc x = modify (\<lambda>s. s\<lparr>sepc := (sepc s)(hart s := x)\<rparr>)"

subsection \<open>Interrupts\<close>

definition trapinit :: "('a machine_scheme, unit) kfun" where
  "trapinit = initlock L_ticks ''time''"

definition trapinithart :: "ksyms \<Rightarrow> ('a traps_scheme, unit) kfun" where
  "trapinithart k = w_stvec (k_kernelvec k)"

definition clockintr :: "('a procs_scheme, unit) kfun" where
  "clockintr =
     locking L_ticks
       (bnd (modify (\<lambda>s. s\<lparr>ticks := ticks s + 1\<rparr>)) (\<lambda>_.
        wakeup (Some C_ticks)))"

definition devintr_external :: "nat \<Rightarrow> ('a traps_scheme, unit) kfun" where
  "devintr_external fuel =
     bnd plic_claim (\<lambda>irq.
     bnd (if irq = UART0_IRQ then uartintr fuel
          else if irq = VIRTIO0_IRQ then virtio_disk_intr
          else do_if (irq \<noteq> 0) (printf (''unexpected interrupt irq=%d'' @ nl) [A_int irq])) (\<lambda>_.
     do_if (irq \<noteq> 0) (plic_complete irq)))"

definition devintr :: "nat \<Rightarrow> ('a traps_scheme, int) kfun" where
  "devintr fuel =
     bnd r_scause (\<lambda>cause.
     if cause AND 0x8000000000000000 \<noteq> 0 \<and> cause AND 0xff = 9
     then bnd (devintr_external fuel) (\<lambda>_. ret 1)
     else if cause = 0x8000000000000001
     then bnd cpuid (\<lambda>c.
          bnd (do_if (c = 0) clockintr) (\<lambda>_.
          bnd (modify (\<lambda>s. s\<lparr>sip := (sip s)(hart s := sip s (hart s) AND NOT 2)\<rparr>)) (\<lambda>_.
          ret 2)))
     else ret 0)"

subsection \<open>Traps\<close>

text \<open>The result is the address in the trampoline page to jump to and its argument.\<close>

definition usertrapret :: "ksyms \<Rightarrow> ('a traps_scheme, u64 \<times> u64) kfun" where
  "usertrapret k =
     bnd cur_proc (\<lambda>p.
     bnd intr_off (\<lambda>_.
     bnd (gets sym_trampoline) (\<lambda>tramp.
     bnd (w_stvec (TRAMPOLINE + (k_uservec k - tramp))) (\<lambda>_.
     bnd (gets (\<lambda>s. ptab s p)) (\<lambda>pr.
     bnd (gets (\<lambda>s. (satp s (hart s), of_nat (hart s)))) (\<lambda>(sa, h).
     bnd (upd_tf (ptrapframe pr) (\<lambda>t. t\<lparr>tf_kernel_satp := sa, tf_kernel_sp := kstack pr + PGSIZE,
                                        tf_kernel_trap := k_usertrap k, tf_kernel_hartid := h\<rparr>)) (\<lambda>_.
     bnd r_sstatus (\<lambda>x.
     bnd (w_sstatus ((x AND NOT SSTATUS_SPP) OR SSTATUS_SPIE)) (\<lambda>_.
     bnd (gets (\<lambda>s. tf_epc (tfs s (ptrapframe pr)))) (\<lambda>epc.
     bnd (w_sepc epc) (\<lambda>_.
     ret (TRAMPOLINE + (k_userret k - tramp), MAKE_SATP (pagetable pr)))))))))))))"

definition exit_if_killed :: "nat \<Rightarrow> ('a files_scheme, unit) kfun" where
  "exit_if_killed p = bnd (killed p) (\<lambda>k. do_if (k \<noteq> 0) (exit (- 1)))"

text \<open>The cause of a trap from user space: the result is \<^verbatim>\<open>which_dev\<close>.\<close>

definition usertrap_cause :: "kenv \<Rightarrow> nat \<Rightarrow> nat \<Rightarrow> ('a traps_scheme, int) kfun" where
  "usertrap_cause env fuel p =
     bnd r_scause (\<lambda>cause.
     if cause = 8
     then bnd (exit_if_killed p) (\<lambda>_.
          bnd (gets (\<lambda>s. ptrapframe (ptab s p))) (\<lambda>tf.
          bnd (upd_tf tf (\<lambda>t. t\<lparr>tf_epc := tf_epc t + 4\<rparr>)) (\<lambda>_.
          bnd intr_on (\<lambda>_.
          bnd (syscall env) (\<lambda>_.
          ret 0)))))
     else bnd (devintr fuel) (\<lambda>d.
          if d \<noteq> 0 then ret d
          else bnd (gets (\<lambda>s. pid (ptab s p))) (\<lambda>n.
               bnd (printf (''usertrap(): unexpected scause %p pid=%d'' @ nl) [A_ptr cause, A_int (word_of_int n)]) (\<lambda>_.
               bnd r_sepc (\<lambda>pc.
               bnd r_stval (\<lambda>v.
               bnd (printf (''            sepc=%p stval=%p'' @ nl) [A_ptr pc, A_ptr v]) (\<lambda>_.
               bnd (setkilled p) (\<lambda>_.
               ret 0))))))))"

definition usertrap :: "ksyms \<Rightarrow> kenv \<Rightarrow> nat \<Rightarrow> ('a traps_scheme, u64 \<times> u64) kfun" where
  "usertrap k env fuel =
     bnd r_sstatus (\<lambda>st.
     if st AND SSTATUS_SPP \<noteq> 0 then panic ''usertrap: not from user mode''
     else bnd (w_stvec (k_kernelvec k)) (\<lambda>_.
          bnd cur_proc (\<lambda>p.
          bnd r_sepc (\<lambda>pc.
          bnd (gets (\<lambda>s. ptrapframe (ptab s p))) (\<lambda>tf.
          bnd (upd_tf tf (\<lambda>t. t\<lparr>tf_epc := pc\<rparr>)) (\<lambda>_.
          bnd (usertrap_cause env fuel p) (\<lambda>d.
          bnd (exit_if_killed p) (\<lambda>_.
          bnd (do_if (d = 2) (yield YIELD_TIMER)) (\<lambda>_.
          usertrapret k)))))))))"

definition usertrap_resume :: "ksyms \<Rightarrow> nat \<Rightarrow> bool \<Rightarrow> ('a traps_scheme, u64 \<times> u64) kfun" where
  "usertrap_resume k p ie = bnd (yield_resume p ie) (\<lambda>_. usertrapret k)"

definition kerneltrap_restore :: "u64 \<Rightarrow> u64 \<Rightarrow> ('a traps_scheme, unit) kfun" where
  "kerneltrap_restore pc st = bnd (w_sepc pc) (\<lambda>_. w_sstatus st)"

definition kerneltrap :: "nat \<Rightarrow> ('a traps_scheme, unit) kfun" where
  "kerneltrap fuel =
     bnd r_sepc (\<lambda>pc.
     bnd r_sstatus (\<lambda>st.
     bnd r_scause (\<lambda>cause.
     if st AND SSTATUS_SPP = 0 then panic ''kerneltrap: not from supervisor mode''
     else bnd intr_get (\<lambda>on.
     if on then panic ''kerneltrap: interrupts enabled''
     else bnd (devintr fuel) (\<lambda>d.
     if d = 0
     then bnd (printf (''scause %p'' @ nl) [A_ptr cause]) (\<lambda>_.
          bnd r_sepc (\<lambda>pc.
          bnd r_stval (\<lambda>v.
          bnd (printf (''sepc=%p stval=%p'' @ nl) [A_ptr pc, A_ptr v]) (\<lambda>_.
          panic ''kerneltrap''))))
     else bnd (if d = 2 then myproc else ret None) (\<lambda>p.
          bnd (gets (\<lambda>s. case p of None \<Rightarrow> False | Some i \<Rightarrow> pstate (ptab s i) = RUNNING)) (\<lambda>running.
          bnd (do_if running (yield YIELD_OTHER)) (\<lambda>_.
          kerneltrap_restore pc st))))))))"

definition kerneltrap_resume :: "nat \<Rightarrow> bool \<Rightarrow> u64 \<Rightarrow> u64 \<Rightarrow> ('a traps_scheme, unit) kfun" where
  "kerneltrap_resume p ie pc st = bnd (yield_resume p ie) (\<lambda>_. kerneltrap_restore pc st)"

definition forkret :: "ksyms \<Rightarrow> ('a traps_scheme, u64 \<times> u64) kfun" where
  "forkret k =
     bnd cur_proc (\<lambda>p.
     bnd (release (L_proc p)) (\<lambda>_.
     bnd (gets forkret_first) (\<lambda>first.
     bnd (do_if first
           (bnd (modify (\<lambda>s. s\<lparr>forkret_first := False\<rparr>)) (\<lambda>_. fsinit ROOTDEV))) (\<lambda>_.
     usertrapret k))))"

subsection \<open>Boot\<close>

text \<open>
  \<open>main\<close> up to its call of \<open>scheduler\<close>.  A hart other than 0 that finds \<open>started\<close> unset spins,
  which is not progress of this hart: \<open>Diverges\<close> unless another hart sets it first.
\<close>

definition kmain :: "ksyms \<Rightarrow> ('a traps_scheme, unit) kfun" where
  "kmain k =
     bnd cpuid (\<lambda>c.
     if c = 0
     then bnd consoleinit (\<lambda>_.
          bnd printfinit (\<lambda>_.
          bnd (printf nl []) (\<lambda>_.
          bnd (printf (''xv6 kernel is booting'' @ nl) []) (\<lambda>_.
          bnd (printf nl []) (\<lambda>_.
          bnd kinit (\<lambda>_.
          bnd (gets sym_trampoline) (\<lambda>tramp.
          bnd (kvminit (k_etext k) tramp) (\<lambda>_.
          bnd kvminithart (\<lambda>_.
          bnd procinit (\<lambda>_.
          bnd trapinit (\<lambda>_.
          bnd (trapinithart k) (\<lambda>_.
          bnd plicinit (\<lambda>_.
          bnd plicinithart (\<lambda>_.
          bnd binit (\<lambda>_.
          bnd iinit (\<lambda>_.
          bnd fileinit (\<lambda>_.
          bnd virtio_disk_init (\<lambda>_.
          bnd userinit (\<lambda>_.
          modify (\<lambda>s. s\<lparr>started := True\<rparr>))))))))))))))))))))
     else bnd (gets started) (\<lambda>st.
          if \<not> st then (\<lambda>s. Diverges)
          else bnd (printf (''hart %d starting'' @ nl) [A_int (of_nat c)]) (\<lambda>_.
               bnd kvminithart (\<lambda>_.
               bnd (trapinithart k) (\<lambda>_.
               plicinithart)))))"

text \<open>Machine mode: the registers \<open>start\<close> and \<open>timerinit\<close> set before \<open>mret\<close> enters \<open>main\<close>.\<close>

record mregs =
  mstatus :: u64
  mepc :: u64
  m_satp :: u64
  medeleg :: u64
  mideleg :: u64
  m_sie :: u64
  pmpaddr0 :: u64
  pmpcfg0 :: u64
  mscratch :: u64
  mtvec :: u64
  mie :: u64
  m_tp :: u64
  mhartid :: u64
  mtime :: u64
  mtimecmp :: "u64 \<Rightarrow> u64"
  timer_scratch :: "u64 \<Rightarrow> nat \<Rightarrow> u64"

definition CLINT :: u64 where "CLINT = 0x2000000"
definition CLINT_MTIMECMP :: "u64 \<Rightarrow> u64" where "CLINT_MTIMECMP hid = CLINT + 0x4000 + 8 * hid"

definition MSTATUS_MPP_MASK :: u64 where "MSTATUS_MPP_MASK = push_bit 11 3"
definition MSTATUS_MPP_S :: u64 where "MSTATUS_MPP_S = push_bit 11 1"
definition MSTATUS_MIE :: u64 where "MSTATUS_MIE = push_bit 3 1"
definition SIE_SEIE :: u64 where "SIE_SEIE = push_bit 9 1"
definition SIE_STIE :: u64 where "SIE_STIE = push_bit 5 1"
definition SIE_SSIE :: u64 where "SIE_SSIE = push_bit 1 1"
definition MIE_MTIE :: u64 where "MIE_MTIE = push_bit 7 1"

text \<open>\<open>scratch_addr\<close> gives the address of a hart's row of \<^verbatim>\<open>timer_scratch\<close>.\<close>

definition timerinit :: "u64 \<Rightarrow> (u64 \<Rightarrow> u64) \<Rightarrow> mregs \<Rightarrow> mregs" where
  "timerinit timervec scratch_addr r =
     (let hid = mhartid r; interval = 1000000;
          row = (timer_scratch r hid)(3 := CLINT_MTIMECMP hid, 4 := interval)
      in r\<lparr>mtimecmp := (mtimecmp r)(CLINT_MTIMECMP hid := mtime r + interval),
           timer_scratch := (timer_scratch r)(hid := row),
           mscratch := scratch_addr hid, mtvec := timervec,
           mstatus := mstatus r OR MSTATUS_MIE, mie := mie r OR MIE_MTIE\<rparr>)"

definition start :: "u64 \<Rightarrow> u64 \<Rightarrow> (u64 \<Rightarrow> u64) \<Rightarrow> mregs \<Rightarrow> mregs" where
  "start main_addr timervec scratch_addr r =
     (let r = r\<lparr>mstatus := (mstatus r AND NOT MSTATUS_MPP_MASK) OR MSTATUS_MPP_S,
                mepc := main_addr, m_satp := 0, medeleg := 0xffff, mideleg := 0xffff,
                m_sie := m_sie r OR SIE_SEIE OR SIE_STIE OR SIE_SSIE,
                pmpaddr0 := 0x3fffffffffffff, pmpcfg0 := 0xf\<rparr>;
          r = timerinit timervec scratch_addr r
      in r\<lparr>m_tp := mhartid r\<rparr>)"

definition boot_traps :: traps where
  "boot_traps = boot_vdisk \<lparr>stvec = (\<lambda>_. 0), sepc = (\<lambda>_. 0), scause = (\<lambda>_. 0), stval = (\<lambda>_. 0), sip = (\<lambda>_. 0),
     forkret_first = False, started = False\<rparr>"

lemmas boot_defs = boot_traps_def boot_vdisk_def boot_files_def boot_fsys_def boot_logs_def boot_bcache_def
  boot_sleeplocks_def boot_consol_def boot_procs_def

end
