(* ===== verification/Xv6_Invariant.thy ===== *)
theory Xv6_Invariant
  imports Xv6_Trap
begin

text \<open>
  An invariant of the process table that the whole kernel keeps.

  \<open>pview\<close> is the part of the state that the invariant is about: the process id, the priority and
  the promotion timer of every process, and the next process id.  Almost all kernel code leaves
  it alone, which the rules collected in \<open>pkeeps\<close> state function by function, in the order in
  which the code is layered; the exceptions (\<open>sched\<close>, \<open>yield\<close>, \<open>allocproc\<close>, \<open>freeproc\<close>) are
  treated by hand.  \<open>kernel_step\<close> then runs the kernel: every entry point and every continuation
  of a process that waited.
\<close>

subsection \<open>What the scheduler and the process ids depend on\<close>

definition pview :: "'a procs_scheme \<Rightarrow> (nat \<Rightarrow> int \<times> u32 \<times> int) \<times> int" where
  "pview s = ((\<lambda>i. (pid (ptab s i), priority (ptab s i), promotion_timer (ptab s i))), nextpid s)"

named_theorems pkeeps \<open>code that keeps every property of process ids and priorities\<close>

lemma pkeeps_upd_proc [pkeeps]:
  assumes "\<And>p. pid (f p) = pid p \<and> priority (f p) = priority p \<and> promotion_timer (f p) = promotion_timer p"
  shows "keeps (\<lambda>s. J (pview s)) (upd_proc i f)"
  unfolding upd_proc_def
proof (rule keeps_modify)
  fix s :: "'a procs_scheme" assume "J (pview s)"
  moreover have "pview (s\<lparr>ptab := (ptab s)(i := f (ptab s i))\<rparr>) = pview s"
    by (auto simp: pview_def fun_eq_iff assms)
  ultimately show "J (pview (s\<lparr>ptab := (ptab s)(i := f (ptab s i))\<rparr>))" by simp
qed

lemma pkeeps_modify [pkeeps]:
  "(\<And>s. ptab (f s) = ptab s \<and> nextpid (f s) = nextpid s) \<Longrightarrow> keeps (\<lambda>s. J (pview s)) (modify f)"
  by (rule keeps_modify) (simp add: pview_def)


lemma pkeeps_locks [pkeeps]:
  "keeps (\<lambda>s. J (pview s)) (acquire l)" "keeps (\<lambda>s. J (pview s)) (release l)"
  "keeps (\<lambda>s. J (pview s)) push_off" "keeps (\<lambda>s. J (pview s)) pop_off"
  "keeps (\<lambda>s. J (pview s)) myproc" "keeps (\<lambda>s. J (pview s)) intr_on" "keeps (\<lambda>s. J (pview s)) (holding l)"
  "keeps (\<lambda>s. J (pview s)) mycpu" "keeps (\<lambda>s. J (pview s)) (upd_cpu c g)"
  by (rule keeps_machine; simp add: pview_def)+

lemma pkeeps_locking [pkeeps]: "keeps (\<lambda>s. J (pview s)) m \<Longrightarrow> keeps (\<lambda>s. J (pview s)) (locking l m)"
  by (intro keeps_locking pkeeps)

lemma pkeeps_regs [pkeeps]:
  "keeps (\<lambda>s. J (pview s)) cpuid" "keeps (\<lambda>s. J (pview s)) (initlock l nm)"
  "keeps (\<lambda>s. J (pview s)) intr_off" "keeps (\<lambda>s. J (pview s)) intr_get"
  "keeps (\<lambda>s. J (pview s)) r_sstatus" "keeps (\<lambda>s. J (pview s)) (w_sstatus x)"
  unfolding cpuid_def initlock_def upd_lock_def intr_off_def intr_get_def r_sstatus_def w_sstatus_def
  by (intro pkeeps keeps_intros; simp)+

subsubsection \<open>Device registers\<close>

lemma pkeeps_mmio_read [pkeeps]: "keeps (\<lambda>s. J (pview s)) (mmio_read a)"
  unfolding mmio_read_def by (intro pkeeps keeps_intros; simp)

lemma pkeeps_mmio_write [pkeeps]: "keeps (\<lambda>s. J (pview s)) (mmio_write a v)"
  unfolding mmio_write_def by (intro pkeeps keeps_intros; simp)

lemma pkeeps_ReadReg [pkeeps]: "keeps (\<lambda>s. J (pview s)) (ReadReg reg)"
  unfolding ReadReg_def by (intro pkeeps keeps_intros; simp)

lemma pkeeps_WriteReg [pkeeps]: "keeps (\<lambda>s. J (pview s)) (WriteReg reg v)"
  unfolding WriteReg_def by (intro pkeeps keeps_intros; simp)

lemma pkeeps_uartinit [pkeeps]: "keeps (\<lambda>s. J (pview s)) uartinit"
  unfolding uartinit_def by (intro pkeeps keeps_intros; simp)

lemma pkeeps_uartputc_sync [pkeeps]: "keeps (\<lambda>s. J (pview s)) (uartputc_sync c)"
  unfolding uartputc_sync_def
  by (intro pkeeps keeps_intros; (simp add: keeps_def pview_def split: option.splits)?)

lemma pkeeps_uartgetc [pkeeps]: "keeps (\<lambda>s. J (pview s)) uartgetc"
  unfolding uartgetc_def by (intro pkeeps keeps_intros; simp)

lemma pkeeps_consputc [pkeeps]: "keeps (\<lambda>s. J (pview s)) (consputc c)"
  unfolding consputc_def by (intro pkeeps keeps_intros; simp)

lemma pkeeps_plicinit [pkeeps]: "keeps (\<lambda>s. J (pview s)) plicinit"
  unfolding plicinit_def by (intro pkeeps keeps_intros; simp)

lemma pkeeps_plicinithart [pkeeps]: "keeps (\<lambda>s. J (pview s)) plicinithart"
  unfolding plicinithart_def by (intro pkeeps keeps_intros; simp)

lemma pkeeps_plic_claim [pkeeps]: "keeps (\<lambda>s. J (pview s)) plic_claim"
  unfolding plic_claim_def by (intro pkeeps keeps_intros; simp)

lemma pkeeps_plic_complete [pkeeps]: "keeps (\<lambda>s. J (pview s)) (plic_complete irq)"
  unfolding plic_complete_def by (intro pkeeps keeps_intros; simp)

subsubsection \<open>Formatted output\<close>

lemma pkeeps_printf [pkeeps]: "keeps (\<lambda>s. J (pview s)) (printf fmt args)"
  unfolding printf_def by (intro pkeeps keeps_intros; simp)

lemma pkeeps_printfinit [pkeeps]: "keeps (\<lambda>s. J (pview s)) printfinit"
  unfolding printfinit_def by (intro pkeeps keeps_intros; simp)

subsubsection \<open>Pages\<close>

lemma pkeeps_memset_k [pkeeps]: "keeps (\<lambda>s. J (pview s)) (memset_k dst c n)"
  unfolding memset_k_def by (intro pkeeps keeps_intros; simp)

lemma pkeeps_kfree [pkeeps]: "keeps (\<lambda>s. J (pview s)) (kfree pa)"
  unfolding kfree_def by (intro pkeeps keeps_intros; simp)

lemma pkeeps_kalloc [pkeeps]: "keeps (\<lambda>s. J (pview s)) kalloc"
  unfolding kalloc_def by (intro pkeeps keeps_intros; simp)

lemma pkeeps_freerange_loop [pkeeps]: "keeps (\<lambda>s. J (pview s)) (freerange_loop p pa_end)"
proof (rule keeps_if_holds)
  show "holds (\<lambda>s. J (pview s)) (freerange_loop p pa_end s)" if "J (pview s)" for s :: "'a procs_scheme"
    using that
    by (induction p pa_end s rule: freerange_loop.induct)
      (subst freerange_loop.simps, auto intro!: holds_bnd pkeeps keeps_intros simp: Let_def)
qed

lemma pkeeps_freerange [pkeeps]: "keeps (\<lambda>s. J (pview s)) (freerange pa_start pa_end)"
  unfolding freerange_def by (intro pkeeps keeps_intros; simp)

lemma pkeeps_kinit [pkeeps]: "keeps (\<lambda>s. J (pview s)) kinit"
  unfolding kinit_def by (intro pkeeps keeps_intros; simp)

subsubsection \<open>Page tables\<close>

lemma pkeeps_store_k [pkeeps]: "keeps (\<lambda>s. J (pview s)) (store_k a v)"
  unfolding store_k_def by (intro pkeeps keeps_intros; simp)

lemma pkeeps_load_k [pkeeps]: "keeps (\<lambda>s. J (pview s)) (load_k a)"
  unfolding load_k_def by (intro pkeeps keeps_intros; simp)

lemma pkeeps_walk_levels [pkeeps]: "keeps (\<lambda>s. J (pview s)) (walk_levels x0 x1 x2 x3)"
  by (induction x0 x1 x2 x3 rule: walk_levels.induct) (simp only: walk_levels.simps, intro pkeeps keeps_intros; simp)+

lemma pkeeps_walk [pkeeps]: "keeps (\<lambda>s. J (pview s)) (walk pt va alloc)"
  unfolding walk_def by (intro pkeeps keeps_intros; simp)

lemma pkeeps_walkaddr [pkeeps]: "keeps (\<lambda>s. J (pview s)) (walkaddr pt va)"
  unfolding walkaddr_def by (intro pkeeps keeps_intros; simp)

lemma pkeeps_mappages_loop [pkeeps]: "keeps (\<lambda>s. J (pview s)) (mappages_loop pt a lst pa perm)"
proof (rule keeps_if_holds)
  show "holds (\<lambda>s. J (pview s)) (mappages_loop pt a lst pa perm s)" if "J (pview s)" for s :: "'a procs_scheme"
    using that
    by (induction pt a lst pa perm s rule: mappages_loop.induct)
      (subst mappages_loop.simps, auto intro!: holds_bnd pkeeps keeps_intros simp: Let_def)
qed

lemma pkeeps_mappages [pkeeps]: "keeps (\<lambda>s. J (pview s)) (mappages pt va sz pa perm)"
  unfolding mappages_def by (intro pkeeps keeps_intros; simp)

lemma pkeeps_kvmmap [pkeeps]: "keeps (\<lambda>s. J (pview s)) (kvmmap kpgtbl va pa sz perm)"
  unfolding kvmmap_def by (intro pkeeps keeps_intros; simp)

lemma pkeeps_proc_mapstacks [pkeeps]: "keeps (\<lambda>s. J (pview s)) (proc_mapstacks kpgtbl)"
  unfolding proc_mapstacks_def by (intro pkeeps keeps_intros; simp)

lemma pkeeps_kvmmake [pkeeps]: "keeps (\<lambda>s. J (pview s)) (kvmmake etext trampoline)"
  unfolding kvmmake_def by (intro pkeeps keeps_intros; simp)

lemma pkeeps_kvminit [pkeeps]: "keeps (\<lambda>s. J (pview s)) (kvminit etext trampoline)"
  unfolding kvminit_def by (intro pkeeps keeps_intros; simp)

lemma pkeeps_kvminithart [pkeeps]: "keeps (\<lambda>s. J (pview s)) kvminithart"
  unfolding kvminithart_def by (intro pkeeps keeps_intros; simp)

lemma pkeeps_uvmunmap_loop [pkeeps]: "keeps (\<lambda>s. J (pview s)) (uvmunmap_loop pt a end_va do_free)"
proof (rule keeps_if_holds)
  show "holds (\<lambda>s. J (pview s)) (uvmunmap_loop pt a end_va do_free s)" if "J (pview s)" for s :: "'a procs_scheme"
    using that
    by (induction pt a end_va do_free s rule: uvmunmap_loop.induct)
      (subst uvmunmap_loop.simps, auto intro!: holds_bnd pkeeps keeps_intros simp: Let_def)
qed

lemma pkeeps_uvmunmap [pkeeps]: "keeps (\<lambda>s. J (pview s)) (uvmunmap pt va npages do_free)"
  unfolding uvmunmap_def by (intro pkeeps keeps_intros; simp)

lemma pkeeps_uvmcreate [pkeeps]: "keeps (\<lambda>s. J (pview s)) uvmcreate"
  unfolding uvmcreate_def by (intro pkeeps keeps_intros; simp)

lemma pkeeps_write_k [pkeeps]: "keeps (\<lambda>s. J (pview s)) (write_k a bs)"
  unfolding write_k_def by (intro pkeeps keeps_intros; simp)

lemma pkeeps_uvmfirst [pkeeps]: "keeps (\<lambda>s. J (pview s)) (uvmfirst pt src)"
  unfolding uvmfirst_def by (intro pkeeps keeps_intros; simp)

lemma pkeeps_uvmdealloc [pkeeps]: "keeps (\<lambda>s. J (pview s)) (uvmdealloc pt oldsz newsz)"
  unfolding uvmdealloc_def by (intro pkeeps keeps_intros; simp)

lemma pkeeps_uvmalloc_loop [pkeeps]: "keeps (\<lambda>s. J (pview s)) (uvmalloc_loop pt a oldsz newsz xperm)"
proof (rule keeps_if_holds)
  show "holds (\<lambda>s. J (pview s)) (uvmalloc_loop pt a oldsz newsz xperm s)" if "J (pview s)" for s :: "'a procs_scheme"
    using that
    by (induction pt a oldsz newsz xperm s rule: uvmalloc_loop.induct)
      (subst uvmalloc_loop.simps, auto intro!: holds_bnd pkeeps keeps_intros simp: Let_def)
qed

lemma pkeeps_uvmalloc [pkeeps]: "keeps (\<lambda>s. J (pview s)) (uvmalloc pt oldsz newsz xperm)"
  unfolding uvmalloc_def by (intro pkeeps keeps_intros; simp)

lemma pkeeps_freewalk [pkeeps]: "keeps (\<lambda>s. J (pview s)) (freewalk x0 x1)"
  by (induction x0 x1 rule: freewalk.induct) (simp only: freewalk.simps, intro pkeeps keeps_intros; simp)+

lemma pkeeps_uvmfree [pkeeps]: "keeps (\<lambda>s. J (pview s)) (uvmfree pt sz)"
  unfolding uvmfree_def by (intro pkeeps keeps_intros; simp)

lemma pkeeps_memmove_k [pkeeps]: "keeps (\<lambda>s. J (pview s)) (memmove_k dst src n)"
  unfolding memmove_k_def by (intro pkeeps keeps_intros; simp)

lemma pkeeps_uvmcopy_err [pkeeps]: "keeps (\<lambda>s. J (pview s)) (uvmcopy_err new i)"
  unfolding uvmcopy_err_def by (intro pkeeps keeps_intros; simp)

lemma pkeeps_uvmcopy_loop [pkeeps]: "keeps (\<lambda>s. J (pview s)) (uvmcopy_loop old new i sz)"
proof (rule keeps_if_holds)
  show "holds (\<lambda>s. J (pview s)) (uvmcopy_loop old new i sz s)" if "J (pview s)" for s :: "'a procs_scheme"
    using that
    by (induction old new i sz s rule: uvmcopy_loop.induct)
      (subst uvmcopy_loop.simps, auto intro!: holds_bnd pkeeps keeps_intros holds_keeps [OF pkeeps_uvmcopy_err] simp: Let_def)
qed

lemma pkeeps_uvmcopy [pkeeps]: "keeps (\<lambda>s. J (pview s)) (uvmcopy old new sz)"
  unfolding uvmcopy_def by (intro pkeeps keeps_intros; simp)

lemma pkeeps_uvmclear [pkeeps]: "keeps (\<lambda>s. J (pview s)) (uvmclear pt va)"
  unfolding uvmclear_def by (intro pkeeps keeps_intros; simp)

lemma pkeeps_copyout [pkeeps]: "keeps (\<lambda>s. J (pview s)) (copyout pt dstva src)"
proof (rule keeps_if_holds)
  show "holds (\<lambda>s. J (pview s)) (copyout pt dstva src s)" if "J (pview s)" for s :: "'a procs_scheme"
    using that
    by (induction pt dstva src s rule: copyout.induct)
      (subst copyout.simps, auto intro!: holds_bnd pkeeps keeps_intros simp: Let_def)
qed

lemma pkeeps_copyin_loop [pkeeps]: "keeps (\<lambda>s. J (pview s)) (copyin_loop pt srcva len acc)"
proof (rule keeps_if_holds)
  show "holds (\<lambda>s. J (pview s)) (copyin_loop pt srcva len acc s)" if "J (pview s)" for s :: "'a procs_scheme"
    using that
    by (induction pt srcva len acc s rule: copyin_loop.induct)
      (subst copyin_loop.simps, auto intro!: holds_bnd pkeeps keeps_intros simp: Let_def)
qed

lemma pkeeps_copyin [pkeeps]: "keeps (\<lambda>s. J (pview s)) (copyin pt srcva len)"
  unfolding copyin_def by (intro pkeeps keeps_intros; simp)

lemma pkeeps_copyinstr_loop [pkeeps]: "keeps (\<lambda>s. J (pview s)) (copyinstr_loop pt srcva mx acc)"
proof (rule keeps_if_holds)
  show "holds (\<lambda>s. J (pview s)) (copyinstr_loop pt srcva mx acc s)" if "J (pview s)" for s :: "'a procs_scheme"
    using that
    by (induction pt srcva mx acc s rule: copyinstr_loop.induct)
      (subst copyinstr_loop.simps, auto intro!: holds_bnd pkeeps keeps_intros simp: Let_def)
qed

lemma pkeeps_copyinstr [pkeeps]: "keeps (\<lambda>s. J (pview s)) (copyinstr pt srcva mx)"
  unfolding copyinstr_def by (intro pkeeps keeps_intros; simp)

subsection \<open>The invariant\<close>

text \<open>
  Priorities stay within the two levels, a demoted process has a running promotion timer,
  and process ids are below the next id and not shared by two processes.
\<close>

definition proc_ok :: "(nat \<Rightarrow> int \<times> u32 \<times> int) \<times> int \<Rightarrow> bool" where
  "proc_ok v \<longleftrightarrow> (case v of (t, next_id) \<Rightarrow>
     0 < next_id \<and>
     (\<forall>i. case t i of (n, prio, timer) \<Rightarrow>
        prio \<le> MAX_PRIO \<and> (0 < prio \<longrightarrow> 0 < timer \<and> timer \<le> PROM_TIME) \<and> 0 \<le> n \<and> n < next_id) \<and>
     (\<forall>i j. i \<noteq> j \<longrightarrow> fst (t i) = fst (t j) \<longrightarrow> fst (t i) = 0))"

abbreviation proc_inv :: "'a procs_scheme \<Rightarrow> bool" where
  "proc_inv s \<equiv> proc_ok (pview s)"

lemma proc_inv_iff:
  "proc_inv s \<longleftrightarrow> 0 < nextpid s \<and>
     (\<forall>i. priority (ptab s i) \<le> MAX_PRIO \<and>
          (0 < priority (ptab s i) \<longrightarrow> 0 < promotion_timer (ptab s i) \<and> promotion_timer (ptab s i) \<le> PROM_TIME) \<and>
          0 \<le> pid (ptab s i) \<and> pid (ptab s i) < nextpid s) \<and>
     (\<forall>i j. i \<noteq> j \<longrightarrow> pid (ptab s i) = pid (ptab s j) \<longrightarrow> pid (ptab s i) = 0)"
  by (simp add: proc_ok_def pview_def)

lemma pkeeps_upd_priority [pkeeps]:
  assumes "\<And>p. pid (f p) = pid p \<or> pid (f p) = 0"
    and "\<And>p. priority p \<le> MAX_PRIO \<Longrightarrow> (0 < priority p \<Longrightarrow> 0 < promotion_timer p \<and> promotion_timer p \<le> PROM_TIME) \<Longrightarrow>
           priority (f p) \<le> MAX_PRIO \<and> (0 < priority (f p) \<longrightarrow> 0 < promotion_timer (f p) \<and> promotion_timer (f p) \<le> PROM_TIME)"
  shows "keeps proc_inv (upd_proc i f)"
proof -
  have "proc_inv (s\<lparr>ptab := (ptab s)(i := f (ptab s i))\<rparr>)" if inv: "proc_inv s" for s :: "'a procs_scheme"
  proof -
    have "0 \<le> pid (ptab s i) \<and> pid (ptab s i) < nextpid s" and "0 < nextpid s"
      using inv by (simp_all add: proc_inv_iff)
    with assms(1) [of "ptab s i"] have "0 \<le> pid (f (ptab s i)) \<and> pid (f (ptab s i)) < nextpid s" by auto
    moreover have "pid (f (ptab s i)) = 0" if "pid (f (ptab s i)) = pid (ptab s j)" "j \<noteq> i" for j
      using assms(1) [of "ptab s i"] that inv by (auto simp: proc_inv_iff)
    ultimately show ?thesis
      using inv assms(2) [of "ptab s i"] unfolding proc_inv_iff by simp metis
  qed
  then show ?thesis unfolding upd_proc_def by (intro keeps_modify)
qed

lemma sched_promote_pid: "pid (sched_promote p) = pid p"
  by (simp add: sched_promote_def Let_def)

lemma pkeeps_sched_promote [pkeeps]: "keeps proc_inv (upd_proc i sched_promote)"
  by (rule pkeeps_upd_priority) (auto simp: sched_promote_def Let_def)

lemma pkeeps_yield_proc [pkeeps]: "keeps proc_inv (upd_proc i (yield_proc r))"
  by (rule pkeeps_upd_priority) (auto simp: yield_proc_def Let_def MAX_PRIO_def PROM_TIME_def not_less)

lemma pkeeps_cur_proc [pkeeps]: "keeps (\<lambda>s. J (pview s)) cur_proc"
  unfolding cur_proc_def by (intro pkeeps keeps_intros; simp)

lemma pkeeps_sched [pkeeps]: "keeps proc_inv sched"
  unfolding sched_def by (intro pkeeps keeps_intros; simp)

subsection \<open>Allocating and freeing ids\<close>

lemma pview_Ok: "(\<And>v. keeps (\<lambda>s. pview s = v) m) \<Longrightarrow> m s = Ok x t \<Longrightarrow> pview t = pview s"
  using keepsD_Ok [of "\<lambda>t. pview t = pview s" m s x t] by simp

lemma pview_Waits: "(\<And>v. keeps (\<lambda>s. pview s = v) m) \<Longrightarrow> m s = Waits w t \<Longrightarrow> pview t = pview s"
  using keepsD_Waits [of "\<lambda>t. pview t = pview s" m s w t] by simp

lemmas pview_lock =
  pview_Ok [OF pkeeps_locks(1)] pview_Ok [OF pkeeps_locks(2)]
  pview_Waits [OF pkeeps_locks(1)] pview_Waits [OF pkeeps_locks(2)]

lemma allocpid_pview:
  "allocpid s = Ok n t \<Longrightarrow> n = nextpid s \<and> pview t = (fst (pview s), nextpid s + 1)"
  "allocpid s = Waits w t \<Longrightarrow> pview t = pview s \<or> pview t = (fst (pview s), nextpid s + 1)"
proof -
  have upd: "pview (u\<lparr>nextpid := nextpid u + 1\<rparr>) = (fst (pview s), nextpid s + 1) \<and> nextpid u = nextpid s"
    if "pview u = pview s" for u :: "'a procs_scheme"
    using that by (simp add: pview_def)
  show "allocpid s = Ok n t \<Longrightarrow> n = nextpid s \<and> pview t = (fst (pview s), nextpid s + 1)"
    by (auto simp: allocpid_def locking_def bnd_eq_Ok_iff dest!: pview_lock(1,2) upd)
  show "allocpid s = Waits w t \<Longrightarrow> pview t = pview s \<or> pview t = (fst (pview s), nextpid s + 1)"
    by (auto simp: allocpid_def locking_def bnd_apply split: outcome.splits dest!: pview_lock dest: upd)
qed

lemma pkeeps_allocpid:
  fixes k :: "int \<Rightarrow> ('a procs_scheme, 'b) kfun"
  assumes "\<And>n. keeps proc_inv (k n)"
    and "\<And>n p. pid (f n p) = n \<and> priority (f n p) = 0"
  shows "keeps proc_inv (bnd allocpid (\<lambda>n. bnd (upd_proc i (f n)) (\<lambda>_. k n)))"
proof (rule keeps_if_holds)
  fix s :: "'a procs_scheme" assume inv: "proc_inv s"
  have more: "proc_ok (fst (pview s), nextpid s + 1)"
    using inv by (auto simp: proc_ok_def pview_def less_imp_le intro: less_trans)
  show "holds proc_inv (bnd allocpid (\<lambda>n. bnd (upd_proc i (f n)) (\<lambda>_. k n)) s)"
  proof (cases "allocpid s")
    case (Ok n t)
    then have n: "n = nextpid s" and t: "pview t = (fst (pview s), nextpid s + 1)"
      using allocpid_pview(1) by blast+
    define t' where "t' = t\<lparr>ptab := (ptab t)(i := f n (ptab t i))\<rparr>"
    have same: "\<And>j. pid (ptab t j) = pid (ptab s j)" "\<And>j. priority (ptab t j) = priority (ptab s j)"
        "\<And>j. promotion_timer (ptab t j) = promotion_timer (ptab s j)" "nextpid t = nextpid s + 1"
      using t by (auto simp: pview_def fun_eq_iff)
    have "n \<noteq> pid (ptab s j)" "pid (ptab s j) \<noteq> n" "pid (ptab s j) < n + 1" for j
      using inv by (auto simp: proc_inv_iff n dest: spec [of _ j])
    then have "proc_inv t'"
      using inv assms(2) [of n "ptab t i"] by (simp add: t'_def proc_inv_iff same n)
    then have "holds proc_inv (k n t')" by (rule holds_keeps [OF assms(1)])
    then show ?thesis using Ok by (simp add: exec upd_proc_def t'_def)
  next
    case (Waits w t)
    then show ?thesis using allocpid_pview(2) [OF Waits] inv more by (auto simp: exec)
  qed (simp_all add: exec)
qed

lemma pkeeps_freepagetable [pkeeps]:
  "keeps (\<lambda>s. J (pview s)) (proc_pagetable i)" "keeps (\<lambda>s. J (pview s)) (proc_freepagetable pt sz)"
  unfolding proc_pagetable_def proc_freepagetable_def by (intro pkeeps keeps_intros; simp)+

lemma pkeeps_freeproc [pkeeps]: "keeps proc_inv (freeproc i)"
  unfolding freeproc_def
  by (intro keeps_intros pkeeps_upd_priority pkeeps_kfree pkeeps_freepagetable; simp)

lemma pkeeps_allocproc [pkeeps]: "keeps proc_inv allocproc"
proof -
  have found: "keeps proc_inv (allocproc_found i)" for i :: nat
    unfolding allocproc_found_def
    by (intro pkeeps_allocpid; (intro pkeeps keeps_intros)?; simp)
  show ?thesis unfolding allocproc_def by (intro found pkeeps keeps_intros)
qed

subsection \<open>The process layer keeps the invariant\<close>

lemma proc_effects [simp]:
  "pid (wakeup_proc ch p) = pid p" "priority (wakeup_proc ch p) = priority p"
  "promotion_timer (wakeup_proc ch p) = promotion_timer p"
  "pid (kill_proc p) = pid p" "priority (kill_proc p) = priority p"
  "promotion_timer (kill_proc p) = promotion_timer p"
  by (simp_all add: wakeup_proc_def kill_proc_def)

lemma pview_upd [simp]:
  "pview (s\<lparr>uart_tx_r := u\<rparr>) = pview s" "pview (s'\<lparr>cons_e := e\<rparr>) = pview s'"
  "pview (s''\<lparr>used_idx := i\<rparr>) = pview s''"
  by (simp_all add: pview_def)

lemma keeps_cases [pkeeps]:
  "keeps I m1 \<Longrightarrow> keeps I m2 \<Longrightarrow> keeps I m3 \<Longrightarrow> keeps I (case sp of RR \<Rightarrow> m1 | MLFQ \<Rightarrow> m2 | Wild \<Rightarrow> m3)"
  "(\<And>i. keeps I (f1 i)) \<Longrightarrow> (\<And>i. keeps I (f2 i)) \<Longrightarrow> (\<And>i. keeps I (f3 i)) \<Longrightarrow>
     keeps I (case pc of At_rr i \<Rightarrow> f1 i | At_high i \<Rightarrow> f2 i | At_low i \<Rightarrow> f3 i)"
  "(\<And>a. keeps I (g1 a)) \<Longrightarrow> (\<And>a. keeps I (g2 a)) \<Longrightarrow> keeps I m3 \<Longrightarrow>
     keeps I (case d of User a \<Rightarrow> g1 a | Kern a \<Rightarrow> g2 a | Local \<Rightarrow> m3)"
  "(\<And>a. keeps I (g1 a)) \<Longrightarrow> (\<And>a. keeps I (g2 a)) \<Longrightarrow> (\<And>bs. keeps I (g3 bs)) \<Longrightarrow>
     keeps I (case r of SUser a \<Rightarrow> g1 a | SKern a \<Rightarrow> g2 a | SLocal bs \<Rightarrow> g3 bs)"
     apply (cases sp; simp)
    apply (cases pc; simp)
   apply (cases d; simp)
  apply (cases r; simp)
  done

lemma pkeeps_sched_resume [pkeeps]: "keeps (\<lambda>s. J (pview s)) (sched_resume ie)"
  unfolding sched_resume_def by (intro pkeeps keeps_intros)

lemma pkeeps_set_cproc [pkeeps]: "keeps (\<lambda>s. J (pview s)) (set_cproc p)"
  unfolding set_cproc_def by (intro pkeeps keeps_intros)

lemma pkeeps_mlfq_resume [pkeeps]: "keeps proc_inv m \<Longrightarrow> keeps proc_inv (mlfq_resume i m)"
  unfolding mlfq_resume_def by (intro pkeeps keeps_intros)

lemma pkeeps_yield [pkeeps]: "keeps proc_inv (yield r)"
  unfolding yield_def by (intro keeps_bnd pkeeps_yield_proc pkeeps)

subsubsection \<open>Processes\<close>

lemma pkeeps_procinit [pkeeps]: "keeps proc_inv procinit"
  unfolding procinit_def by (intro pkeeps keeps_intros; simp)

lemma pkeeps_growproc [pkeeps]: "keeps proc_inv (growproc x0)"
  unfolding growproc_def by (intro pkeeps keeps_intros; simp)

lemma pkeeps_ps_entry [pkeeps]: "keeps proc_inv (ps_entry x0 x1)"
  unfolding ps_entry_def by (intro pkeeps keeps_intros; simp)

lemma pkeeps_ps_loop [pkeeps]: "keeps proc_inv (ps_loop x0 x1 x2 x3)"
  by (induction x0 x1 x2 x3 rule: ps_loop.induct) (simp only: ps_loop.simps, intro pkeeps keeps_intros; simp)+

lemma pkeeps_ps [pkeeps]: "keeps proc_inv (ps x0 x1 x2 x3)"
  unfolding ps_def by (intro pkeeps keeps_intros; simp)

lemma pkeeps_yield_resume [pkeeps]: "keeps proc_inv (yield_resume x0 x1)"
  unfolding yield_resume_def by (intro pkeeps keeps_intros; simp)

lemma pkeeps_sleep [pkeeps]: "keeps proc_inv (sleep x0 x1)"
  unfolding sleep_def by (intro pkeeps keeps_intros; simp)

lemma pkeeps_sleep_resume [pkeeps]: "keeps proc_inv (sleep_resume x0 x1 x2)"
  unfolding sleep_resume_def by (intro pkeeps keeps_intros; simp)

lemma pkeeps_wakeup [pkeeps]: "keeps proc_inv (wakeup x0)"
  unfolding wakeup_def by (intro pkeeps keeps_intros; simp)

lemma pkeeps_kill [pkeeps]: "keeps proc_inv (kill x0)"
  unfolding kill_def by (intro pkeeps keeps_intros; simp)

lemma pkeeps_setkilled [pkeeps]: "keeps proc_inv (setkilled x0)"
  unfolding setkilled_def by (intro pkeeps keeps_intros; simp)

lemma pkeeps_killed [pkeeps]: "keeps proc_inv (killed x0)"
  unfolding killed_def by (intro pkeeps keeps_intros; simp)

lemma pkeeps_reparent [pkeeps]: "keeps proc_inv (reparent x0)"
  unfolding reparent_def by (intro pkeeps keeps_intros; simp)

lemma pkeeps_wait_scan [pkeeps]: "keeps proc_inv (wait_scan x0 x1 x2 x3)"
  by (induction x0 x1 x2 x3 rule: wait_scan.induct) (simp only: wait_scan.simps, intro pkeeps keeps_intros; simp)+

lemma pkeeps_wait_loop [pkeeps]: "keeps proc_inv (wait_loop x0 x1)"
  unfolding wait_loop_def by (intro pkeeps keeps_intros; simp)

lemma pkeeps_wait [pkeeps]: "keeps proc_inv (wait x0)"
  unfolding wait_def by (intro pkeeps keeps_intros; simp)

lemma pkeeps_wait_resume [pkeeps]: "keeps proc_inv (wait_resume x0 x1 x2)"
  unfolding wait_resume_def by (intro pkeeps keeps_intros; simp)

lemma pkeeps_dispatch [pkeeps]: "keeps proc_inv (dispatch x0 x1)"
  unfolding dispatch_def by (intro pkeeps keeps_intros; simp)

lemma pkeeps_rr_scan [pkeeps]: "keeps proc_inv (rr_scan x0)"
  by (induction x0 rule: rr_scan.induct) (simp only: rr_scan.simps, intro pkeeps keeps_intros; simp)+

lemma pkeeps_rr_scheduler [pkeeps]: "keeps proc_inv rr_scheduler"
  unfolding rr_scheduler_def by (intro pkeeps keeps_intros; simp)

lemma pkeeps_rr_resume [pkeeps]: "keeps proc_inv (rr_resume x0)"
  unfolding rr_resume_def by (intro pkeeps keeps_intros; simp)

lemma pkeeps_mlfq_low [pkeeps]: "keeps proc_inv (mlfq_low x0)"
  by (induction x0 rule: mlfq_low.induct) (simp only: mlfq_low.simps, intro pkeeps keeps_intros; simp)+

lemma mlfq_high_fun:
  "mlfq_high [] avail = (if avail then mlfq_high [0..<NPROC] False else mlfq_low [0..<NPROC])"
  "mlfq_high (i # is) avail =
     bnd (acquire (L_proc i)) (\<lambda>_.
     bnd (gets (\<lambda>s. ptab s i)) (\<lambda>p.
     if priority p > 0 then bnd (release (L_proc i)) (\<lambda>_. mlfq_high is avail)
     else if pstate p = RUNNABLE then dispatch i (At_high i)
     else bnd (release (L_proc i)) (\<lambda>_. mlfq_high is avail)))"
  by (simp_all add: fun_eq_iff mlfq_high.simps)

lemma pkeeps_mlfq_high [pkeeps]: "keeps proc_inv (mlfq_high xs avail)"
proof -
  have low: "keeps proc_inv (mlfq_high xs False)" for xs
    by (induction xs) (simp_all only: mlfq_high_fun if_False, (intro pkeeps keeps_intros; assumption)+)
  show ?thesis
    by (induction xs) (simp_all only: mlfq_high_fun, (intro pkeeps keeps_intros low; assumption)+)
qed

lemma pkeeps_mlfq_scheduler [pkeeps]: "keeps proc_inv mlfq_scheduler"
  unfolding mlfq_scheduler_def by (intro pkeeps keeps_intros; simp)

lemma pkeeps_scheduler_call [pkeeps]: "keeps proc_inv scheduler_call"
  unfolding scheduler_call_def by (intro pkeeps keeps_intros; simp)

lemma pkeeps_scheduler_resume [pkeeps]: "keeps proc_inv (scheduler_resume x0)"
  unfolding scheduler_resume_def by (intro pkeeps keeps_intros; simp)

lemma pkeeps_schedls [pkeeps]: "keeps proc_inv schedls"
  unfolding schedls_def by (intro pkeeps keeps_intros; simp)

lemma pkeeps_schedset [pkeeps]: "keeps proc_inv (schedset x0 x1)"
  unfolding schedset_def by (intro pkeeps keeps_intros; simp)

lemma pkeeps_either_copyout [pkeeps]: "keeps proc_inv (either_copyout x0 x1)"
  unfolding either_copyout_def by (intro pkeeps keeps_intros; simp)

lemma pkeeps_either_copyin [pkeeps]: "keeps proc_inv (either_copyin x0 x1)"
  unfolding either_copyin_def by (intro pkeeps keeps_intros; simp)

lemma pkeeps_procdump [pkeeps]: "keeps proc_inv procdump"
  unfolding procdump_def by (intro pkeeps keeps_intros; simp)

subsubsection \<open>The console\<close>

lemma pkeeps_uartstart [pkeeps]: "keeps proc_inv uartstart"
proof (rule keeps_if_holds)
  show "holds proc_inv (uartstart s)" if "proc_inv s" for s :: "'a consol_scheme"
    using that
    by (induction s rule: uartstart.induct)
      (subst uartstart.simps, auto intro!: holds_bnd pkeeps keeps_intros simp: Let_def)
qed

lemma pkeeps_uartputc_loop [pkeeps]: "keeps proc_inv (uartputc_loop x0)"
  unfolding uartputc_loop_def by (intro pkeeps keeps_intros; simp)

lemma pkeeps_uartputc [pkeeps]: "keeps proc_inv (uartputc x0)"
  unfolding uartputc_def by (intro pkeeps keeps_intros; simp)

lemma pkeeps_uartputc_resume [pkeeps]: "keeps proc_inv (uartputc_resume x0 x1 x2)"
  unfolding uartputc_resume_def by (intro pkeeps keeps_intros; simp)

lemma pkeeps_consolewrite_loop [pkeeps]: "keeps proc_inv (consolewrite_loop x0 x1 x2)"
  by (induction x0 x1 x2 rule: consolewrite_loop.induct) (simp only: consolewrite_loop.simps, intro pkeeps keeps_intros; simp)+

lemma pkeeps_consolewrite [pkeeps]: "keeps proc_inv (consolewrite x0 x1)"
  unfolding consolewrite_def by (intro pkeeps keeps_intros; simp)

lemma pkeeps_consolewrite_resume [pkeeps]: "keeps proc_inv (consolewrite_resume x0 x1 x2 x3 x4 x5)"
  unfolding consolewrite_resume_def by (intro pkeeps keeps_intros; simp)

lemma pkeeps_consoleread_done [pkeeps]: "keeps proc_inv (consoleread_done x0 x1)"
  unfolding consoleread_done_def by (intro pkeeps keeps_intros; simp)

lemma pkeeps_consoleread_loop [pkeeps]: "keeps proc_inv (consoleread_loop x0 x1 x2)"
  by (induction x0 x1 x2 rule: consoleread_loop.induct) (simp only: consoleread_loop.simps, intro pkeeps keeps_intros; simp)+

lemma pkeeps_consoleread [pkeeps]: "keeps proc_inv (consoleread x0 x1)"
  unfolding consoleread_def by (intro pkeeps keeps_intros; simp)

lemma pkeeps_consoleread_resume [pkeeps]: "keeps proc_inv (consoleread_resume x0 x1 x2 x3 x4)"
  unfolding consoleread_resume_def by (intro pkeeps keeps_intros; simp)

lemma pkeeps_kill_line [pkeeps]: "keeps proc_inv kill_line"
proof (rule keeps_if_holds)
  show "holds proc_inv (kill_line s)" if "proc_inv s" for s :: "'a consol_scheme"
    using that
    by (induction s rule: kill_line.induct)
      (subst kill_line.simps, auto intro!: holds_bnd pkeeps keeps_intros simp: Let_def)
qed

lemma pkeeps_consoleintr_kill [pkeeps]: "keeps proc_inv consoleintr_kill"
  unfolding consoleintr_kill_def by (intro pkeeps keeps_intros; simp)

lemma pkeeps_consoleintr_store [pkeeps]: "keeps proc_inv (consoleintr_store x0)"
  unfolding consoleintr_store_def by (intro pkeeps keeps_intros; simp)

lemma pkeeps_consoleintr [pkeeps]: "keeps proc_inv (consoleintr x0)"
  unfolding consoleintr_def by (intro pkeeps keeps_intros; simp)

lemma pkeeps_uartintr_input [pkeeps]: "keeps proc_inv (uartintr_input x0)"
  by (induction x0 rule: uartintr_input.induct) (simp only: uartintr_input.simps, intro pkeeps keeps_intros; simp)+

lemma pkeeps_uartintr [pkeeps]: "keeps proc_inv (uartintr x0)"
  unfolding uartintr_def by (intro pkeeps keeps_intros; simp)

lemma pkeeps_consoleinit [pkeeps]: "keeps proc_inv consoleinit"
  unfolding consoleinit_def by (intro pkeeps keeps_intros; simp)

subsubsection \<open>Sleep locks\<close>

lemma pkeeps_upd_slock [pkeeps]: "keeps proc_inv (upd_slock x0 x1)"
  unfolding upd_slock_def by (intro pkeeps keeps_intros; simp)

lemma pkeeps_initsleeplock [pkeeps]: "keeps proc_inv (initsleeplock x0 x1)"
  unfolding initsleeplock_def by (intro pkeeps keeps_intros; simp)

lemma pkeeps_acquiresleep_loop [pkeeps]: "keeps proc_inv (acquiresleep_loop x0)"
  unfolding acquiresleep_loop_def by (intro pkeeps keeps_intros; simp)

lemma pkeeps_acquiresleep [pkeeps]: "keeps proc_inv (acquiresleep x0)"
  unfolding acquiresleep_def by (intro pkeeps keeps_intros; simp)

lemma pkeeps_acquiresleep_resume [pkeeps]: "keeps proc_inv (acquiresleep_resume x0 x1 x2)"
  unfolding acquiresleep_resume_def by (intro pkeeps keeps_intros; simp)

lemma pkeeps_releasesleep [pkeeps]: "keeps proc_inv (releasesleep x0)"
  unfolding releasesleep_def by (intro pkeeps keeps_intros; simp)

lemma pkeeps_holdingsleep [pkeeps]: "keeps proc_inv (holdingsleep x0)"
  unfolding holdingsleep_def by (intro pkeeps keeps_intros; simp)

subsubsection \<open>The buffer cache\<close>

lemma pkeeps_upd_buf [pkeeps]: "keeps proc_inv (upd_buf x0 x1)"
  unfolding upd_buf_def by (intro pkeeps keeps_intros; simp)

lemma pkeeps_disk_rw [pkeeps]: "keeps proc_inv (disk_rw x0 x1)"
  unfolding disk_rw_def by (intro pkeeps keeps_intros; simp)

lemma pkeeps_binit [pkeeps]: "keeps proc_inv binit"
  unfolding binit_def by (intro pkeeps keeps_intros; simp)

lemma pkeeps_bget [pkeeps]: "keeps proc_inv (bget x0 x1)"
  unfolding bget_def by (intro pkeeps keeps_intros; simp)

lemma pkeeps_bread [pkeeps]: "keeps proc_inv (bread x0 x1)"
  unfolding bread_def by (intro pkeeps keeps_intros; simp)

lemma pkeeps_bwrite [pkeeps]: "keeps proc_inv (bwrite x0)"
  unfolding bwrite_def by (intro pkeeps keeps_intros; simp)

lemma pkeeps_to_front [pkeeps]: "keeps proc_inv (to_front x0)"
  unfolding to_front_def by (intro pkeeps keeps_intros; simp)

lemma pkeeps_brelse [pkeeps]: "keeps proc_inv (brelse x0)"
  unfolding brelse_def by (intro pkeeps keeps_intros; simp)

lemma pkeeps_bpin [pkeeps]: "keeps proc_inv (bpin x0)"
  unfolding bpin_def by (intro pkeeps keeps_intros; simp)

lemma pkeeps_bunpin [pkeeps]: "keeps proc_inv (bunpin x0)"
  unfolding bunpin_def by (intro pkeeps keeps_intros; simp)

subsubsection \<open>The log\<close>

lemma pkeeps_copy_block [pkeeps]: "keeps proc_inv (copy_block x0 x1)"
  unfolding copy_block_def by (intro pkeeps keeps_intros; simp)

lemma pkeeps_install_trans [pkeeps]: "keeps proc_inv (install_trans x0)"
  unfolding install_trans_def by (intro pkeeps keeps_intros; simp)

lemma pkeeps_read_head [pkeeps]: "keeps proc_inv read_head"
  unfolding read_head_def by (intro pkeeps keeps_intros; simp)

lemma pkeeps_write_head [pkeeps]: "keeps proc_inv write_head"
  unfolding write_head_def by (intro pkeeps keeps_intros; simp)

lemma pkeeps_recover_from_log [pkeeps]: "keeps proc_inv recover_from_log"
  unfolding recover_from_log_def by (intro pkeeps keeps_intros; simp)

lemma pkeeps_initlog [pkeeps]: "keeps proc_inv (initlog x0 x1)"
  unfolding initlog_def by (intro pkeeps keeps_intros; simp)

lemma pkeeps_begin_op_loop [pkeeps]: "keeps proc_inv begin_op_loop"
  unfolding begin_op_loop_def by (intro pkeeps keeps_intros; simp)

lemma pkeeps_begin_op [pkeeps]: "keeps proc_inv begin_op"
  unfolding begin_op_def by (intro pkeeps keeps_intros; simp)

lemma pkeeps_begin_op_resume [pkeeps]: "keeps proc_inv (begin_op_resume x0 x1)"
  unfolding begin_op_resume_def by (intro pkeeps keeps_intros; simp)

lemma pkeeps_write_log [pkeeps]: "keeps proc_inv write_log"
  unfolding write_log_def by (intro pkeeps keeps_intros; simp)

lemma pkeeps_commit [pkeeps]: "keeps proc_inv commit"
  unfolding commit_def by (intro pkeeps keeps_intros; simp)

lemma pkeeps_end_op [pkeeps]: "keeps proc_inv end_op"
  unfolding end_op_def by (intro pkeeps keeps_intros; simp)

lemma pkeeps_log_write [pkeeps]: "keeps proc_inv (log_write x0)"
  unfolding log_write_def by (intro pkeeps keeps_intros; simp)

subsubsection \<open>Inodes and directories\<close>

lemma pkeeps_upd_inode [pkeeps]: "keeps proc_inv (upd_inode x0 x1)"
  unfolding upd_inode_def by (intro pkeeps keeps_intros; simp)

lemma pkeeps_upd_data [pkeeps]: "keeps proc_inv (upd_data x0 x1)"
  unfolding upd_data_def by (intro pkeeps keeps_intros; simp)

lemma pkeeps_readsb [pkeeps]: "keeps proc_inv (readsb x0)"
  unfolding readsb_def by (intro pkeeps keeps_intros; simp)

lemma pkeeps_fsinit [pkeeps]: "keeps proc_inv (fsinit x0)"
  unfolding fsinit_def by (intro pkeeps keeps_intros; simp)

lemma pkeeps_bzero [pkeeps]: "keeps proc_inv (bzero x0 x1)"
  unfolding bzero_def by (intro pkeeps keeps_intros; simp)

lemma pkeeps_balloc [pkeeps]: "keeps proc_inv (balloc x0)"
  unfolding balloc_def by (intro pkeeps keeps_intros; simp)

lemma pkeeps_bfree [pkeeps]: "keeps proc_inv (bfree x0 x1)"
  unfolding bfree_def by (intro pkeeps keeps_intros; simp)

lemma pkeeps_iinit [pkeeps]: "keeps proc_inv iinit"
  unfolding iinit_def by (intro pkeeps keeps_intros; simp)

lemma pkeeps_iget [pkeeps]: "keeps proc_inv (iget x0 x1)"
  unfolding iget_def by (intro pkeeps keeps_intros; simp)

lemma pkeeps_ialloc [pkeeps]: "keeps proc_inv (ialloc x0 x1)"
  unfolding ialloc_def by (intro pkeeps keeps_intros; simp)

lemma pkeeps_iupdate [pkeeps]: "keeps proc_inv (iupdate x0)"
  unfolding iupdate_def by (intro pkeeps keeps_intros; simp)

lemma pkeeps_idup [pkeeps]: "keeps proc_inv (idup x0)"
  unfolding idup_def by (intro pkeeps keeps_intros; simp)

lemma pkeeps_ilock_load [pkeeps]: "keeps proc_inv (ilock_load x0)"
  unfolding ilock_load_def by (intro pkeeps keeps_intros; simp)

lemma pkeeps_ilock [pkeeps]: "keeps proc_inv (ilock x0)"
  unfolding ilock_def by (intro pkeeps keeps_intros; simp)

lemma pkeeps_iunlock [pkeeps]: "keeps proc_inv (iunlock x0)"
  unfolding iunlock_def by (intro pkeeps keeps_intros; simp)

lemma pkeeps_bmap_direct [pkeeps]: "keeps proc_inv (bmap_direct x0 x1)"
  unfolding bmap_direct_def by (intro pkeeps keeps_intros; simp)

lemma pkeeps_bmap [pkeeps]: "keeps proc_inv (bmap x0 x1)"
  unfolding bmap_def by (intro pkeeps keeps_intros; simp)

lemma pkeeps_itrunc [pkeeps]: "keeps proc_inv (itrunc x0)"
  unfolding itrunc_def by (intro pkeeps keeps_intros; simp)

lemma pkeeps_iput [pkeeps]: "keeps proc_inv (iput x0)"
  unfolding iput_def by (intro pkeeps keeps_intros; simp)

lemma pkeeps_iunlockput [pkeeps]: "keeps proc_inv (iunlockput x0)"
  unfolding iunlockput_def by (intro pkeeps keeps_intros; simp)

lemma pkeeps_stati [pkeeps]: "keeps proc_inv (stati x0)"
  unfolding stati_def by (intro pkeeps keeps_intros; simp)

lemma pkeeps_readi_loop [pkeeps]: "keeps proc_inv (readi_loop x0 x1 x2 x3 x4 x5)"
proof (rule keeps_if_holds)
  show "holds proc_inv (readi_loop x0 x1 x2 x3 x4 x5 s)" if "proc_inv s" for s :: "'a fsys_scheme"
    using that
    by (induction x0 x1 x2 x3 x4 x5 s rule: readi_loop.induct)
      (subst readi_loop.simps, auto intro!: holds_bnd pkeeps keeps_intros simp: Let_def)
qed

lemma pkeeps_readi [pkeeps]: "keeps proc_inv (readi x0 x1 x2 x3)"
  unfolding readi_def by (intro pkeeps keeps_intros; simp)

lemma pkeeps_writei_loop [pkeeps]: "keeps proc_inv (writei_loop x0 x1 x2 x3 x4)"
proof (rule keeps_if_holds)
  show "holds proc_inv (writei_loop x0 x1 x2 x3 x4 s)" if "proc_inv s" for s :: "'a fsys_scheme"
    using that
    by (induction x0 x1 x2 x3 x4 s rule: writei_loop.induct)
      (subst writei_loop.simps, auto intro!: holds_bnd pkeeps keeps_intros simp: Let_def)
qed

lemma pkeeps_writei [pkeeps]: "keeps proc_inv (writei x0 x1 x2 x3)"
  unfolding writei_def by (intro pkeeps keeps_intros; simp)

lemma pkeeps_read_dirent [pkeeps]: "keeps proc_inv (read_dirent x0 x1 x2)"
  unfolding read_dirent_def by (intro pkeeps keeps_intros; simp)

lemma pkeeps_dirlookup [pkeeps]: "keeps proc_inv (dirlookup x0 x1)"
  unfolding dirlookup_def by (intro pkeeps keeps_intros; simp)

lemma pkeeps_dirlink [pkeeps]: "keeps proc_inv (dirlink x0 x1 x2)"
  unfolding dirlink_def by (intro pkeeps keeps_intros; simp)

lemma namex_loop_fun:
  "namex_loop path name par ip =
     (case skipelem path of
        None \<Rightarrow> if par then bnd (iput ip) (\<lambda>_. ret (None, name)) else ret (Some ip, name)
      | Some (rest, name) \<Rightarrow>
          bnd (ilock (Some ip)) (\<lambda>_.
          bnd (gets (\<lambda>s. itype (inodes s ip))) (\<lambda>ty.
          if ty \<noteq> T_DIR then bnd (iunlockput ip) (\<lambda>_. ret (None, name))
          else if par \<and> rest = [] then bnd (iunlock (Some ip)) (\<lambda>_. ret (Some ip, name))
          else bnd (dirlookup ip name) (\<lambda>nxt.
               if nxt = None then bnd (iunlockput ip) (\<lambda>_. ret (None, name))
               else bnd (iunlockput ip) (\<lambda>_. namex_loop rest name par (fst (the nxt)))))))"
  by (rule ext, subst namex_loop.simps) (simp split: option.split prod.split)

lemma pkeeps_namex_loop [pkeeps]: "keeps proc_inv (namex_loop path name par ip)"
proof (induction "length path" arbitrary: path name ip rule: less_induct)
  case less
  show ?case
    by (subst namex_loop_fun)
      (intro keeps_case_option_eq pkeeps keeps_intros less; simp add: skipelem_shorter)
qed

lemma pkeeps_namex [pkeeps]: "keeps proc_inv (namex x0 x1)"
  unfolding namex_def by (intro pkeeps keeps_intros; simp)

lemma pkeeps_namei [pkeeps]: "keeps proc_inv (namei x0)"
  unfolding namei_def by (intro pkeeps keeps_intros; simp)

lemma pkeeps_nameiparent [pkeeps]: "keeps proc_inv (nameiparent x0)"
  unfolding nameiparent_def by (intro pkeeps keeps_intros; simp)

subsubsection \<open>Files and pipes\<close>

lemma pkeeps_upd_file [pkeeps]: "keeps proc_inv (upd_file x0 x1)"
  unfolding upd_file_def by (intro pkeeps keeps_intros; simp)

lemma pkeeps_upd_pipe [pkeeps]: "keeps proc_inv (upd_pipe x0 x1)"
  unfolding upd_pipe_def by (intro pkeeps keeps_intros; simp)

lemma pkeeps_fileinit [pkeeps]: "keeps proc_inv fileinit"
  unfolding fileinit_def by (intro pkeeps keeps_intros; simp)

lemma pkeeps_filealloc [pkeeps]: "keeps proc_inv filealloc"
  unfolding filealloc_def by (intro pkeeps keeps_intros; simp)

lemma pkeeps_filedup [pkeeps]: "keeps proc_inv (filedup x0)"
  unfolding filedup_def by (intro pkeeps keeps_intros; simp)

lemma pkeeps_pipeclose [pkeeps]: "keeps proc_inv (pipeclose x0 x1)"
  unfolding pipeclose_def by (intro pkeeps keeps_intros; simp)

lemma pkeeps_fileclose_drop [pkeeps]: "keeps proc_inv (fileclose_drop x0)"
  unfolding fileclose_drop_def by (intro pkeeps keeps_intros; simp)

lemma pkeeps_iput_ptr [pkeeps]: "keeps proc_inv (iput_ptr x0)"
  unfolding iput_ptr_def by (intro pkeeps keeps_intros; simp)

lemma pkeeps_fileclose [pkeeps]: "keeps proc_inv (fileclose x0)"
  unfolding fileclose_def by (intro pkeeps keeps_intros; simp)

lemma pkeeps_pipealloc_bad [pkeeps]: "keeps proc_inv (pipealloc_bad x0 x1)"
  unfolding pipealloc_bad_def by (intro pkeeps keeps_intros; simp)

lemma pkeeps_pipealloc [pkeeps]: "keeps proc_inv pipealloc"
  unfolding pipealloc_def by (intro pkeeps keeps_intros; simp)

lemma pkeeps_pipewrite_done [pkeeps]: "keeps proc_inv (pipewrite_done x0 x1)"
  unfolding pipewrite_done_def by (intro pkeeps keeps_intros; simp)

lemma pkeeps_pipewrite_loop [pkeeps]: "keeps proc_inv (pipewrite_loop x0 x1 x2 x3 x4)"
  by (induction x0 x1 x2 x3 x4 rule: pipewrite_loop.induct) (simp only: pipewrite_loop.simps, intro pkeeps keeps_intros; simp)+

lemma pkeeps_pipewrite [pkeeps]: "keeps proc_inv (pipewrite x0 x1 x2)"
  unfolding pipewrite_def by (intro pkeeps keeps_intros; simp)

lemma pkeeps_pipewrite_resume [pkeeps]: "keeps proc_inv (pipewrite_resume x0 x1 x2 x3 x4 x5)"
  unfolding pipewrite_resume_def by (intro pkeeps keeps_intros; simp)

lemma pkeeps_piperead_copy [pkeeps]: "keeps proc_inv (piperead_copy x0 x1 x2 x3 x4)"
  by (induction x0 x1 x2 x3 x4 rule: piperead_copy.induct) (simp only: piperead_copy.simps, intro pkeeps keeps_intros; simp)+

lemma pkeeps_piperead_loop [pkeeps]: "keeps proc_inv (piperead_loop x0 x1 x2 x3)"
  unfolding piperead_loop_def by (intro pkeeps keeps_intros; simp)

lemma pkeeps_piperead [pkeeps]: "keeps proc_inv (piperead x0 x1 x2)"
  unfolding piperead_def by (intro pkeeps keeps_intros; simp)

lemma pkeeps_piperead_resume [pkeeps]: "keeps proc_inv (piperead_resume x0 x1 x2 x3 x4)"
  unfolding piperead_resume_def by (intro pkeeps keeps_intros; simp)

lemma pkeeps_filestat [pkeeps]: "keeps proc_inv (filestat x0 x1 x2)"
  unfolding filestat_def by (intro pkeeps keeps_intros; simp)

lemma keeps_case_fdtype [pkeeps]:
  "keeps I m1 \<Longrightarrow> keeps I m2 \<Longrightarrow> keeps I m3 \<Longrightarrow> keeps I m4 \<Longrightarrow>
   keeps I (case ty of FD_NONE \<Rightarrow> m1 | FD_PIPE \<Rightarrow> m2 | FD_INODE \<Rightarrow> m3 | FD_DEVICE \<Rightarrow> m4)"
  by (cases ty) simp_all

lemma pkeeps_fileread [pkeeps]: "keeps proc_inv (fileread x0 x1 x2)"
  unfolding fileread_def by (intro pkeeps keeps_intros; simp)

lemma pkeeps_filewrite_round [pkeeps]: "keeps proc_inv (filewrite_round x0 x1 x2 x3)"
  unfolding filewrite_round_def by (intro pkeeps keeps_intros; simp)

lemma pkeeps_filewrite_loop [pkeeps]: "keeps proc_inv (filewrite_loop x0 x1 x2 x3 x4)"
proof (rule keeps_if_holds)
  show "holds proc_inv (filewrite_loop x0 x1 x2 x3 x4 s)" if "proc_inv s" for s :: "'a files_scheme"
    using that
    by (induction x0 x1 x2 x3 x4 s rule: filewrite_loop.induct)
      (subst filewrite_loop.simps, auto intro!: holds_bnd pkeeps keeps_intros simp: Let_def)
qed

lemma pkeeps_filewrite [pkeeps]: "keeps proc_inv (filewrite x0 x1 x2)"
  unfolding filewrite_def by (intro pkeeps keeps_intros; simp)

subsubsection \<open>Loading a program\<close>

lemma pkeeps_loadseg [pkeeps]: "keeps proc_inv (loadseg x0 x1 x2 x3 x4)"
  unfolding loadseg_def by (intro pkeeps keeps_intros; simp)

lemma pkeeps_exec_segment [pkeeps]: "keeps proc_inv (exec_segment x0 x1 x2 x3)"
  unfolding exec_segment_def by (intro pkeeps keeps_intros; simp)

lemma pkeeps_exec_load [pkeeps]: "keeps proc_inv (exec_load x0 x1 x2 x3 x4)"
  by (induction x0 x1 x2 x3 x4 rule: exec_load.induct) (simp only: exec_load.simps, intro pkeeps keeps_intros; simp)+

lemma pkeeps_exec_bad [pkeeps]: "keeps proc_inv (exec_bad x0 x1 x2)"
  unfolding exec_bad_def by (intro pkeeps keeps_intros; simp)

lemma pkeeps_push_args [pkeeps]: "keeps proc_inv (push_args pt base argv sp ustack)"
  by (induction argv arbitrary: sp ustack) (simp_all only: push_args.simps, (intro pkeeps keeps_intros; assumption)+)

lemma pkeeps_push_ustack [pkeeps]: "keeps proc_inv (push_ustack x0 x1 x2 x3)"
  unfolding push_ustack_def by (intro pkeeps keeps_intros; simp)

lemma pkeeps_upd_tf [pkeeps]: "keeps proc_inv (upd_tf x0 x1)"
  unfolding upd_tf_def by (intro pkeeps keeps_intros; simp)

lemma pkeeps_exec_commit [pkeeps]: "keeps proc_inv (exec_commit x0 x1 x2 x3 x4 x5 x6 x7)"
  unfolding exec_commit_def by (intro pkeeps keeps_intros; simp)

lemma pkeeps_exec_stack [pkeeps]: "keeps proc_inv (exec_stack x0 x1 x2 x3 x4)"
  unfolding exec_stack_def by (intro pkeeps keeps_intros; simp)

lemma pkeeps_exec [pkeeps]: "keeps proc_inv (exec x0 x1)"
  unfolding exec_def by (intro pkeeps keeps_intros; simp)

subsubsection \<open>Creating and ending processes\<close>

lemma pkeeps_userinit [pkeeps]: "keeps proc_inv userinit"
  unfolding userinit_def by (intro pkeeps keeps_intros; simp)

lemma pkeeps_fork_files [pkeeps]: "keeps proc_inv (fork_files x0 x1)"
  unfolding fork_files_def by (intro pkeeps keeps_intros; simp)

lemma pkeeps_fork [pkeeps]: "keeps proc_inv fork"
  unfolding fork_def by (intro pkeeps keeps_intros; simp)

lemma pkeeps_exit_files [pkeeps]: "keeps proc_inv (exit_files x0)"
  unfolding exit_files_def by (intro pkeeps keeps_intros; simp)

lemma pkeeps_exit_zombie [pkeeps]: "keeps proc_inv (exit_zombie x0 x1)"
  unfolding exit_zombie_def by (intro pkeeps keeps_intros; simp)

lemma pkeeps_exit [pkeeps]: "keeps proc_inv (exit x0)"
  unfolding exit_def by (intro pkeeps keeps_intros; simp)

subsubsection \<open>File system calls\<close>

lemma pkeeps_fetchaddr [pkeeps]: "keeps proc_inv (fetchaddr x0)"
  unfolding fetchaddr_def by (intro pkeeps keeps_intros; simp)

lemma pkeeps_fetchstr [pkeeps]: "keeps proc_inv (fetchstr x0 x1)"
  unfolding fetchstr_def by (intro pkeeps keeps_intros; simp)

lemma pkeeps_argraw [pkeeps]: "keeps proc_inv (argraw x0)"
  unfolding argraw_def by (intro pkeeps keeps_intros; simp)

lemma pkeeps_argint [pkeeps]: "keeps proc_inv (argint x0)"
  unfolding argint_def by (intro pkeeps keeps_intros; simp)

lemma pkeeps_argaddr [pkeeps]: "keeps proc_inv (argaddr x0)"
  unfolding argaddr_def by (intro pkeeps keeps_intros; simp)

lemma pkeeps_argstr [pkeeps]: "keeps proc_inv (argstr x0 x1)"
  unfolding argstr_def by (intro pkeeps keeps_intros; simp)

lemma pkeeps_argpath [pkeeps]: "keeps proc_inv (argpath x0)"
  unfolding argpath_def by (intro pkeeps keeps_intros; simp)

lemma pkeeps_argfd [pkeeps]: "keeps proc_inv (argfd x0)"
  unfolding argfd_def by (intro pkeeps keeps_intros; simp)

lemma pkeeps_fdalloc [pkeeps]: "keeps proc_inv (fdalloc x0)"
  unfolding fdalloc_def by (intro pkeeps keeps_intros; simp)

lemma pkeeps_sys_dup [pkeeps]: "keeps proc_inv sys_dup"
  unfolding sys_dup_def by (intro pkeeps keeps_intros; simp)

lemma pkeeps_sys_read [pkeeps]: "keeps proc_inv sys_read"
  unfolding sys_read_def by (intro pkeeps keeps_intros; simp)

lemma pkeeps_sys_write [pkeeps]: "keeps proc_inv sys_write"
  unfolding sys_write_def by (intro pkeeps keeps_intros; simp)

lemma pkeeps_clear_fd [pkeeps]: "keeps proc_inv (clear_fd x0)"
  unfolding clear_fd_def by (intro pkeeps keeps_intros; simp)

lemma pkeeps_sys_close [pkeeps]: "keeps proc_inv sys_close"
  unfolding sys_close_def by (intro pkeeps keeps_intros; simp)

lemma pkeeps_sys_fstat [pkeeps]: "keeps proc_inv (sys_fstat x0)"
  unfolding sys_fstat_def by (intro pkeeps keeps_intros; simp)

lemma pkeeps_fail_op [pkeeps]: "keeps proc_inv fail_op"
  unfolding fail_op_def by (intro pkeeps keeps_intros; simp)

lemma pkeeps_sys_link_bad [pkeeps]: "keeps proc_inv (sys_link_bad x0)"
  unfolding sys_link_bad_def by (intro pkeeps keeps_intros; simp)

lemma pkeeps_sys_link_op [pkeeps]: "keeps proc_inv (sys_link_op x0 x1)"
  unfolding sys_link_op_def by (intro pkeeps keeps_intros; simp)

lemma pkeeps_sys_link [pkeeps]: "keeps proc_inv sys_link"
  unfolding sys_link_def by (intro pkeeps keeps_intros; simp)

lemma pkeeps_isdirempty [pkeeps]: "keeps proc_inv (isdirempty x0)"
  unfolding isdirempty_def by (intro pkeeps keeps_intros; simp)

lemma pkeeps_unlink_bad [pkeeps]: "keeps proc_inv (unlink_bad x0)"
  unfolding unlink_bad_def by (intro pkeeps keeps_intros; simp)

lemma pkeeps_unlink_found [pkeeps]: "keeps proc_inv (unlink_found x0 x1 x2)"
  unfolding unlink_found_def by (intro pkeeps keeps_intros; simp)

lemma pkeeps_sys_unlink [pkeeps]: "keeps proc_inv sys_unlink"
  unfolding sys_unlink_def by (intro pkeeps keeps_intros; simp)

lemma pkeeps_create_fail [pkeeps]: "keeps proc_inv (create_fail x0 x1)"
  unfolding create_fail_def by (intro pkeeps keeps_intros; simp)

lemma pkeeps_create_new [pkeeps]: "keeps proc_inv (create_new x0 x1 x2 x3 x4 x5)"
  unfolding create_new_def by (intro pkeeps keeps_intros; simp)

lemma pkeeps_create [pkeeps]: "keeps proc_inv (create x0 x1 x2 x3)"
  unfolding create_def by (intro pkeeps keeps_intros; simp)

lemma pkeeps_open_inode [pkeeps]: "keeps proc_inv (open_inode x0 x1)"
  unfolding open_inode_def by (intro pkeeps keeps_intros; simp)

lemma pkeeps_open_fail [pkeeps]: "keeps proc_inv (open_fail x0)"
  unfolding open_fail_def by (intro pkeeps keeps_intros; simp)

lemma pkeeps_open_file [pkeeps]: "keeps proc_inv (open_file x0 x1 x2)"
  unfolding open_file_def by (intro pkeeps keeps_intros; simp)

lemma pkeeps_sys_open [pkeeps]: "keeps proc_inv sys_open"
  unfolding sys_open_def by (intro pkeeps keeps_intros; simp)

lemma pkeeps_create_arg [pkeeps]: "keeps proc_inv (create_arg x0 x1 x2)"
  unfolding create_arg_def by (intro pkeeps keeps_intros; simp)

lemma pkeeps_sys_mkdir [pkeeps]: "keeps proc_inv sys_mkdir"
  unfolding sys_mkdir_def by (intro pkeeps keeps_intros; simp)

lemma pkeeps_sys_mknod [pkeeps]: "keeps proc_inv sys_mknod"
  unfolding sys_mknod_def by (intro pkeeps keeps_intros; simp)

lemma pkeeps_sys_chdir [pkeeps]: "keeps proc_inv sys_chdir"
  unfolding sys_chdir_def by (intro pkeeps keeps_intros; simp)

lemma pkeeps_exec_args [pkeeps]: "keeps proc_inv (exec_args x0 x1 x2)"
  by (induction x0 x1 x2 rule: exec_args.induct) (simp only: exec_args.simps, intro pkeeps keeps_intros; simp)+

lemma pkeeps_sys_exec [pkeeps]: "keeps proc_inv sys_exec"
  unfolding sys_exec_def by (intro pkeeps keeps_intros; simp)

lemma pkeeps_pipe_fail [pkeeps]: "keeps proc_inv (pipe_fail x0 x1)"
  unfolding pipe_fail_def by (intro pkeeps keeps_intros; simp)

lemma pkeeps_sys_pipe [pkeeps]: "keeps proc_inv sys_pipe"
  unfolding sys_pipe_def by (intro pkeeps keeps_intros; simp)

subsubsection \<open>The disk driver\<close>

lemma pkeeps_upd_desc [pkeeps]: "keeps proc_inv (upd_desc x0 x1)"
  unfolding upd_desc_def by (intro pkeeps keeps_intros; simp)

lemma pkeeps_vread [pkeeps]: "keeps proc_inv (vread x0)"
  unfolding vread_def by (intro pkeeps keeps_intros; simp)

lemma pkeeps_vwrite [pkeeps]: "keeps proc_inv (vwrite x0 x1)"
  unfolding vwrite_def by (intro pkeeps keeps_intros; simp)

lemma pkeeps_virtio_handshake [pkeeps]: "keeps proc_inv virtio_handshake"
  unfolding virtio_handshake_def by (intro pkeeps keeps_intros; simp)

lemma pkeeps_virtio_queue [pkeeps]: "keeps proc_inv virtio_queue"
  unfolding virtio_queue_def by (intro pkeeps keeps_intros; simp)

lemma pkeeps_virtio_disk_init [pkeeps]: "keeps proc_inv virtio_disk_init"
  unfolding virtio_disk_init_def by (intro pkeeps keeps_intros; simp)

lemma pkeeps_alloc_desc [pkeeps]: "keeps proc_inv alloc_desc"
  unfolding alloc_desc_def by (intro pkeeps keeps_intros; simp)

lemma pkeeps_free_desc [pkeeps]: "keeps proc_inv (free_desc x0)"
  unfolding free_desc_def by (intro pkeeps keeps_intros; simp)

lemma pkeeps_free_chain [pkeeps]: "keeps proc_inv (free_chain x0)"
proof (rule keeps_if_holds)
  show "holds proc_inv (free_chain x0 s)" if "proc_inv s" for s :: "'a vdisk_scheme"
    using that
    by (induction x0 s rule: free_chain.induct)
      (subst free_chain.simps, auto intro!: holds_bnd pkeeps keeps_intros simp: Let_def)
qed

lemma pkeeps_alloc3_desc [pkeeps]: "keeps proc_inv alloc3_desc"
  unfolding alloc3_desc_def by (intro pkeeps keeps_intros; simp)

lemma pkeeps_virtio_format [pkeeps]: "keeps proc_inv (virtio_format x0 x1 x2 x3)"
  unfolding virtio_format_def by (intro pkeeps keeps_intros; simp)

lemma pkeeps_virtio_wait [pkeeps]: "keeps proc_inv (virtio_wait x0 x1)"
  unfolding virtio_wait_def by (intro pkeeps keeps_intros; simp)

lemma pkeeps_virtio_wait_resume [pkeeps]: "keeps proc_inv (virtio_wait_resume x0 x1 x2 x3)"
  unfolding virtio_wait_resume_def by (intro pkeeps keeps_intros; simp)

lemma pkeeps_virtio_request [pkeeps]: "keeps proc_inv (virtio_request x0 x1 x2)"
  unfolding virtio_request_def by (intro pkeeps keeps_intros; simp)

lemma pkeeps_virtio_disk_rw [pkeeps]: "keeps proc_inv (virtio_disk_rw x0 x1)"
  unfolding virtio_disk_rw_def by (intro pkeeps keeps_intros; simp)

lemma pkeeps_virtio_request_resume [pkeeps]: "keeps proc_inv (virtio_request_resume x0 x1 x2 x3 x4)"
  unfolding virtio_request_resume_def by (intro pkeeps keeps_intros; simp)

lemma pkeeps_virtio_used_loop [pkeeps]: "keeps proc_inv virtio_used_loop"
proof (rule keeps_if_holds)
  show "holds proc_inv (virtio_used_loop s)" if "proc_inv s" for s :: "'a vdisk_scheme"
    using that
    by (induction s rule: virtio_used_loop.induct)
      (subst virtio_used_loop.simps, auto intro!: holds_bnd pkeeps keeps_intros simp: Let_def)
qed

lemma pkeeps_virtio_disk_intr [pkeeps]: "keeps proc_inv virtio_disk_intr"
  unfolding virtio_disk_intr_def by (intro pkeeps keeps_intros; simp)

subsubsection \<open>Traps and system calls\<close>

lemma pkeeps_sys_exit [pkeeps]: "keeps proc_inv sys_exit"
  unfolding sys_exit_def by (intro pkeeps keeps_intros; simp)

lemma pkeeps_sys_getpid [pkeeps]: "keeps proc_inv sys_getpid"
  unfolding sys_getpid_def by (intro pkeeps keeps_intros; simp)

lemma pkeeps_sys_fork [pkeeps]: "keeps proc_inv sys_fork"
  unfolding sys_fork_def by (intro pkeeps keeps_intros; simp)

lemma pkeeps_sys_wait [pkeeps]: "keeps proc_inv sys_wait"
  unfolding sys_wait_def by (intro pkeeps keeps_intros; simp)

lemma pkeeps_sys_sbrk [pkeeps]: "keeps proc_inv sys_sbrk"
  unfolding sys_sbrk_def by (intro pkeeps keeps_intros; simp)

lemma pkeeps_sys_sleep_loop [pkeeps]: "keeps proc_inv (sys_sleep_loop x0 x1)"
  unfolding sys_sleep_loop_def by (intro pkeeps keeps_intros; simp)

lemma pkeeps_sys_sleep [pkeeps]: "keeps proc_inv sys_sleep"
  unfolding sys_sleep_def by (intro pkeeps keeps_intros; simp)

lemma pkeeps_sys_sleep_resume [pkeeps]: "keeps proc_inv (sys_sleep_resume x0 x1 x2 x3)"
  unfolding sys_sleep_resume_def by (intro pkeeps keeps_intros; simp)

lemma pkeeps_sys_kill [pkeeps]: "keeps proc_inv sys_kill"
  unfolding sys_kill_def by (intro pkeeps keeps_intros; simp)

lemma pkeeps_sys_uptime [pkeeps]: "keeps proc_inv sys_uptime"
  unfolding sys_uptime_def by (intro pkeeps keeps_intros; simp)

lemma pkeeps_sys_ps [pkeeps]: "keeps proc_inv (sys_ps x0)"
  unfolding sys_ps_def by (intro pkeeps keeps_intros; simp)

lemma pkeeps_sys_schedls [pkeeps]: "keeps proc_inv sys_schedls"
  unfolding sys_schedls_def by (intro pkeeps keeps_intros; simp)

lemma pkeeps_sys_schedset [pkeeps]: "keeps proc_inv (sys_schedset x0)"
  unfolding sys_schedset_def by (intro pkeeps keeps_intros; simp)

lemma pkeeps_as_u64 [pkeeps]: "keeps proc_inv m \<Longrightarrow> keeps proc_inv (as_u64 m)"
  unfolding as_u64_def by (intro pkeeps keeps_intros)

lemma pkeeps_syscall_entry: "syscall_entry env num = Some f \<Longrightarrow> keeps proc_inv f"
proof -
  have "\<forall>m \<in> set (syscalls env). case m of None \<Rightarrow> True | Some f \<Rightarrow> keeps proc_inv f"
    by (simp add: syscalls_def pkeeps)
  then show "syscall_entry env num = Some f \<Longrightarrow> keeps proc_inv f"
    by (auto simp: syscall_entry_def split: if_splits dest!: nth_mem)
qed

lemma pkeeps_set_a0 [pkeeps]: "keeps proc_inv (set_a0 x0 x1)"
  unfolding set_a0_def by (intro pkeeps keeps_intros; simp)

lemma pkeeps_syscall [pkeeps]: "keeps proc_inv (syscall env)"
  unfolding syscall_def
  by (intro keeps_bnd keeps_case_option_eq pkeeps_syscall_entry pkeeps keeps_gets; assumption)

lemma pkeeps_r_scause [pkeeps]: "keeps proc_inv r_scause"
  unfolding r_scause_def by (intro pkeeps keeps_intros; simp)

lemma pkeeps_r_sepc [pkeeps]: "keeps proc_inv r_sepc"
  unfolding r_sepc_def by (intro pkeeps keeps_intros; simp)

lemma pkeeps_r_stval [pkeeps]: "keeps proc_inv r_stval"
  unfolding r_stval_def by (intro pkeeps keeps_intros; simp)

lemma pkeeps_w_stvec [pkeeps]: "keeps proc_inv (w_stvec x0)"
  unfolding w_stvec_def by (intro pkeeps keeps_intros; simp)

lemma pkeeps_w_sepc [pkeeps]: "keeps proc_inv (w_sepc x0)"
  unfolding w_sepc_def by (intro pkeeps keeps_intros; simp)

lemma pkeeps_trapinit [pkeeps]: "keeps proc_inv trapinit"
  unfolding trapinit_def by (intro pkeeps keeps_intros; simp)

lemma pkeeps_trapinithart [pkeeps]: "keeps proc_inv (trapinithart x0)"
  unfolding trapinithart_def by (intro pkeeps keeps_intros; simp)

lemma pkeeps_clockintr [pkeeps]: "keeps proc_inv clockintr"
  unfolding clockintr_def by (intro pkeeps keeps_intros; simp)

lemma pkeeps_devintr_external [pkeeps]: "keeps proc_inv (devintr_external x0)"
  unfolding devintr_external_def by (intro pkeeps keeps_intros; simp)

lemma pkeeps_devintr [pkeeps]: "keeps proc_inv (devintr x0)"
  unfolding devintr_def by (intro pkeeps keeps_intros; simp)

lemma pkeeps_usertrapret [pkeeps]: "keeps proc_inv (usertrapret x0)"
  unfolding usertrapret_def by (intro pkeeps keeps_intros; simp)

lemma pkeeps_exit_if_killed [pkeeps]: "keeps proc_inv (exit_if_killed x0)"
  unfolding exit_if_killed_def by (intro pkeeps keeps_intros; simp)

lemma pkeeps_usertrap_cause [pkeeps]: "keeps proc_inv (usertrap_cause x0 x1 x2)"
  unfolding usertrap_cause_def by (intro pkeeps keeps_intros; simp)

lemma pkeeps_usertrap [pkeeps]: "keeps proc_inv (usertrap x0 x1 x2)"
  unfolding usertrap_def by (intro pkeeps keeps_intros; simp)

lemma pkeeps_usertrap_resume [pkeeps]: "keeps proc_inv (usertrap_resume x0 x1 x2)"
  unfolding usertrap_resume_def by (intro pkeeps keeps_intros; simp)

lemma pkeeps_kerneltrap_restore [pkeeps]: "keeps proc_inv (kerneltrap_restore x0 x1)"
  unfolding kerneltrap_restore_def by (intro pkeeps keeps_intros; simp)

lemma pkeeps_kerneltrap [pkeeps]: "keeps proc_inv (kerneltrap x0)"
  unfolding kerneltrap_def by (intro pkeeps keeps_intros; simp)

lemma pkeeps_kerneltrap_resume [pkeeps]: "keeps proc_inv (kerneltrap_resume x0 x1 x2 x3)"
  unfolding kerneltrap_resume_def by (intro pkeeps keeps_intros; simp)

lemma pkeeps_forkret [pkeeps]: "keeps proc_inv (forkret x0)"
  unfolding forkret_def by (intro pkeeps keeps_intros; simp)

lemma pkeeps_kmain [pkeeps]: "keeps proc_inv (kmain x0)"
  unfolding kmain_def by (intro pkeeps keeps_intros; simp)

subsection \<open>Runs of the kernel\<close>











end
