(* ===== verification/User_Sys.thy ===== *)
theory User_Sys
  imports Xv6_Prelude
begin

text \<open>
  What user programs are written with: the system calls (\<^verbatim>\<open>user/usys.pl\<close>), and of the C library
  \<^verbatim>\<open>user/printf.c\<close> and the string functions of \<^verbatim>\<open>user/ulib.c\<close> that the programs use.

  A process is a tree of its system calls.  A node holds a call and, for every value that the call
  can return, what the process does next.  \<open>Fork\<close> goes on in both processes, with the results \<^verbatim>\<open>0\<close>
  and the pid; \<open>Pipe\<close> gives its result and the two descriptors, \<open>Read\<close> the bytes read or an error,
  \<open>Exec\<close> has what the process does when the call returns.  \<open>Print\<close> is a sequence of one-byte writes
  whose results the code does not look at.  Two nodes end the model and not the process:
  \<open>Overrun\<close>, where the behaviour of the code is undefined, and \<open>Later\<close>, where a bound on the rounds
  of a loop is used up.

  A C string is the list of its characters before the NUL.
\<close>

subsection \<open>System calls\<close>

datatype call =
    Chdir string | Kill int | Link string string | Mkdir string | Unlink string
  | Mknod string int int | Sleep int | Uptime | Schedls | Schedset int

record stat_u =
  st_type :: int
  st_ino :: u32
  st_size :: u64

record user_proc_u =
  up_state :: int
  up_pid :: int
  up_name :: string

datatype prog =
    Exit int
  | Exec string "string list" prog
  | Fork "int \<Rightarrow> prog"
  | Wait "int \<Rightarrow> prog"
  | Close int prog
  | Open string int "int \<Rightarrow> prog"
  | Dup int prog
  | Pipe "int \<Rightarrow> int \<Rightarrow> int \<Rightarrow> prog"
  | Print int string prog
  | Read int nat "string option \<Rightarrow> prog"
  | Write int string "int \<Rightarrow> prog"
  | Fstat int "stat_u option \<Rightarrow> prog"
  | Ps nat nat "user_proc_u list \<Rightarrow> prog"
  | Sys call "int \<Rightarrow> prog"
  | Overrun
  | Later

definition NUL :: char where "NUL = CHR 0x00"

definition newline :: string where "newline = [CHR 0x0A]"

definition O_RDONLY_u :: int where "O_RDONLY_u = 0"
definition O_WRONLY_u :: int where "O_WRONLY_u = 0x001"
definition O_RDWR_u :: int where "O_RDWR_u = 0x002"
definition O_CREATE_u :: int where "O_CREATE_u = 0x200"
definition O_TRUNC_u :: int where "O_TRUNC_u = 0x400"

subsection \<open>Strings\<close>

text \<open>\<open>strcmp\<close> on strings; beyond the end of a string is its NUL.\<close>

fun strcmp_u :: "string \<Rightarrow> string \<Rightarrow> int" where
  "strcmp_u [] [] = 0"
| "strcmp_u [] (d # q) = - int (of_char d)"
| "strcmp_u (c # p) [] = int (of_char c)"
| "strcmp_u (c # p) (d # q) = (if c = d then strcmp_u p q else int (of_char c) - int (of_char d))"

text \<open>The part of the string from the first \<open>c\<close> on.\<close>

fun strchr_u :: "string \<Rightarrow> char \<Rightarrow> string option" where
  "strchr_u [] c = None"
| "strchr_u (d # s) c = (if d = NUL then None else if d = c then Some (d # s) else strchr_u s c)"

fun atoi_loop :: "u32 \<Rightarrow> string \<Rightarrow> u32" where
  "atoi_loop n [] = n"
| "atoi_loop n (c # s) =
     (if 48 \<le> (of_char c :: nat) \<and> (of_char c :: nat) \<le> 57 then atoi_loop (n * 10 + of_char c - 48) s else n)"

definition atoi :: "string \<Rightarrow> u32" where
  "atoi s = atoi_loop 0 s"

subsection \<open>printf\<close>

definition digits_u :: "nat \<Rightarrow> char" where
  "digits_u d = ''0123456789ABCDEF'' ! d"

function printint_loop :: "nat \<Rightarrow> nat \<Rightarrow> string" where
  "printint_loop base x =
     digits_u (x mod base) # (if x div base = 0 \<or> base < 2 then [] else printint_loop base (x div base))"
  by pat_completeness auto
termination
  by (relation "measure snd") (auto intro!: div_less_dividend simp: div_greater_zero_iff)

declare printint_loop.simps [simp del]

definition printint_u :: "u32 \<Rightarrow> nat \<Rightarrow> bool \<Rightarrow> string" where
  "printint_u xx base signed_out =
     (let neg = signed_out \<and> xx <s 0;
          x = (if neg then - xx else xx)
      in rev (printint_loop base (unat x) @ (if neg then ''-'' else [])))"

primrec printptr_loop :: "nat \<Rightarrow> u64 \<Rightarrow> string" where
  "printptr_loop 0 x = []"
| "printptr_loop (Suc n) x = digits_u (unat (drop_bit 60 x)) # printptr_loop n (push_bit 4 x)"

definition printptr_u :: "u64 \<Rightarrow> string" where
  "printptr_u x = ''0x'' @ printptr_loop 16 x"

datatype vaarg = V_int u32 | V_long u64 | V_str "string option"

text \<open>
  \<open>vprintf\<close> with the value of \<^verbatim>\<open>state\<close>: the characters it writes, or nothing where the format asks
  for an argument that was not passed or has another type.  For \<^verbatim>\<open>%l\<close> the code passes a 64-bit
  argument to \<open>printint\<close>, whose parameter is an \<^verbatim>\<open>int\<close>.
\<close>

fun vprintf_step :: "char \<Rightarrow> vaarg list \<Rightarrow> (string \<times> vaarg list) option" where
  "vprintf_step c ap =
     (if c = CHR ''d'' then (case ap of V_int x # r \<Rightarrow> Some (printint_u x 10 True, r) | _ \<Rightarrow> None)
      else if c = CHR ''l'' then (case ap of V_long x # r \<Rightarrow> Some (printint_u (ucast x) 10 False, r) | _ \<Rightarrow> None)
      else if c = CHR ''x'' then (case ap of V_int x # r \<Rightarrow> Some (printint_u x 16 False, r) | _ \<Rightarrow> None)
      else if c = CHR ''p'' then (case ap of V_long x # r \<Rightarrow> Some (printptr_u x, r) | _ \<Rightarrow> None)
      else if c = CHR ''s'' then
        (case ap of V_str (Some s) # r \<Rightarrow> Some (s, r) | V_str None # r \<Rightarrow> Some (''(null)'', r) | _ \<Rightarrow> None)
      else if c = CHR ''c'' then (case ap of V_int x # r \<Rightarrow> Some ([char_of (unat x)], r) | _ \<Rightarrow> None)
      else if c = CHR ''%'' then Some (''%'', ap)
      else Some ([CHR ''%'', c], ap))"

fun vprintf :: "bool \<Rightarrow> string \<Rightarrow> vaarg list \<Rightarrow> string option" where
  "vprintf state [] ap = Some []"
| "vprintf False (c # fmt) ap =
     (if c = CHR ''%'' then vprintf True fmt ap else map_option ((#) c) (vprintf False fmt ap))"
| "vprintf True (c # fmt) ap =
     (case vprintf_step c ap of
        None \<Rightarrow> None
      | Some (out, ap) \<Rightarrow> map_option ((@) out) (vprintf False fmt ap))"

definition fprintf :: "int \<Rightarrow> string \<Rightarrow> vaarg list \<Rightarrow> prog \<Rightarrow> prog" where
  "fprintf fd fmt ap k = (case vprintf False fmt ap of Some out \<Rightarrow> Print fd out k | None \<Rightarrow> Overrun)"

definition printf_u :: "string \<Rightarrow> vaarg list \<Rightarrow> prog \<Rightarrow> prog" where
  "printf_u fmt ap k = fprintf 1 fmt ap k"

lemma digit_chars: "d < 10 \<Longrightarrow> of_char (digits_u d) = (48 + d :: nat)"
proof -
  assume "d < 10"
  then have "d \<in> {0, 1, 2, 3, 4, 5, 6, 7, 8, 9}" by auto
  then show ?thesis by (auto simp: digits_u_def)
qed

definition is_digit :: "char \<Rightarrow> bool" where
  "is_digit c \<longleftrightarrow> 48 \<le> (of_char c :: nat) \<and> (of_char c :: nat) \<le> 57"

lemma atoi_snoc:
  "list_all is_digit s \<Longrightarrow> is_digit c \<Longrightarrow> atoi_loop n (s @ [c]) = atoi_loop n s * 10 + of_char c - 48"
  by (induction s arbitrary: n) (auto simp: is_digit_def)

lemma printint_loop_digits: "list_all is_digit (printint_loop 10 x)"
proof (induction "10 :: nat" x rule: printint_loop.induct)
  case (1 x)
  then show ?case by (subst printint_loop.simps) (auto simp: is_digit_def digit_chars)
qed

lemma atoi_digits: "atoi_loop 0 (rev (printint_loop 10 x)) = of_nat x"
proof (induction "10 :: nat" x rule: printint_loop.induct)
  case (1 x)
  have d: "is_digit (digits_u (x mod 10))" by (simp add: is_digit_def digit_chars)
  have c: "of_char (digits_u (x mod 10)) = (48 + of_nat (x mod 10) :: u32)"
    using digit_chars [of "x mod 10"] of_nat_of_char [of "digits_u (x mod 10)", where 'a = u32] by (metis mod_less_divisor of_nat_add of_nat_numeral zero_less_numeral)
  show ?case
  proof (cases "x div 10 = 0")
    case True
    then show ?thesis using d c by (subst printint_loop.simps) (auto simp: is_digit_def)
  next
    case False
    have rec: "printint_loop 10 x = digits_u (x mod 10) # printint_loop 10 (x div 10)"
      using False by (subst printint_loop.simps) simp
    have "of_nat (x div 10) * 10 + of_nat (x mod 10) = (of_nat x :: u32)"
      by (metis div_mult_mod_eq of_nat_add of_nat_mult of_nat_numeral)
    then show ?thesis
      unfolding rec using 1 False d c printint_loop_digits [of "x div 10"]
      by (simp add: atoi_snoc list_all_rev algebra_simps)
  qed
qed

text \<open>
  Claim C31.  \<open>atoi\<close> reads back what \<open>printf\<close> writes: for every 32-bit number, from its unsigned
  decimal digits, and from the output of \<^verbatim>\<open>%d\<close> unless there is a sign, which \<open>atoi\<close> does not
  read.
\<close>

theorem atoi_printint:
  "atoi (printint_u xx 10 False) = xx \<and> atoi (printint_u xx 10 True) = (if xx <s 0 then 0 else xx)"
  by (simp add: atoi_def printint_u_def atoi_digits)

subsection \<open>Input and files\<close>

text \<open>\<open>gets\<close>, with the \<open>n\<close> characters that still fit and those read so far.\<close>

fun gets_loop :: "nat \<Rightarrow> string \<Rightarrow> (string \<Rightarrow> prog) \<Rightarrow> prog" where
  "gets_loop 0 acc k = k acc"
| "gets_loop (Suc n) acc k =
     Read 0 1 (\<lambda>r. case r of
       Some (c # _) \<Rightarrow>
         if c = CHR 0x0A \<or> c = CHR 0x0D then k (acc @ [c]) else gets_loop n (acc @ [c]) k
     | _ \<Rightarrow> k acc)"

definition stat_call :: "string \<Rightarrow> (stat_u option \<Rightarrow> prog) \<Rightarrow> prog" where
  "stat_call n k =
     Open n O_RDONLY_u (\<lambda>fd. if fd < 0 then k None else Fstat fd (\<lambda>r. Close fd (k r)))"

end
