(* ===== verification/User_Shell.thy ===== *)
theory User_Shell
  imports User_Sys "HOL-Library.Sublist"
begin

text \<open>
  The shell, \<^verbatim>\<open>user/sh.c\<close>.

  A pointer into the command line is the text from there to the end \<^verbatim>\<open>es\<close>, so that \<^verbatim>\<open>s < es\<close> is
  \<open>s \<noteq> []\<close> and the character at \<^verbatim>\<open>es\<close> is the terminating NUL.  A token is the pair of pointers
  \<^verbatim>\<open>q\<close>, \<^verbatim>\<open>eq\<close>.  The nodes that the code allocates with \<open>malloc\<close> (without looking at the result)
  are the nodes of a tree.  \<open>panic\<close> in the parser ends the process, which is an error result.
  The four parsing functions call each other on what the others left over; they carry a fuel,
  and \<open>parsecmd\<close> gives them enough of it for every input.

  \<open>runcmd\<close> and \<open>main\<close> are trees of system calls; \<open>fprintf\<close> with a fixed format is its text.
\<close>

subsection \<open>Data\<close>

definition whitespace :: string where
  "whitespace = [CHR '' '', CHR 0x09, CHR 0x0D, CHR 0x0A, CHR 0x0B]"

definition symbols :: string where "symbols = ''<|>&;()''"

definition MAXARGS :: nat where "MAXARGS = 10"

type_synonym token = "string \<times> string"

datatype cmd = EXEC "token list" | REDIR cmd token int int | PIPE cmd cmd | LIST cmd cmd | BACK cmd

datatype 'a parse = Parsed 'a string | Panics string | Starved


text \<open>
  The constructors of the nodes.  They allocate with \<open>malloc\<close> and do not look at its result.
\<close>

definition execcmd :: cmd where [simp]: "execcmd = EXEC []"

definition redircmd :: "cmd \<Rightarrow> token \<Rightarrow> int \<Rightarrow> int \<Rightarrow> cmd" where [simp]: "redircmd subcmd w mode fd = REDIR subcmd w mode fd"

definition pipecmd :: "cmd \<Rightarrow> cmd \<Rightarrow> cmd" where [simp]: "pipecmd left right = PIPE left right"

definition listcmd :: "cmd \<Rightarrow> cmd \<Rightarrow> cmd" where [simp]: "listcmd left right = LIST left right"

definition backcmd :: "cmd \<Rightarrow> cmd" where [simp]: "backcmd subcmd = BACK subcmd"

subsection \<open>Tokens\<close>

text \<open>\<^verbatim>\<open>while (s < es && strchr(whitespace, *s)) s++;\<close>\<close>

definition skip_white :: "string \<Rightarrow> string" where
  "skip_white s = dropWhile (\<lambda>c. c \<in> set whitespace) s"

definition word_char :: "char \<Rightarrow> bool" where
  "word_char c \<longleftrightarrow> c \<notin> set whitespace \<and> c \<notin> set symbols"

text \<open>The token, the pointers \<^verbatim>\<open>q\<close> and \<^verbatim>\<open>eq\<close>, and the new value of \<^verbatim>\<open>*ps\<close>.\<close>

definition gettoken :: "string \<Rightarrow> char \<times> token \<times> string" where
  "gettoken ps =
     (let q = skip_white ps in
      case q of
        [] \<Rightarrow> (NUL, (q, []), [])
      | c # s \<Rightarrow>
          if c = NUL then (NUL, (q, q), skip_white q)
          else if c \<in> set ''|();&<'' then (c, (q, s), skip_white s)
          else if c = CHR ''>''
          then (case s of
                  d # s' \<Rightarrow> if d = CHR ''>'' then (CHR ''+'', (q, s'), skip_white s')
                            else (c, (q, s), skip_white s)
                | [] \<Rightarrow> (c, (q, s), skip_white s))
          else let e = dropWhile word_char q in (CHR ''a'', (q, e), skip_white e))"

definition peek :: "string \<Rightarrow> string \<Rightarrow> string \<times> bool" where
  "peek ps toks = (let s = skip_white ps in (s, case s of [] \<Rightarrow> False | c # _ \<Rightarrow> c \<noteq> NUL \<and> c \<in> set toks))"

subsection \<open>Parsing\<close>

lemma skip_white_length [simp]: "length (skip_white s) \<le> length s"
  by (simp add: skip_white_def length_dropWhile_le)

lemma skip_white_idem [simp]: "skip_white (skip_white s) = skip_white s"
  by (simp add: skip_white_def)

lemma gettoken_length: "gettoken s = (t, w, s') \<Longrightarrow> length s' \<le> length s"
  by (auto simp: gettoken_def Let_def split: list.splits if_splits
      intro: le_trans [OF skip_white_length] le_trans [OF length_dropWhile_le])
    (metis length_Cons less_imp_le_nat order_less_le_trans lessI skip_white_length le_trans length_dropWhile_le)+

lemma gettoken_less:
  assumes "gettoken s = (t, w, s')" and "t \<noteq> NUL"
  shows "length s' < length s"
proof -
  obtain c r where q: "skip_white s = c # r" and c: "c \<noteq> NUL"
    using assms by (auto simp: gettoken_def Let_def split: list.splits if_splits)
  have le: "Suc (length r) \<le> length s" using skip_white_length [of s] q by simp
  have tail: "length (skip_white x) \<le> length r" if "length x \<le> length r" for x
    using that skip_white_length [of x] by linarith
  have word: "length (dropWhile word_char (c # r)) \<le> length r" if "c \<notin> set ''|();&<''" "c \<noteq> CHR ''>''"
  proof -
    have "c \<notin> set whitespace" using q hd_dropWhile [of "\<lambda>c. c \<in> set whitespace" s] by (auto simp: skip_white_def)
    then have "word_char c" using that by (auto simp: word_char_def symbols_def)
    then show ?thesis by (simp add: length_dropWhile_le)
  qed
  have "length s' \<le> length r"
    using assms(1) q c tail word by (auto simp: gettoken_def Let_def split: list.splits if_splits)
  then show ?thesis using le by simp
qed

lemma peek_length: "peek s toks = (s', b) \<Longrightarrow> length s' \<le> length s"
  by (auto simp: peek_def Let_def)

lemma redirs_step:
  "(s, found) = peek ps toks \<Longrightarrow> (tok, w0, s1) = gettoken s \<Longrightarrow> (CHR ''a'', w, s2) = gettoken s1 \<Longrightarrow> length s2 < length ps"
  using gettoken_less [of s1 "CHR ''a''" w s2] gettoken_length [of s tok w0 s1] peek_length [of ps toks s found]
  by (simp add: NUL_def)

lemma peek_True: "peek ps toks = (s, True) \<Longrightarrow> \<exists>c r. s = c # r \<and> c \<noteq> NUL \<and> c \<in> set toks \<and> skip_white s = s"
  using skip_white_idem [of ps] by (auto simp: peek_def Let_def simp del: skip_white_idem split: list.splits)

lemma token_step:
  assumes "(s, True) = peek ps toks" and "(t, w, s1) = gettoken s"
  shows "length s1 < length ps"
proof -
  obtain c r where s: "s = c # r" "c \<noteq> NUL" "skip_white s = s" using peek_True assms(1) by metis
  then have "t \<noteq> NUL" using assms(2) by (auto simp: gettoken_def Let_def NUL_def split: if_splits list.splits)
  then have "length s1 < length s" using gettoken_less [of s t w s1] assms(2) by simp
  then show ?thesis using peek_length [of ps toks s True] assms(1) by simp
qed

function parseredirs :: "cmd \<Rightarrow> string \<Rightarrow> cmd parse" where
  "parseredirs c ps =
     (let (s, found) = peek ps ''<>'' in
      if \<not> found then Parsed c s
      else let (tok, _, s1) = gettoken s in
           let (t, w, s2) = gettoken s1 in
             if t \<noteq> CHR ''a'' then Panics ''missing file for redirection''
             else parseredirs
                    (if tok = CHR ''<'' then redircmd c w O_RDONLY_u 0
                     else if tok = CHR ''>'' then redircmd c w (O_WRONLY_u + O_CREATE_u + O_TRUNC_u) 1
                     else if tok = CHR ''+'' then redircmd c w (O_WRONLY_u + O_CREATE_u) 1
                     else c) s2)"
  by pat_completeness auto
termination
  by (relation "measure (\<lambda>(c, s). length s)") (simp_all, metis redirs_step)

declare parseredirs.simps [simp del]

text \<open>
  \<open>parseexec\<close> keeps a pointer \<^verbatim>\<open>cmd\<close> to the node of the program, around which \<open>parseredirs\<close> puts
  nodes for the redirections, and stores the arguments through it; \<open>fill\<close> is the effect of
  these stores on the tree.
\<close>

fun fill :: "token list \<Rightarrow> cmd \<Rightarrow> cmd" where
  "fill argv (EXEC _) = EXEC argv"
| "fill argv (REDIR c w m f) = REDIR (fill argv c) w m f"
| "fill argv c = c"

function parseexec_loop :: "token list \<Rightarrow> cmd \<Rightarrow> string \<Rightarrow> cmd parse" where
  "parseexec_loop argv c ps =
     (let (s, stop) = peek ps ''|)&;'' in
      if stop then Parsed (fill argv c) s
      else let (tok, w, s1) = gettoken s in
        if tok = NUL then Parsed (fill argv c) s1
        else if tok \<noteq> CHR ''a'' then Panics ''syntax''
        else if length (argv @ [w]) \<ge> MAXARGS then Panics ''too many args''
        else case parseredirs c s1 of
               Parsed c' s2 \<Rightarrow> parseexec_loop (argv @ [w]) c' s2
             | Panics msg \<Rightarrow> Panics msg
             | Starved \<Rightarrow> Starved)"
  by pat_completeness auto
termination by (relation "measure (\<lambda>(argv, c, s). MAXARGS - length argv)") auto

declare parseexec_loop.simps [simp del]

text \<open>The loop of \<open>parseline\<close> over \<^verbatim>\<open>&\<close>.\<close>

function back_loop :: "cmd \<Rightarrow> string \<Rightarrow> cmd \<times> string" where
  "back_loop c ps =
     (let (s, found) = peek ps ''&'' in
      if \<not> found then (c, s)
      else let (_, _, s1) = gettoken s in back_loop (backcmd c) s1)"
  by pat_completeness auto
termination
  by (relation "measure (\<lambda>(c, s). length s)") (simp_all, metis token_step)

declare back_loop.simps [simp del]

fun parseline :: "nat \<Rightarrow> string \<Rightarrow> cmd parse"
and parsepipe :: "nat \<Rightarrow> string \<Rightarrow> cmd parse"
and parseexec :: "nat \<Rightarrow> string \<Rightarrow> cmd parse"
and parseblock :: "nat \<Rightarrow> string \<Rightarrow> cmd parse" where
  "parseline 0 ps = Starved"
| "parseline (Suc n) ps =
     (case parsepipe n ps of
        Parsed c s \<Rightarrow>
          (let (c, s) = back_loop c s in
           let (s, found) = peek s '';'' in
           if \<not> found then Parsed c s
           else let (_, _, s) = gettoken s in
             (case parseline n s of
                Parsed d s \<Rightarrow> Parsed (listcmd c d) s
              | Panics msg \<Rightarrow> Panics msg
              | Starved \<Rightarrow> Starved))
      | Panics msg \<Rightarrow> Panics msg
      | Starved \<Rightarrow> Starved)"
| "parsepipe 0 ps = Starved"
| "parsepipe (Suc n) ps =
     (case parseexec n ps of
        Parsed c s \<Rightarrow>
          (let (s, found) = peek s ''|'' in
           if \<not> found then Parsed c s
           else let (_, _, s) = gettoken s in
             (case parsepipe n s of
                Parsed d s \<Rightarrow> Parsed (pipecmd c d) s
              | Panics msg \<Rightarrow> Panics msg
              | Starved \<Rightarrow> Starved))
      | Panics msg \<Rightarrow> Panics msg
      | Starved \<Rightarrow> Starved)"
| "parseexec 0 ps = Starved"
| "parseexec (Suc n) ps =
     (let (s, block) = peek ps ''('' in
      if block then parseblock n s
      else case parseredirs execcmd s of
             Parsed c s \<Rightarrow> parseexec_loop [] c s
           | Panics msg \<Rightarrow> Panics msg
           | Starved \<Rightarrow> Starved)"
| "parseblock 0 ps = Starved"
| "parseblock (Suc n) ps =
     (let (s, opened) = peek ps ''('' in
      if \<not> opened then Panics ''parseblock''
      else let (_, _, s) = gettoken s in
        (case parseline n s of
           Parsed c s \<Rightarrow>
             (let (s, closed) = peek s '')'' in
              if \<not> closed then Panics ''syntax - missing )''
              else let (_, _, s) = gettoken s in parseredirs c s)
         | Panics msg \<Rightarrow> Panics msg
         | Starved \<Rightarrow> Starved))"

text \<open>
  \<open>nulterminate\<close> stores a NUL at the end of every token.  A pointer \<open>e\<close> into the line \<open>b\<close> is the
  position \<open>length b - length e\<close>; the store at the position \<open>length b\<close> is to the NUL that is there.
\<close>

definition nul_at :: "nat \<Rightarrow> token \<Rightarrow> string \<Rightarrow> string" where
  "nul_at len w buf = buf[len - length (snd w) := NUL]"

fun nulterminate :: "nat \<Rightarrow> cmd \<Rightarrow> string \<Rightarrow> string" where
  "nulterminate len (EXEC argv) buf = fold (nul_at len) argv buf"
| "nulterminate len (REDIR c w m f) buf = nul_at len w (nulterminate len c buf)"
| "nulterminate len (PIPE l r) buf = nulterminate len r (nulterminate len l buf)"
| "nulterminate len (LIST l r) buf = nulterminate len r (nulterminate len l buf)"
| "nulterminate len (BACK c) buf = nulterminate len c buf"

text \<open>The parsed command and the line with the NULs in it.\<close>

definition parsecmd :: "string \<Rightarrow> (cmd \<times> string) parse" where
  "parsecmd b =
     (case parseline (4 * length b + 4) b of
        Parsed c s \<Rightarrow>
          (let (s, _) = peek s '''' in
           if s \<noteq> [] then Panics (''leftovers: '' @ s @ newline @ ''syntax'') else Parsed (c, nulterminate (length b) c b) s)
      | Panics msg \<Rightarrow> Panics msg
      | Starved \<Rightarrow> Starved)"

subsection \<open>The parser consumes its input and does not starve\<close>

lemma parseredirs_ok: "parseredirs c s \<noteq> Starved \<and> (\<forall>c' s'. parseredirs c s = Parsed c' s' \<longrightarrow> length s' \<le> length s)"
proof (induction c s rule: parseredirs.induct)
  case (1 c ps)
  obtain s found where p: "peek ps ''<>'' = (s, found)" by fastforce
  have le: "length s \<le> length ps" using peek_length [OF p] .
  show ?case
  proof (cases found)
    case True
    obtain tok w0 s1 where t1: "gettoken s = (tok, w0, s1)" by (metis prod_cases3)
    obtain t w s2 where t2: "gettoken s1 = (t, w, s2)" by (metis prod_cases3)
    show ?thesis
    proof (cases "t = CHR ''a''")
      case a: True
      have "length s2 < length ps" using redirs_step [of s found ps "''<>''" tok w0 s1 w s2] p t1 t2 a by simp
      then show ?thesis
        using 1 [OF refl p [symmetric] _ refl t1 [symmetric] refl refl t2 [symmetric] refl] p t1 t2 True a
        by (subst (1 2) parseredirs.simps) (auto intro: le_trans)
    qed (use p t1 t2 True in \<open>subst (1 2) parseredirs.simps, simp\<close>)
  qed (use p le in \<open>subst (1 2) parseredirs.simps, simp\<close>)
qed

lemma parseexec_loop_ok:
  "parseexec_loop argv c s \<noteq> Starved \<and> (\<forall>c' s'. parseexec_loop argv c s = Parsed c' s' \<longrightarrow> length s' \<le> length s)"
proof (induction argv c s rule: parseexec_loop.induct)
  case (1 argv c ps)
  obtain s stop where p: "peek ps ''|)&;'' = (s, stop)" by fastforce
  obtain tok w s1 where t: "gettoken s = (tok, w, s1)" by (metis prod_cases3)
  have le: "length s \<le> length ps" "length s1 \<le> length ps"
    using peek_length [OF p] gettoken_length [OF t] by simp_all
  show ?case
  proof (cases "\<not> stop \<and> tok = CHR ''a'' \<and> length (argv @ [w]) < MAXARGS")
    case True
    then show ?thesis
      using 1 [OF refl p [symmetric] _ refl t [symmetric] refl] parseredirs_ok [of c s1] p t le
      by (subst (1 2) parseexec_loop.simps) (auto simp: NUL_def split: parse.splits intro: le_trans)
  qed (use p t le in \<open>subst (1 2) parseexec_loop.simps, auto\<close>)
qed

lemma back_loop_length: "back_loop c s = (c', s') \<Longrightarrow> length s' \<le> length s"
proof (induction c s rule: back_loop.induct)
  case (1 c ps)
  obtain s found where p: "peek ps ''&'' = (s, found)" by fastforce
  obtain t w s1 where t: "gettoken s = (t, w, s1)" by (metis prod_cases3)
  show ?case
  proof (cases found)
    case True
    then have "length s1 < length ps" using token_step [of s ps "''&''" t w s1] p t by simp
    then show ?thesis
      using 1(1) [OF refl p [symmetric] _ refl t [symmetric] refl] 1(2) p t True
      by (subst (asm) back_loop.simps) auto
  qed (use 1(2) p peek_length [OF p] in \<open>subst (asm) back_loop.simps, simp\<close>)
qed

lemma token_less: "peek ps toks = (s, True) \<Longrightarrow> gettoken s = (t, w, s1) \<Longrightarrow> length s1 < length ps"
  using token_step by metis

text \<open>
  What every parser guarantees: it leaves a suffix no longer than its input and, with fuel above
  four times the length plus its rank, does not starve.
\<close>

definition fed :: "nat \<Rightarrow> nat \<Rightarrow> string \<Rightarrow> cmd parse \<Rightarrow> bool" where
  "fed rank n s r \<longleftrightarrow>
     (\<forall>c s'. r = Parsed c s' \<longrightarrow> length s' \<le> length s) \<and> (4 * length s + rank < n \<longrightarrow> r \<noteq> Starved)"

lemma fed_Panics [simp]: "fed k n s (Panics msg)"
  by (simp add: fed_def)

lemma fed_Parsed [simp]: "fed k n s (Parsed c s') \<longleftrightarrow> length s' \<le> length s"
  by (simp add: fed_def)

lemma fed_Starved [simp]: "fed k n s Starved \<longleftrightarrow> n \<le> 4 * length s + k"
  by (auto simp: fed_def)

lemma fed_line:
  assumes pipe: "\<And>s. fed 2 n s (parsepipe n s)" and line: "\<And>s. fed 3 n s (parseline n s)"
  shows "fed 3 (Suc n) s (parseline (Suc n) s)"
proof (cases "parsepipe n s")
  case 1: (Parsed c1 s1)
  obtain c2 s2 where 2: "back_loop c1 s1 = (c2, s2)" by fastforce
  obtain s3 found where 3: "peek s2 '';'' = (s3, found)" by fastforce
  obtain t w s4 where 4: "gettoken s3 = (t, w, s4)" by (metis prod_cases3)
  have le: "length s2 \<le> length s" "length s3 \<le> length s" "found \<Longrightarrow> length s4 < length s"
    using pipe [of s] 1 back_loop_length [OF 2] peek_length [OF 3] token_less [of s2 "'';''" s3 t w s4] 3 4 by auto
  show ?thesis using line [of s4] 1 2 3 4 le by (cases "parseline n s4") auto
qed (use pipe [of s] in simp_all)

lemma fed_pipe:
  assumes exc: "\<And>s. fed 1 n s (parseexec n s)" and pipe: "\<And>s. fed 2 n s (parsepipe n s)"
  shows "fed 2 (Suc n) s (parsepipe (Suc n) s)"
proof (cases "parseexec n s")
  case 1: (Parsed c1 s1)
  obtain s3 found where 3: "peek s1 ''|'' = (s3, found)" by fastforce
  obtain t w s4 where 4: "gettoken s3 = (t, w, s4)" by (metis prod_cases3)
  have le: "length s3 \<le> length s" "found \<Longrightarrow> length s4 < length s"
    using exc [of s] 1 peek_length [OF 3] token_less [of s1 "''|''" s3 t w s4] 3 4 by auto
  show ?thesis using pipe [of s4] 1 3 4 le by (cases "parsepipe n s4") auto
qed (use exc [of s] in simp_all)

lemma fed_exec:
  assumes block: "\<And>s. fed 0 n s (parseblock n s)"
  shows "fed 1 (Suc n) s (parseexec (Suc n) s)"
proof -
  obtain s1 b where 1: "peek s ''('' = (s1, b)" by fastforce
  have le: "length s1 \<le> length s" using peek_length [OF 1] .
  show ?thesis
  proof (cases b)
    case True
    then show ?thesis using block [of s1] 1 le by (cases "parseblock n s1") auto
  next
    case False
    show ?thesis
    proof (cases "parseredirs (EXEC []) s1")
      case 2: (Parsed c s2)
      have "length s2 \<le> length s" using parseredirs_ok [of "EXEC []" s1] 2 le by auto
      then show ?thesis
        using 1 2 False parseexec_loop_ok [of "[]" c s2] by (cases "parseexec_loop [] c s2") auto
    qed (use 1 False parseredirs_ok [of "EXEC []" s1] in auto)
  qed
qed

lemma fed_block:
  assumes line: "\<And>s. fed 3 n s (parseline n s)"
  shows "fed 0 (Suc n) s (parseblock (Suc n) s)"
proof -
  obtain s1 b where 1: "peek s ''('' = (s1, b)" by fastforce
  obtain t w s2 where 2: "gettoken s1 = (t, w, s2)" by (metis prod_cases3)
  show ?thesis
  proof (cases b)
    case b: True
    have le: "length s2 < length s" using token_less [of s "''(''" s1 t w s2] 1 2 b by simp
    show ?thesis
    proof (cases "parseline n s2")
      case 3: (Parsed c s3)
      obtain s4 d where 4: "peek s3 '')'' = (s4, d)" by fastforce
      obtain t w s5 where 5: "gettoken s4 = (t, w, s5)" by (metis prod_cases3)
      show ?thesis
      proof (cases d)
        case True
        then have "length s5 < length s" using token_less [of s3 "'')''" s4 t w s5] line [of s2] 3 4 5 le by simp
        then show ?thesis
          using 1 2 3 4 5 b True parseredirs_ok [of c s5] by (cases "parseredirs c s5") auto
      qed (use 1 2 3 4 b in simp)
    qed (use 1 2 b le line [of s2] in auto)
  qed (use 1 in simp)
qed

lemma fed_all:
  "(\<forall>s. fed 3 n s (parseline n s)) \<and> (\<forall>s. fed 2 n s (parsepipe n s)) \<and>
   (\<forall>s. fed 1 n s (parseexec n s)) \<and> (\<forall>s. fed 0 n s (parseblock n s))"
proof (induction n)
  case (Suc n)
  then show ?case using fed_line fed_pipe fed_exec fed_block by blast
qed simp

text \<open>
  Claim C26.  The parser of the shell ends on every line: the recursion of \<open>parseline\<close>,
  \<open>parsepipe\<close>, \<open>parseexec\<close> and \<open>parseblock\<close> and their loops stop, with a command or with one of the
  error messages, and the bound on the recursion that the model has is never the reason.
\<close>

theorem parsecmd_terminates:
  "(\<exists>c buf. parsecmd b = Parsed (c, buf) []) \<or> (\<exists>msg. parsecmd b = Panics msg)"
proof -
  have "fed 3 (4 * length b + 4) b (parseline (4 * length b + 4) b)" using fed_all by blast
  then show ?thesis
    by (cases "parseline (4 * length b + 4) b") (auto simp: parsecmd_def Let_def split: prod.splits)
qed

subsection \<open>Printed commands are parsed back\<close>

text \<open>
  Commands as the user means them, and the line that denotes one: words are followed by a blank,
  and an operand that binds weaker than its operator is put in parentheses.
\<close>

datatype redirection = Input | Output | Append

datatype command =
    Run "string list"
  | Redirect command redirection string
  | Pipeline command command
  | Sequence command command
  | Background command

fun redir_args :: "redirection \<Rightarrow> int \<times> int" where
  "redir_args Input = (O_RDONLY_u, 0)"
| "redir_args Output = (O_WRONLY_u + O_CREATE_u + O_TRUNC_u, 1)"
| "redir_args Append = (O_WRONLY_u + O_CREATE_u, 1)"

fun arrow :: "redirection \<Rightarrow> string" where
  "arrow Input = ''<''"
| "arrow Output = ''>''"
| "arrow Append = ''>>''"

definition show_word :: "string \<Rightarrow> string" where
  "show_word w = w @ '' ''"

definition show_redir :: "redirection \<times> string \<Rightarrow> string" where
  "show_redir kf = arrow (fst kf) @ show_word (snd kf)"

fun rank_of :: "command \<Rightarrow> nat" where
  "rank_of (Run _) = 0"
| "rank_of (Redirect _ _ _) = 0"
| "rank_of (Pipeline _ _) = 1"
| "rank_of (Background _) = 2"
| "rank_of (Sequence _ _) = 3"

definition paren :: "nat \<Rightarrow> command \<Rightarrow> string \<Rightarrow> string" where
  "paren k a t = (if rank_of a \<le> k then t else ''('' @ t @ '')'')"

fun show_cmd :: "command \<Rightarrow> string" where
  "show_cmd (Run ws) = concat (map show_word ws)"
| "show_cmd (Redirect a k f) = paren 0 a (show_cmd a) @ show_redir (k, f)"
| "show_cmd (Pipeline a b) = paren 0 a (show_cmd a) @ ''|'' @ paren 1 b (show_cmd b)"
| "show_cmd (Background a) = paren 2 a (show_cmd a) @ ''&''"
| "show_cmd (Sequence a b) = paren 2 a (show_cmd a) @ '';'' @ show_cmd b"

definition good_word :: "string \<Rightarrow> bool" where
  "good_word w \<longleftrightarrow> w \<noteq> [] \<and> list_all word_char w \<and> NUL \<notin> set w"

fun good_cmd :: "command \<Rightarrow> bool" where
  "good_cmd (Run ws) \<longleftrightarrow> list_all good_word ws \<and> length ws < MAXARGS"
| "good_cmd (Redirect a k f) \<longleftrightarrow> good_cmd a \<and> good_word f"
| "good_cmd (Pipeline a b) \<longleftrightarrow> good_cmd a \<and> good_cmd b"
| "good_cmd (Background a) \<longleftrightarrow> good_cmd a"
| "good_cmd (Sequence a b) \<longleftrightarrow> good_cmd a \<and> good_cmd b"

text \<open>The text of a token, and that a parsed tree is the one of a command.\<close>

definition text_of :: "token \<Rightarrow> string" where
  "text_of w = take (length (fst w) - length (snd w)) (fst w)"

fun denotes :: "cmd \<Rightarrow> command \<Rightarrow> bool" where
  "denotes (EXEC argv) (Run ws) \<longleftrightarrow> map text_of argv = ws"
| "denotes (REDIR c w m fd) (Redirect a k f) \<longleftrightarrow> denotes c a \<and> text_of w = f \<and> (m, fd) = redir_args k"
| "denotes (PIPE c d) (Pipeline a b) \<longleftrightarrow> denotes c a \<and> denotes d b"
| "denotes (LIST c d) (Sequence a b) \<longleftrightarrow> denotes c a \<and> denotes d b"
| "denotes (BACK c) (Background a) \<longleftrightarrow> denotes c a"
| "denotes _ _ \<longleftrightarrow> False"

text \<open>What follows a phrase: nothing, or after blanks one of the symbols \<open>toks\<close>.\<close>

definition stops :: "string \<Rightarrow> string \<Rightarrow> bool" where
  "stops toks r \<longleftrightarrow> (case skip_white r of [] \<Rightarrow> True | c # _ \<Rightarrow> c \<in> set toks)"

lemma skip_white_blank [simp]: "skip_white (CHR '' '' # r) = skip_white r"
  by (simp add: skip_white_def whitespace_def)

lemma word_first:
  assumes "good_word w"
  obtains c v where "w = c # v" and "skip_white (w @ r) = w @ r" and "word_char c" and "c \<noteq> NUL"
    and "c \<notin> set ''|();&<''" and "c \<noteq> CHR ''>''"
proof -
  obtain c v where w: "w = c # v" and c: "word_char c" "c \<noteq> NUL"
    using assms by (cases w) (auto simp: good_word_def)
  have "c \<notin> set whitespace" "c \<notin> set symbols" using c by (simp_all add: word_char_def)
  then show thesis using that [of c v] w c by (auto simp: skip_white_def symbols_def)
qed

lemma gettoken_word:
  assumes "good_word w"
  shows "gettoken (show_word w @ r) = (CHR ''a'', (show_word w @ r, CHR '' '' # r), skip_white r)"
proof -
  obtain c v where w: "w = c # v" and sk: "skip_white (w @ CHR '' '' # r) = w @ CHR '' '' # r" and c: "word_char c" "c \<noteq> NUL"
    "c \<notin> set ''|();&<''" "c \<noteq> CHR ''>''" using word_first [OF assms] by metis
  have "dropWhile word_char (w @ CHR '' '' # r) = CHR '' '' # r"
    using assms by (subst dropWhile_append2) (auto simp: good_word_def list_all_iff word_char_def whitespace_def)
  then show ?thesis using w sk c by (simp add: gettoken_def Let_def show_word_def)
qed

lemma text_of_word [simp]: "text_of (show_word w @ r, CHR '' '' # r) = w"
  by (simp add: text_of_def show_word_def)

lemma peek_word:
  assumes "good_word w" and "set toks \<subseteq> set symbols"
  shows "peek (show_word w @ r) toks = (show_word w @ r, False)"
proof -
  obtain c v where w: "w = c # v" and sk: "skip_white (w @ CHR '' '' # r) = w @ CHR '' '' # r" and c: "word_char c"
    using word_first [OF assms(1)] by metis
  then show ?thesis using assms(2) by (auto simp: peek_def Let_def show_word_def word_char_def)
qed

lemma peek_stops: "stops toks r \<Longrightarrow> set toks \<inter> set others = {} \<Longrightarrow> peek r others = (skip_white r, False)"
  by (auto simp: peek_def Let_def stops_def split: list.splits)

lemma peek_skip [simp]: "peek (skip_white r) toks = peek r toks"
  by (simp add: peek_def)

lemma gettoken_skip [simp]: "gettoken (skip_white r) = gettoken r"
  by (simp add: gettoken_def)

lemma peek_symbol:
  "c \<in> set symbols \<Longrightarrow> peek (c # r) toks = (c # r, c \<in> set toks)"
  by (auto simp: peek_def Let_def skip_white_def symbols_def whitespace_def NUL_def)

lemma gettoken_symbol: "c \<in> set ''|();&<'' \<Longrightarrow> gettoken (c # r) = (c, (c # r, r), skip_white r)"
  by (auto simp: gettoken_def Let_def skip_white_def whitespace_def NUL_def)

lemma parseredirs_stop: "peek s ''<>'' = (s', False) \<Longrightarrow> parseredirs c s = Parsed c s'"
  by (subst parseredirs.simps) simp

lemma parseredirs_one:
  assumes "good_word f"
  shows "parseredirs c (show_redir (k, f) @ r) =
    parseredirs (REDIR c (show_word f @ r, CHR '' '' # r) (fst (redir_args k)) (snd (redir_args k))) (skip_white r)"
proof -
  obtain x v where f: "f = x # v" "skip_white (f @ CHR '' '' # r) = f @ CHR '' '' # r" "x \<noteq> CHR ''>''"
    using word_first [OF assms] by metis
  obtain y t where first: "show_redir (k, f) @ r = y # t" and y: "y \<in> set ''<>''"
    by (cases k) (auto simp: show_redir_def)
  have "y \<in> set symbols" using y by (auto simp: symbols_def)
  then have p: "peek (show_redir (k, f) @ r) ''<>'' = (show_redir (k, f) @ r, True)"
    using peek_symbol [of y t "''<>''"] first y by simp
  define tok where "tok = (case k of Input \<Rightarrow> CHR ''<'' | Output \<Rightarrow> CHR ''>'' | Append \<Rightarrow> CHR ''+'')"
  have "\<exists>w. gettoken (show_redir (k, f) @ r) = (tok, w, show_word f @ r)"
    using f by (cases k)
      (simp_all add: tok_def gettoken_def Let_def show_redir_def show_word_def skip_white_def whitespace_def NUL_def)
  then obtain w where t1: "gettoken (show_redir (k, f) @ r) = (tok, w, show_word f @ r)" ..
  show ?thesis
    by (subst parseredirs.simps, simp only: p t1 gettoken_word [OF assms] Let_def prod.case, cases k)
      (simp_all add: tok_def)
qed

lemma parseredirs_skip [simp]: "parseredirs c (skip_white r) = parseredirs c r"
  by (subst (1 2) parseredirs.simps) simp

fun redirect_all :: "command \<Rightarrow> (redirection \<times> string) list \<Rightarrow> command" where
  "redirect_all a [] = a"
| "redirect_all a ((k, f) # rs) = redirect_all (Redirect a k f) rs"

definition good_redirs :: "(redirection \<times> string) list \<Rightarrow> bool" where
  "good_redirs rs \<longleftrightarrow> (\<forall>kf\<in>set rs. good_word (snd kf))"

definition show_redirs :: "(redirection \<times> string) list \<Rightarrow> string" where
  "show_redirs rs = concat (map show_redir rs)"

lemma parseredirs_all:
  assumes "good_redirs rs" and "peek r ''<>'' = (skip_white r, False)" and "denotes c a"
  shows "\<exists>c'. parseredirs c (show_redirs rs @ r) = Parsed c' (skip_white r) \<and> denotes c' (redirect_all a rs)"
  using assms
proof (induction rs arbitrary: c a)
  case Nil
  then show ?case by (auto simp: show_redirs_def intro: parseredirs_stop)
next
  case (Cons kf rs)
  obtain k f where kf: "kf = (k, f)" by fastforce
  have "good_word f" using Cons.prems(1) kf by (simp add: good_redirs_def)
  note one = parseredirs_one [OF this, of c k "show_redirs rs @ r"]
  let ?d = "REDIR c (show_word f @ show_redirs rs @ r, CHR '' '' # show_redirs rs @ r) (fst (redir_args k)) (snd (redir_args k))"
  have "\<exists>c'. parseredirs ?d (show_redirs rs @ r) = Parsed c' (skip_white r) \<and> denotes c' (redirect_all (Redirect a k f) rs)"
    using Cons.IH [of ?d "Redirect a k f"] Cons.prems by (simp add: good_redirs_def)
  then show ?case using one by (simp add: kf show_redirs_def)
qed

lemma denotes_fill:
  "denotes c (redirect_all (Run ws) rs) \<Longrightarrow> denotes (fill argv c) (redirect_all (Run (map text_of argv)) rs)"
proof (induction rs arbitrary: c rule: rev_induct)
  case Nil
  then show ?case by (cases c) auto
next
  case (snoc kf rs)
  have app: "redirect_all a (rs @ [kf]) = Redirect (redirect_all a rs) (fst kf) (snd kf)" for a
    by (induction rs arbitrary: a) (cases kf, auto)
  show ?case using snoc by (cases c) (auto simp: app)
qed

lemma parseexec_loop_end:
  assumes "stops ''|)&;'' r"
  shows "parseexec_loop argv c (skip_white r) = Parsed (fill argv c) (skip_white r)"
proof (cases "skip_white r")
  case Nil
  then have "peek [] ''|)&;'' = ([], False)" and "gettoken [] = (NUL, ([], []), [])"
    by (simp_all add: peek_def gettoken_def) (simp_all add: skip_white_def)
  then show ?thesis using Nil by (subst parseexec_loop.simps) simp
next
  case (Cons x t)
  then have "x \<in> set ''|)&;''" using assms by (simp add: stops_def)
  then have "peek (skip_white r) ''|)&;'' = (skip_white r, True)"
    using Cons peek_symbol [of x t "''|)&;''"] by (auto simp: symbols_def)
  then show ?thesis by (subst parseexec_loop.simps) simp
qed

lemma parseexec_words:
  assumes "list_all good_word ws" and "good_redirs rs" and "stops ''|)&;'' r" and "length argv + length ws < MAXARGS"
  shows "\<exists>c s' c'. parseredirs (EXEC []) (concat (map show_word ws) @ show_redirs rs @ r) = Parsed c s' \<and>
    parseexec_loop argv c s' = Parsed c' (skip_white r) \<and>
    denotes c' (redirect_all (Run (map text_of argv @ ws)) rs)"
  using assms
proof (induction ws arbitrary: argv)
  case Nil
  have "peek r ''<>'' = (skip_white r, False)" using Nil peek_stops [of "''|)&;''" r "''<>''"] by simp
  then obtain c where "parseredirs (EXEC []) (show_redirs rs @ r) = Parsed c (skip_white r)"
    and "denotes c (redirect_all (Run []) rs)"
    using parseredirs_all [of rs r "EXEC []" "Run []"] Nil by auto
  then show ?case using parseexec_loop_end [OF Nil(3), of argv c] denotes_fill [of c "[]" rs argv] by simp
next
  case (Cons w ws)
  let ?rest = "concat (map show_word ws) @ show_redirs rs @ r"
  let ?w = "(show_word w @ ?rest, CHR '' '' # ?rest)"
  have w: "good_word w" using Cons.prems by simp
  have p: "peek (show_word w @ ?rest) ''<>'' = (show_word w @ ?rest, False)"
    "peek (show_word w @ ?rest) ''|)&;'' = (show_word w @ ?rest, False)"
    by (rule peek_word [OF w], simp add: symbols_def)+
  obtain c s' c' where IH: "parseredirs (EXEC []) ?rest = Parsed c s'" "parseexec_loop (argv @ [?w]) c s' = Parsed c' (skip_white r)"
    "denotes c' (redirect_all (Run (map text_of (argv @ [?w]) @ ws)) rs)"
    using Cons.IH [of "argv @ [?w]"] Cons.prems by auto
  have "parseexec_loop argv (EXEC []) (show_word w @ ?rest) = Parsed c' (skip_white r)"
    using IH(1,2) Cons.prems(4)
    by (subst parseexec_loop.simps) (simp add: p gettoken_word [OF w] NUL_def)
  then show ?case using IH(3) parseredirs_stop [OF p(1), of "EXEC []"] by simp
qed

text \<open>
  The four parsers on the text \<open>t\<close> of a command \<open>a\<close>, whatever follows that ends the phrase.  Only
  \<open>parseexec\<close> may be followed by redirections, which it puts around the command.
\<close>

definition reads_exec :: "string \<Rightarrow> command \<Rightarrow> bool" where
  "reads_exec t a \<longleftrightarrow> (\<forall>n rs r. good_redirs rs \<and> stops ''|)&;'' r \<and> 4 * length (t @ show_redirs rs @ r) + 1 < n \<longrightarrow>
     (\<exists>c. parseexec n (t @ show_redirs rs @ r) = Parsed c (skip_white r) \<and> denotes c (redirect_all a rs)))"

definition reads_pipe :: "string \<Rightarrow> command \<Rightarrow> bool" where
  "reads_pipe t a \<longleftrightarrow> (\<forall>n r. stops '')&;'' r \<and> 4 * length (t @ r) + 2 < n \<longrightarrow>
     (\<exists>c. parsepipe n (t @ r) = Parsed c (skip_white r) \<and> denotes c a))"

definition reads_back :: "string \<Rightarrow> command \<Rightarrow> bool" where
  "reads_back t a \<longleftrightarrow> (\<forall>n r. stops '')&;'' r \<and> 4 * length (t @ r) + 2 < n \<longrightarrow>
     (\<exists>c c1 s1. parsepipe n (t @ r) = Parsed c1 s1 \<and> back_loop c1 s1 = back_loop c (skip_white r) \<and> denotes c a))"

definition reads_line :: "string \<Rightarrow> command \<Rightarrow> bool" where
  "reads_line t a \<longleftrightarrow> (\<forall>n r. stops '')'' r \<and> 4 * length (t @ r) + 3 < n \<longrightarrow>
     (\<exists>c. parseline n (t @ r) = Parsed c (skip_white r) \<and> denotes c a))"

lemma stops_mono: "stops toks r \<Longrightarrow> set toks \<subseteq> set toks' \<Longrightarrow> stops toks' r"
  by (auto simp: stops_def split: list.splits)

lemma skip_symbol: "c \<in> set symbols \<Longrightarrow> skip_white (c # r) = c # r"
  by (auto simp: skip_white_def symbols_def whitespace_def)

lemma stops_symbol: "c \<in> set symbols \<Longrightarrow> c \<in> set toks \<Longrightarrow> stops toks (c # r)"
  by (simp add: stops_def skip_symbol)

lemma symbol_chars [simp]:
  "CHR ''|'' \<in> set symbols" "CHR ''('' \<in> set symbols" "CHR '')'' \<in> set symbols"
  "CHR '';'' \<in> set symbols" "CHR ''&'' \<in> set symbols"
  by (simp_all add: symbols_def)

lemma parse_skip [simp]:
  "parseexec n (skip_white s) = parseexec n s"
  "parsepipe n (skip_white s) = parsepipe n s"
  "parseline n (skip_white s) = parseline n s"
proof -
  have e: "parseexec k (skip_white s) = parseexec k s" for k by (cases k) simp_all
  have p: "parsepipe k (skip_white s) = parsepipe k s" for k by (cases k) (simp_all add: e)
  show "parseexec n (skip_white s) = parseexec n s" "parsepipe n (skip_white s) = parsepipe n s"
    "parseline n (skip_white s) = parseline n s"
    by (rule e, rule p, cases n) (simp_all add: p)
qed

lemma reads_run:
  assumes "list_all good_word ws" and "length ws < MAXARGS"
  shows "reads_exec (concat (map show_word ws)) (Run ws)"
  unfolding reads_exec_def
proof (intro allI impI; elim conjE)
  fix n rs r
  let ?s = "concat (map show_word ws) @ show_redirs rs @ r"
  assume rs: "good_redirs rs" and r: "stops ''|)&;'' r" and n: "4 * length ?s + 1 < n"
  obtain m where m: "n = Suc m" using n by (cases n) auto
  have "\<exists>b. peek ?s ''('' = (skip_white ?s, b) \<and> \<not> b"
  proof (cases ws)
    case (Cons w us)
    then have "peek ?s ''('' = (?s, False)" using peek_word [of w "''(''"] assms(1) by (simp add: symbols_def)
    then show ?thesis by (metis peek_def prod.inject)
  next
    case ws: Nil
    show ?thesis
    proof (cases rs)
      case Nil
      then show ?thesis using ws peek_stops [OF r, of "''(''"] by (intro exI [of _ False]) (simp add: show_redirs_def)
    next
      case (Cons kf ks)
      obtain y t where "show_redirs rs @ r = y # t" and "y \<in> set ''<>''"
        by (cases "fst kf") (auto simp: Cons show_redirs_def show_redir_def)
      then show ?thesis using ws peek_symbol [of y t "''(''"] by (auto simp: symbols_def skip_symbol)
    qed
  qed
  then show "\<exists>c. parseexec n ?s = Parsed c (skip_white r) \<and> denotes c (redirect_all (Run ws) rs)"
    using parseexec_words [of ws rs r "[]"] assms rs r m by auto
qed

lemma reads_redirect:
  assumes "reads_exec t a" and "good_word f"
  shows "reads_exec (t @ show_redir (k, f)) (Redirect a k f)"
  unfolding reads_exec_def
proof (intro allI impI; elim conjE)
  fix n rs r
  assume "good_redirs rs" "stops ''|)&;'' r" "4 * length ((t @ show_redir (k, f)) @ show_redirs rs @ r) + 1 < n"
  then show "\<exists>c. parseexec n ((t @ show_redir (k, f)) @ show_redirs rs @ r) = Parsed c (skip_white r) \<and>
      denotes c (redirect_all (Redirect a k f) rs)"
    using assms(1) [unfolded reads_exec_def, rule_format, of "(k, f) # rs" r n] assms(2)
    by (simp add: good_redirs_def show_redirs_def)
qed

lemma reads_block:
  assumes "reads_line t a"
  shows "reads_exec (''('' @ t @ '')'') a"
  unfolding reads_exec_def
proof (intro allI impI; elim conjE)
  fix n rs r
  let ?r = "show_redirs rs @ r"
  assume rs: "good_redirs rs" and r: "stops ''|)&;'' r" and n: "4 * length ((''('' @ t @ '')'') @ ?r) + 1 < n"
  obtain m where m: "n = Suc (Suc m)" using n by (cases n; cases "n - 1") auto
  obtain c where c: "parseline m (t @ CHR '')'' # ?r) = Parsed c (CHR '')'' # ?r)" "denotes c a"
    using assms [unfolded reads_line_def, rule_format, of "CHR '')'' # ?r" m] n m by (auto simp: stops_symbol skip_symbol)
  have p: "peek r ''<>'' = (skip_white r, False)" using peek_stops [OF r, of "''<>''"] by simp
  show "\<exists>c. parseexec n ((''('' @ t @ '')'') @ ?r) = Parsed c (skip_white r) \<and> denotes c (redirect_all a rs)"
    using parseredirs_all [OF rs p c(2)] c(1) m
    by (simp add: peek_symbol gettoken_symbol)
qed

lemma reads_exec_pipe:
  assumes "reads_exec t a"
  shows "reads_pipe t a"
  unfolding reads_pipe_def
proof (intro allI impI; elim conjE)
  fix n r
  assume r: "stops '')&;'' r" and n: "4 * length (t @ r) + 2 < n"
  obtain m where m: "n = Suc m" using n by (cases n) auto
  have p: "peek r ''|'' = (skip_white r, False)" using peek_stops [OF r, of "''|''"] by simp
  have "stops ''|)&;'' r" by (rule stops_mono [OF r]) simp
  then obtain c where "parseexec m (t @ r) = Parsed c (skip_white r)" "denotes c a"
    using assms [unfolded reads_exec_def, rule_format, of "[]" r m] n m by (auto simp: good_redirs_def show_redirs_def)
  then show "\<exists>c. parsepipe n (t @ r) = Parsed c (skip_white r) \<and> denotes c a" using p m by simp
qed

lemma reads_pipeline:
  assumes "reads_exec t a" and "reads_pipe u b"
  shows "reads_pipe (t @ ''|'' @ u) (Pipeline a b)"
  unfolding reads_pipe_def
proof (intro allI impI; elim conjE)
  fix n r
  let ?r = "CHR ''|'' # u @ r"
  assume r: "stops '')&;'' r" and n: "4 * length ((t @ ''|'' @ u) @ r) + 2 < n"
  obtain m where m: "n = Suc m" using n by (cases n) auto
  obtain c where c: "parseexec m (t @ ?r) = Parsed c ?r" "denotes c a"
    using assms(1) [unfolded reads_exec_def, rule_format, of "[]" ?r m] n m
    by (auto simp: good_redirs_def show_redirs_def stops_symbol skip_symbol)
  obtain d where d: "parsepipe m (u @ r) = Parsed d (skip_white r)" "denotes d b"
    using assms(2) [unfolded reads_pipe_def, rule_format, of r m] r n m by auto
  show "\<exists>c. parsepipe n ((t @ ''|'' @ u) @ r) = Parsed c (skip_white r) \<and> denotes c (Pipeline a b)"
    using c d m by (simp add: peek_symbol gettoken_symbol)
qed

lemma reads_pipe_back: "reads_pipe t a \<Longrightarrow> reads_back t a"
  unfolding reads_pipe_def reads_back_def by (intro allI impI) blast

lemma reads_background:
  assumes "reads_back t a"
  shows "reads_back (t @ ''&'') (Background a)"
  unfolding reads_back_def
proof (intro allI impI; elim conjE)
  fix n r
  assume "stops '')&;'' r" and n: "4 * length ((t @ ''&'') @ r) + 2 < n"
  obtain c c1 s1 where c: "parsepipe n (t @ CHR ''&'' # r) = Parsed c1 s1" "denotes c a"
    "back_loop c1 s1 = back_loop c (CHR ''&'' # r)"
    using assms [unfolded reads_back_def, rule_format, of "CHR ''&'' # r" n] n by (auto simp: stops_symbol skip_symbol)
  have "back_loop c (CHR ''&'' # r) = back_loop (BACK c) (skip_white r)"
    by (subst back_loop.simps) (simp add: peek_symbol gettoken_symbol)
  then show "\<exists>c c1 s1. parsepipe n ((t @ ''&'') @ r) = Parsed c1 s1 \<and>
      back_loop c1 s1 = back_loop c (skip_white r) \<and> denotes c (Background a)"
    using c by (intro exI [of _ "BACK c"] exI [of _ c1] exI [of _ s1]) simp
qed

lemma back_loop_stop: "peek r ''&'' = (skip_white r, False) \<Longrightarrow> back_loop c (skip_white r) = (c, skip_white r)"
  by (subst back_loop.simps) simp

lemma reads_back_line:
  assumes "reads_back t a"
  shows "reads_line t a"
  unfolding reads_line_def
proof (intro allI impI; elim conjE)
  fix n r
  assume r: "stops '')'' r" and n: "4 * length (t @ r) + 3 < n"
  obtain m where m: "n = Suc m" using n by (cases n) auto
  have p: "peek r ''&'' = (skip_white r, False)" "peek r '';'' = (skip_white r, False)"
    by (rule peek_stops [OF r], simp)+
  have "stops '')&;'' r" by (rule stops_mono [OF r]) simp
  then obtain c c1 s1 where "parsepipe m (t @ r) = Parsed c1 s1" "back_loop c1 s1 = back_loop c (skip_white r)" "denotes c a"
    using assms [unfolded reads_back_def, rule_format, of r m] n m by auto
  then show "\<exists>c. parseline n (t @ r) = Parsed c (skip_white r) \<and> denotes c a"
    using p m back_loop_stop [OF p(1), of c] by simp
qed

lemma reads_sequence:
  assumes "reads_back t a" and "reads_line u b"
  shows "reads_line (t @ '';'' @ u) (Sequence a b)"
  unfolding reads_line_def
proof (intro allI impI; elim conjE)
  fix n r
  let ?r = "CHR '';'' # u @ r"
  assume r: "stops '')'' r" and n: "4 * length ((t @ '';'' @ u) @ r) + 3 < n"
  obtain m where m: "n = Suc m" using n by (cases n) auto
  obtain c c1 s1 where c: "parsepipe m (t @ ?r) = Parsed c1 s1" "back_loop c1 s1 = back_loop c ?r" "denotes c a"
    using assms(1) [unfolded reads_back_def, rule_format, of ?r m] n m by (auto simp: stops_symbol skip_symbol)
  have "back_loop c ?r = (c, ?r)" using back_loop_stop [of ?r c] by (simp add: peek_symbol skip_symbol)
  moreover obtain d where "parseline m (u @ r) = Parsed d (skip_white r)" "denotes d b"
    using assms(2) [unfolded reads_line_def, rule_format, of r m] r n m by auto
  ultimately show "\<exists>c. parseline n ((t @ '';'' @ u) @ r) = Parsed c (skip_white r) \<and> denotes c (Sequence a b)"
    using c m by (simp add: peek_symbol gettoken_symbol)
qed

lemma reads_cmd:
  "good_cmd a \<Longrightarrow> reads_line (show_cmd a) a \<and> (rank_of a \<le> 2 \<longrightarrow> reads_back (show_cmd a) a) \<and>
     (rank_of a \<le> 1 \<longrightarrow> reads_pipe (show_cmd a) a) \<and> reads_exec (paren 0 a (show_cmd a)) a"
proof (induction a)
  case (Run ws)
  then show ?case using reads_run [of ws]
    by (simp add: paren_def reads_exec_pipe reads_pipe_back reads_back_line)
next
  case (Redirect a k f)
  then show ?case using reads_redirect [of "paren 0 a (show_cmd a)" a f k]
    by (simp add: paren_def [of _ "Redirect a k f"] reads_exec_pipe reads_pipe_back reads_back_line)
next
  case (Pipeline a b)
  then have "reads_pipe (paren 1 b (show_cmd b)) b"
    using reads_exec_pipe [of "paren 0 b (show_cmd b)" b] by (auto simp: paren_def split: if_splits)
  then have "reads_pipe (show_cmd (Pipeline a b)) (Pipeline a b)" using Pipeline reads_pipeline by simp
  then show ?case using reads_block [of "show_cmd (Pipeline a b)" "Pipeline a b"]
    by (simp add: paren_def [of _ "Pipeline a b"] reads_pipe_back reads_back_line)
next
  case (Sequence a b)
  then have "reads_back (paren 2 a (show_cmd a)) a"
    using reads_pipe_back reads_exec_pipe [of "paren 0 a (show_cmd a)" a] by (auto simp: paren_def split: if_splits)
  then have "reads_line (show_cmd (Sequence a b)) (Sequence a b)" using Sequence reads_sequence by simp
  then show ?case using reads_block [of "show_cmd (Sequence a b)" "Sequence a b"]
    by (simp add: paren_def [of _ "Sequence a b"])
next
  case (Background a)
  then have "reads_back (paren 2 a (show_cmd a)) a"
    using reads_pipe_back reads_exec_pipe [of "paren 0 a (show_cmd a)" a] by (auto simp: paren_def split: if_splits)
  then have "reads_back (show_cmd (Background a)) (Background a)" using reads_background by simp
  then show ?case using reads_block [of "show_cmd (Background a)" "Background a"]
    by (simp add: paren_def [of _ "Background a"] reads_back_line)
qed

subsection \<open>The tokens are terminated\<close>

fun tokens :: "cmd \<Rightarrow> token set" where
  "tokens (EXEC argv) = set argv"
| "tokens (REDIR c w m fd) = insert w (tokens c)"
| "tokens (PIPE c d) = tokens c \<union> tokens d"
| "tokens (LIST c d) = tokens c \<union> tokens d"
| "tokens (BACK c) = tokens c"

text \<open>The C string at the pointer \<^verbatim>\<open>q\<close> of a token, in a buffer of which \<^verbatim>\<open>es\<close> is the end.\<close>

definition word_at :: "string \<Rightarrow> token \<Rightarrow> string" where
  "word_at buf w = takeWhile (\<lambda>c. c \<noteq> NUL) (drop (length buf - length (fst w)) buf)"

definition word_in :: "string \<Rightarrow> token \<Rightarrow> bool" where
  "word_in b w \<longleftrightarrow> suffix (fst w) b \<and>
     (\<exists>t. fst w = t @ snd w \<and> list_all word_char t \<and> (snd w = [] \<or> \<not> word_char (hd (snd w))))"

definition sound :: "string \<Rightarrow> string \<Rightarrow> cmd parse \<Rightarrow> bool" where
  "sound b s r \<longleftrightarrow> (suffix s b \<longrightarrow> (\<forall>c s'. r = Parsed c s' \<longrightarrow> suffix s' b \<and> (\<forall>w\<in>tokens c. word_in b w)))"

lemma sound_simps [simp]: "sound b s (Panics msg)" "sound b s Starved"
  "sound b s (Parsed c s') \<longleftrightarrow> (suffix s b \<longrightarrow> suffix s' b \<and> (\<forall>w\<in>tokens c. word_in b w))"
  by (simp_all add: sound_def)

lemma suffix_skip [intro, simp]: "suffix s b \<Longrightarrow> suffix (skip_white s) b"
  unfolding skip_white_def using suffix_dropWhile suffix_order.trans by blast

lemma peek_suffix: "peek s toks = (s', m) \<Longrightarrow> suffix s b \<Longrightarrow> suffix s' b"
  by (auto simp: peek_def Let_def)

lemma gettoken_suffix:
  assumes "gettoken s = (t, w, s')" and "suffix s b"
  shows "suffix s' b"
proof -
  have q: "suffix (skip_white s) b" using assms(2) by blast
  then have tl: "suffix r b" if "skip_white s = c # r" for c r using that suffix_ConsD by metis
  have "suffix (dropWhile word_char (skip_white s)) b" using q suffix_dropWhile suffix_order.trans by blast
  then show ?thesis using assms(1) q tl
    by (auto simp: gettoken_def Let_def split: list.splits if_splits dest: suffix_ConsD)
qed

lemma gettoken_word_in:
  assumes "gettoken s = (CHR ''a'', w, s')" and "suffix s b"
  shows "word_in b w"
proof -
  have w: "w = (skip_white s, dropWhile word_char (skip_white s))"
    using assms(1) by (auto simp: gettoken_def Let_def NUL_def split: list.splits if_splits)
  have "dropWhile word_char q = [] \<or> \<not> word_char (hd (dropWhile word_char q))" for q
    using hd_dropWhile by blast
  moreover have "list_all word_char (takeWhile word_char q)" for q
    using set_takeWhileD by (fastforce simp: list_all_iff)
  ultimately show ?thesis unfolding word_in_def w using assms(2) by (auto intro!: exI [of _ "takeWhile word_char (skip_white s)"])
qed

lemma sound_trans: "sound b s' r \<Longrightarrow> (suffix s b \<Longrightarrow> suffix s' b) \<Longrightarrow> sound b s r"
  unfolding sound_def by blast

lemma parseredirs_sound: "\<forall>w\<in>tokens c. word_in b w \<Longrightarrow> sound b s (parseredirs c s)"
proof (induction c s rule: parseredirs.induct)
  case (1 c ps)
  obtain s found where p: "peek ps ''<>'' = (s, found)" by fastforce
  obtain tok w0 s1 where t1: "gettoken s = (tok, w0, s1)" by (metis prod_cases3)
  obtain t w s2 where t2: "gettoken s1 = (t, w, s2)" by (metis prod_cases3)
  have s1: "suffix ps b \<Longrightarrow> suffix s1 b" using peek_suffix [OF p] gettoken_suffix [OF t1] by blast
  let ?d = "if tok = CHR ''<'' then REDIR c w O_RDONLY_u 0
    else if tok = CHR ''>'' then REDIR c w (O_WRONLY_u + O_CREATE_u + O_TRUNC_u) 1
    else if tok = CHR ''+'' then REDIR c w (O_WRONLY_u + O_CREATE_u) 1 else c"
  have eq: "parseredirs c ps =
      (if \<not> found then Parsed c s
       else if t \<noteq> CHR ''a'' then Panics ''missing file for redirection'' else parseredirs ?d s2)"
    by (subst parseredirs.simps) (simp add: p t1 t2)
  show ?case
  proof (cases "suffix ps b \<and> found \<and> t = CHR ''a''")
    case True
    then have w: "word_in b w" "suffix s2 b" using gettoken_word_in [of s1 w s2 b] gettoken_suffix [OF t2] s1 t2 by simp_all
    have "\<forall>w\<in>tokens ?d. word_in b w" using w(1) 1(2) by simp
    then have "sound b s2 (parseredirs ?d s2)"
      using 1(1) [unfolded redircmd_def, OF refl p [symmetric] _ refl t1 [symmetric] refl refl t2 [symmetric] refl] True by blast
    then show ?thesis unfolding eq using True w(2) by (simp add: sound_def)
  next
    case False
    then show ?thesis unfolding eq using peek_suffix [OF p] 1(2) by (cases "suffix ps b") (simp_all add: sound_def)
  qed
qed

lemma tokens_fill: "tokens (fill argv c) \<subseteq> set argv \<union> tokens c"
  by (induction argv c rule: fill.induct) auto

lemma parseexec_loop_sound:
  "\<forall>w\<in>set argv \<union> tokens c. word_in b w \<Longrightarrow> sound b s (parseexec_loop argv c s)"
proof (induction argv c s rule: parseexec_loop.induct)
  case (1 argv c ps)
  obtain s stop where p: "peek ps ''|)&;'' = (s, stop)" by fastforce
  obtain tok w s1 where t: "gettoken s = (tok, w, s1)" by (metis prod_cases3)
  have s: "suffix ps b \<Longrightarrow> suffix s b \<and> suffix s1 b" using peek_suffix [OF p] gettoken_suffix [OF t] by blast
  have fin: "\<forall>w\<in>tokens (fill argv c). word_in b w" using 1(2) tokens_fill [of argv c] by blast
  have eq: "parseexec_loop argv c ps =
      (if stop then Parsed (fill argv c) s else if tok = NUL then Parsed (fill argv c) s1
       else if tok \<noteq> CHR ''a'' then Panics ''syntax'' else if length (argv @ [w]) \<ge> MAXARGS then Panics ''too many args''
       else case parseredirs c s1 of Parsed c' s2 \<Rightarrow> parseexec_loop (argv @ [w]) c' s2 | Panics msg \<Rightarrow> Panics msg | Starved \<Rightarrow> Starved)"
    by (subst parseexec_loop.simps) (simp add: p t)
  show ?case
  proof (cases "suffix ps b \<and> \<not> stop \<and> tok = CHR ''a'' \<and> length (argv @ [w]) < MAXARGS")
    case True
    then have w: "word_in b w" using gettoken_word_in [of s w s1 b] t s by simp
    have r: "sound b s1 (parseredirs c s1)" using parseredirs_sound 1(2) by blast
    show ?thesis
    proof (cases "parseredirs c s1")
      case (Parsed c' s2)
      then have "suffix s2 b" "\<forall>w\<in>tokens c'. word_in b w" using r s True by (simp_all add: sound_def)
      moreover from this have "\<forall>x\<in>set argv \<union> tokens c'. word_in b x" using 1(2) by blast
      then have "sound b s2 (parseexec_loop (argv @ [w]) c' s2)"
        using 1(1) [OF refl p [symmetric] _ refl t [symmetric] refl] 1(2) w True Parsed by (simp add: NUL_def)
      ultimately show ?thesis unfolding eq using True Parsed by (simp add: sound_def NUL_def)
    qed (use True eq in \<open>simp_all add: NUL_def\<close>)
  next
    case False
    then show ?thesis unfolding eq using s fin
      by (cases "suffix ps b"; cases stop; cases "tok = CHR ''a''") (simp_all add: sound_def not_less)
  qed
qed

lemma back_loop_sound:
  "back_loop c s = (c', s') \<Longrightarrow> (suffix s b \<longrightarrow> suffix s' b) \<and> tokens c' = tokens c"
proof (induction c s rule: back_loop.induct)
  case (1 c ps)
  obtain s found where p: "peek ps ''&'' = (s, found)" by fastforce
  obtain t w s1 where t: "gettoken s = (t, w, s1)" by (metis prod_cases3)
  have eq: "back_loop c ps = (if found then back_loop (BACK c) s1 else (c, s))"
    by (subst back_loop.simps) (simp add: p t)
  have s: "suffix ps b \<Longrightarrow> suffix s b \<and> suffix s1 b" using peek_suffix [OF p] gettoken_suffix [OF t] by blast
  show ?case
  proof (cases found)
    case True
    then have "(suffix s1 b \<longrightarrow> suffix s' b) \<and> tokens c' = tokens (BACK c)"
      using 1(1) [OF refl p [symmetric] _ refl t [symmetric] refl] 1(2) eq by simp
    then show ?thesis using s by simp
  next
    case False
    then show ?thesis using 1(2) eq s by simp
  qed
qed

lemma sound_line:
  assumes pipe: "\<And>s. sound b s (parsepipe n s)" and line: "\<And>s. sound b s (parseline n s)"
  shows "sound b s (parseline (Suc n) s)"
proof (cases "suffix s b")
  case s: True
  show ?thesis
  proof (cases "parsepipe n s")
    case 1: (Parsed c1 s1)
    obtain c2 s2 where 2: "back_loop c1 s1 = (c2, s2)" by fastforce
    obtain s3 found where 3: "peek s2 '';'' = (s3, found)" by fastforce
    obtain t w s4 where 4: "gettoken s3 = (t, w, s4)" by (metis prod_cases3)
    have c1: "suffix s1 b" "\<forall>w\<in>tokens c1. word_in b w" using pipe [of s] s 1 by simp_all
    then have "suffix s2 b" "tokens c2 = tokens c1" using back_loop_sound [OF 2, of b] by simp_all
    then have "suffix s3 b" "suffix s4 b" "\<forall>w\<in>tokens c2. word_in b w"
      using peek_suffix [OF 3, of b] gettoken_suffix [OF 4, of b] c1 by simp_all
    then show ?thesis using line [of s4] 1 2 3 4 s by (cases "parseline n s4") auto
  qed simp_all
qed (simp add: sound_def)

lemma sound_pipe:
  assumes exc: "\<And>s. sound b s (parseexec n s)" and pipe: "\<And>s. sound b s (parsepipe n s)"
  shows "sound b s (parsepipe (Suc n) s)"
proof (cases "suffix s b")
  case s: True
  show ?thesis
  proof (cases "parseexec n s")
    case 1: (Parsed c1 s1)
    obtain s3 found where 3: "peek s1 ''|'' = (s3, found)" by fastforce
    obtain t w s4 where 4: "gettoken s3 = (t, w, s4)" by (metis prod_cases3)
    have c1: "suffix s1 b" "\<forall>w\<in>tokens c1. word_in b w" using exc [of s] s 1 by simp_all
    then have "suffix s3 b" "suffix s4 b"
      using peek_suffix [OF 3, of b] gettoken_suffix [OF 4, of b] by simp_all
    then show ?thesis using pipe [of s4] 1 3 4 s c1 by (cases "parsepipe n s4") auto
  qed simp_all
qed (simp add: sound_def)

lemma sound_exec:
  assumes block: "\<And>s. sound b s (parseblock n s)"
  shows "sound b s (parseexec (Suc n) s)"
proof -
  obtain s1 m where 1: "peek s ''('' = (s1, m)" by fastforce
  have "sound b s1 (parseexec (Suc n) s)"
  proof (cases "parseredirs (EXEC []) s1")
    case 2: (Parsed c s2)
    then have "suffix s1 b \<longrightarrow> suffix s2 b \<and> (\<forall>w\<in>tokens c. word_in b w)" using parseredirs_sound [of "EXEC []" b s1] by simp
    then show ?thesis using 1 2 block [of s1] parseexec_loop_sound [of "[]" c b s2]
      by (cases "suffix s1 b") (simp_all add: sound_def)
  qed (use 1 block [of s1] in simp_all)
  then show ?thesis using sound_trans peek_suffix [OF 1] by blast
qed

lemma sound_block:
  assumes line: "\<And>s. sound b s (parseline n s)"
  shows "sound b s (parseblock (Suc n) s)"
proof -
  obtain s1 m where 1: "peek s ''('' = (s1, m)" by fastforce
  obtain t w s2 where 2: "gettoken s1 = (t, w, s2)" by (metis prod_cases3)
  have "sound b s2 (parseblock (Suc n) s)"
  proof (cases "parseline n s2")
    case 3: (Parsed c s3)
    obtain s4 d where 4: "peek s3 '')'' = (s4, d)" by fastforce
    obtain t w s5 where 5: "gettoken s4 = (t, w, s5)" by (metis prod_cases3)
    have "suffix s2 b \<longrightarrow> suffix s5 b \<and> (\<forall>w\<in>tokens c. word_in b w)"
      using line [of s2] 3 peek_suffix [OF 4, of b] gettoken_suffix [OF 5, of b] by simp
    then have "sound b s2 (parseredirs c s5)"
      using parseredirs_sound [of c b s5] by (cases "suffix s2 b") (simp_all add: sound_def)
    then show ?thesis using 1 2 3 4 5 by simp
  qed (use 1 2 in simp_all)
  moreover have "suffix s b \<Longrightarrow> suffix s2 b" using peek_suffix [OF 1] gettoken_suffix [OF 2] by blast
  ultimately show ?thesis using sound_trans by blast
qed

lemma sound_all:
  "(\<forall>s. sound b s (parseline n s)) \<and> (\<forall>s. sound b s (parsepipe n s)) \<and>
   (\<forall>s. sound b s (parseexec n s)) \<and> (\<forall>s. sound b s (parseblock n s))"
proof (induction n)
  case (Suc n)
  then show ?case using sound_line [of b n] sound_pipe [of b n] sound_exec [of b n] sound_block [of b n] by blast
qed simp

text \<open>\<open>nulterminate\<close> writes a NUL at the end of every token and changes nothing else.\<close>

lemma nul_fold:
  "length (fold (nul_at len) ws buf) = length buf \<and>
   (\<forall>i<length buf. fold (nul_at len) ws buf ! i = (if \<exists>w\<in>set ws. i = len - length (snd w) then NUL else buf ! i))"
  by (induction ws arbitrary: buf) (auto simp: nul_at_def nth_list_update)

lemma nulterminate_exact:
  "length (nulterminate len c buf) = length buf \<and>
   (\<forall>i<length buf. nulterminate len c buf ! i = (if \<exists>w\<in>tokens c. i = len - length (snd w) then NUL else buf ! i))"
proof (induction c arbitrary: buf)
  case (EXEC argv)
  then show ?case using nul_fold [of len argv buf] by simp
next
  case (REDIR c w m f)
  note len = REDIR [THEN conjunct1] and nth = REDIR [THEN conjunct2, rule_format]
  have upd: "xs[j := NUL] ! i = (if i = j then NUL else xs ! i)" if "i < length xs" for xs :: string and i j
    using that by (simp add: nth_list_update)
  show ?case by (simp add: nul_at_def len) (auto simp: upd len nth)
next
  case (PIPE c d)
  note len = PIPE(1) [THEN conjunct1] PIPE(2) [THEN conjunct1]
    and nth = PIPE(1) [THEN conjunct2, rule_format] PIPE(2) [THEN conjunct2, rule_format]
  show ?case by (auto simp: len nth)
next
  case (LIST c d)
  note len = LIST(1) [THEN conjunct1] LIST(2) [THEN conjunct1]
    and nth = LIST(1) [THEN conjunct2, rule_format] LIST(2) [THEN conjunct2, rule_format]
  show ?case by (auto simp: len nth)
qed simp

lemma word_terminated:
  assumes w: "word_in b w" "w \<in> tokens c" and all: "\<forall>w\<in>tokens c. word_in b w" and b: "NUL \<notin> set b"
  shows "word_at (nulterminate (length b) c b) w = text_of w"
proof -
  let ?buf = "nulterminate (length b) c b"
  obtain p q e t where wq: "w = (q, e)" and bq: "b = p @ q" and q: "q = t @ e"
    and t: "list_all word_char t" using w(1) by (cases w) (auto simp: word_in_def suffix_def)
  have nth: "?buf ! i = (if \<exists>w\<in>tokens c. i = length b - length (snd w) then NUL else b ! i)" if "i < length b" for i
    using nulterminate_exact that by blast
  have keep: "?buf ! i = b ! i" if i: "i < length b" and ch: "word_char (b ! i)" for i
  proof -
    have False if v: "v \<in> tokens c" "i = length b - length (snd v)" for v
    proof -
      have end_v: "suffix (snd v) b" "snd v = [] \<or> \<not> word_char (hd (snd v))"
        using all v(1) by (auto simp: word_in_def suffix_def)
      have "snd v \<noteq> []" using v(2) i by auto
      moreover have "b ! i = hd (snd v)" using end_v(1) v(2) calculation by (auto simp: suffix_def nth_append hd_conv_nth)
      ultimately show False using end_v(2) ch by simp
    qed
    then show ?thesis using nth [OF i] by auto
  qed
  have len: "length ?buf = length b" using nulterminate_exact by blast
  have "drop (length p) ?buf ! i = t ! i" if "i < length t" for i
    using that keep [of "length p + i"] t len by (subst nth_drop) (simp_all add: bq q nth_append list_all_length)
  then have tk: "take (length t) (drop (length p) ?buf) = t"
    using len by (intro nth_equalityI) (auto simp: bq q)
  have "drop (length t) (drop (length p) ?buf) = [] \<or> hd (drop (length t) (drop (length p) ?buf)) = NUL"
  proof (cases e)
    case (Cons x e')
    have "?buf ! (length p + length t) = NUL" using nth [of "length p + length t"] w(2) by (auto simp: bq q wq Cons intro: bexI [of _ w])
    then show ?thesis using len by (auto simp: hd_drop_conv_nth bq q Cons add.commute)
  qed (use len in \<open>simp add: bq q\<close>)
  moreover have "takeWhile (\<lambda>c. c \<noteq> NUL) (t @ r) = t" if "r = [] \<or> hd r = NUL" for r
    using that b by (cases r) (auto simp: bq q takeWhile_tail)
  ultimately have "takeWhile (\<lambda>c. c \<noteq> NUL) (drop (length p) ?buf) = t"
    using tk append_take_drop_id [of "length t" "drop (length p) ?buf"] by metis
  then show ?thesis using len by (simp add: word_at_def text_of_def wq bq q)
qed

text \<open>
  Claim C27.  After a successful parse of a line, every token of the command is a C string in the
  buffer: from the pointer that the command holds to the first NUL there is exactly the text of
  the token.  So \<open>exec\<close> and \<open>open\<close> get the words that the user wrote, although all words share
  the one buffer.
\<close>

theorem parsecmd_terminates_tokens:
  assumes "parsecmd b = Parsed (c, buf) s" and "NUL \<notin> set b"
  shows "length buf = length b \<and> (\<forall>w\<in>tokens c. word_at buf w = text_of w)"
proof -
  obtain s' where p: "parseline (4 * length b + 4) b = Parsed c s'" and buf: "buf = nulterminate (length b) c b"
    using assms(1) that by (cases "parseline (4 * length b + 4) b") (simp_all add: parsecmd_def peek_def Let_def split: if_splits)
  have "sound b b (parseline (4 * length b + 4) b)" using sound_all by blast
  then have all: "\<forall>w\<in>tokens c. word_in b w" unfolding p by simp
  have "word_at buf w = text_of w" if "w \<in> tokens c" for w
    unfolding buf using that all assms(2) by (intro word_terminated) simp_all
  then show ?thesis using nulterminate_exact [of "length b" c b] buf by simp
qed

theorem parsecmd_terminates_tokens_witness:
  "word_at ([CHR ''l'', CHR ''s'', NUL, CHR ''a'', NUL]) (''ls a|'', '' a|'') = text_of (''ls a|'', '' a|'')"
proof -
  have "parsecmd ''ls a|'' = Parsed (PIPE (EXEC [(''ls a|'', '' a|''), (''a|'', ''|'')]) (EXEC []),
      [CHR ''l'', CHR ''s'', NUL, CHR ''a'', NUL]) []"
    by code_simp
  from parsecmd_terminates_tokens [OF this] show ?thesis by (simp add: NUL_def)
qed

subsection \<open>Running commands\<close>

definition panic_sh :: "string \<Rightarrow> prog" where
  "panic_sh s = Print 2 (s @ newline) (Exit 1)"

definition fork1 :: "(int \<Rightarrow> prog) \<Rightarrow> prog" where
  "fork1 k = Fork (\<lambda>pid. if pid = -1 then panic_sh ''fork'' else k pid)"

fun runcmd :: "string \<Rightarrow> cmd \<Rightarrow> prog" where
  "runcmd buf (EXEC argv) =
     (case argv of
        [] \<Rightarrow> Exit 1
      | w # _ \<Rightarrow>
          Exec (word_at buf w) (map (word_at buf) argv)
            (Print 2 (''exec '' @ word_at buf w @ '' failed'' @ newline) (Exit 0)))"
| "runcmd buf (REDIR c w mode fd) =
     Close fd (Open (word_at buf w) mode (\<lambda>r.
       if r < 0 then Print 2 (''open '' @ word_at buf w @ '' failed'' @ newline) (Exit 1)
       else runcmd buf c))"
| "runcmd buf (LIST l r) =
     fork1 (\<lambda>pid. if pid = 0 then runcmd buf l else Wait (\<lambda>_. runcmd buf r))"
| "runcmd buf (PIPE l r) =
     Pipe (\<lambda>res p0 p1.
       if res < 0 then panic_sh ''pipe''
       else fork1 (\<lambda>pid.
         if pid = 0 then Close 1 (Dup p1 (Close p0 (Close p1 (runcmd buf l))))
         else fork1 (\<lambda>pid.
           if pid = 0 then Close 0 (Dup p0 (Close p0 (Close p1 (runcmd buf r))))
           else Close p0 (Close p1 (Wait (\<lambda>_. Wait (\<lambda>_. Exit 0)))))))"
| "runcmd buf (BACK c) =
     fork1 (\<lambda>pid. if pid = 0 then runcmd buf c else Exit 0)"

text \<open>
  \<open>parse_buffer\<close> with what its caller does after it returns.  The line is the buffer up to its first
  NUL; the caller gets the buffer, in which \<^verbatim>\<open>cd\<close> has cut off the last character.
\<close>

definition run_line :: "string \<Rightarrow> prog" where
  "run_line b =
     (case parsecmd b of
        Parsed (c, buf) _ \<Rightarrow> runcmd buf c
      | Panics msg \<Rightarrow> panic_sh msg
      | Starved \<Rightarrow> Later)"

definition parse_buffer :: "string \<Rightarrow> (string \<Rightarrow> prog) \<Rightarrow> prog" where
  "parse_buffer buf k =
     (if NUL \<notin> set buf then Overrun
      else let b = takeWhile (\<lambda>c. c \<noteq> NUL) buf in
        if take 3 b = ''cd '' then
          (let buf' = buf[length b - 1 := NUL]; dir = drop 3 (butlast b) in
             Sys (Chdir dir) (\<lambda>r. if r < 0 then Print 2 (''cannot cd '' @ dir @ newline) (k buf') else k buf'))
        else if take 4 b = ''exit'' then Exit 0
        else fork1 (\<lambda>pid. if pid = 0 then run_line b else Wait (\<lambda>_. k buf)))"

definition getcmd :: "nat \<Rightarrow> (string \<Rightarrow> int \<Rightarrow> prog) \<Rightarrow> prog" where
  "getcmd nbuf k =
     Print 2 ''$ '' (gets_loop (nbuf - 1) [] (\<lambda>s.
       let buf = s @ replicate (nbuf - length s) NUL in k buf (if hd buf = NUL then -1 else 0)))"

definition SHBUF :: nat where "SHBUF = 120"

text \<open>The loops of \<open>main\<close>: opening the console, the lines of a script, and those of the console.\<close>

fun open_console :: "nat \<Rightarrow> prog \<Rightarrow> prog" where
  "open_console 0 k = Later"
| "open_console (Suc n) k =
     Open ''console'' O_RDWR_u (\<lambda>fd. if fd \<ge> 0 then (if fd \<ge> 3 then Close fd k else open_console n k) else k)"

definition overwrite :: "string \<Rightarrow> string \<Rightarrow> string" where
  "overwrite s buf = s @ drop (length s) buf"

fun script_loop :: "nat \<Rightarrow> int \<Rightarrow> string \<Rightarrow> prog" where
  "script_loop 0 shfd buf = Later"
| "script_loop (Suc n) shfd buf =
     parse_buffer buf (\<lambda>buf. Read shfd SHBUF (\<lambda>r. case r of
       Some s \<Rightarrow> if length s = SHBUF then script_loop n shfd (overwrite s buf) else Exit 0
     | None \<Rightarrow> Exit 0))"

fun input_loop :: "nat \<Rightarrow> prog" where
  "input_loop 0 = Later"
| "input_loop (Suc n) =
     getcmd SHBUF (\<lambda>buf r. if r \<ge> 0 then parse_buffer buf (\<lambda>_. input_loop n) else Exit 0)"

definition main_sh :: "nat \<Rightarrow> string list \<Rightarrow> prog" where
  "main_sh n argv =
     open_console n
       (if length argv = 2 then
          Open (argv ! 1) O_RDWR_u (\<lambda>shfd.
            if shfd < 0 then Print 1 (''Failed to open '' @ argv ! 1 @ newline) (Exit 1)
            else Read shfd SHBUF (\<lambda>r.
              script_loop n shfd (overwrite (case r of Some s \<Rightarrow> s | None \<Rightarrow> []) (replicate SHBUF NUL))))
        else input_loop n)"

subsection \<open>What the command line runs\<close>

text \<open>
  A system that runs such a tree when no call fails: \<open>exec\<close> replaces the process, \<open>open\<close>, \<open>dup\<close> and \<open>pipe\<close>
  take the lowest free descriptors.  The result is the programs that are executed, each with its
  arguments and its open descriptors, in the order of their processes, and the next pipe number.
\<close>

datatype endpoint = Terminal nat | Opened string int | Read_end nat | Write_end nat

type_synonym descriptors = "endpoint option list"

definition lowest :: "descriptors \<Rightarrow> nat" where
  "lowest T = length (takeWhile (\<lambda>x. x \<noteq> None) T)"

primrec perform :: "prog \<Rightarrow> nat \<Rightarrow> descriptors \<Rightarrow> (string list \<times> descriptors) list \<times> nat" where
  "perform (Exit st) p T = ([], p)"
| "perform (Exec path argv k) p T = ([(argv, T)], p)"
| "perform (Fork k) p T =
     (let (xs, p1) = perform (k 0) p T; (ys, p2) = perform (k 1) p1 T in (xs @ ys, p2))"
| "perform (Wait k) p T = perform (k 1) p T"
| "perform (Close fd k) p T = perform k p (T[nat fd := None])"
| "perform (Open f mode k) p T = perform (k (int (lowest T))) p (T[lowest T := Some (Opened f mode)])"
| "perform (Dup fd k) p T = perform k p (T[lowest T := T ! nat fd])"
| "perform (Pipe k) p T =
     (let a = lowest T; T1 = T[a := Some (Read_end p)]; b = lowest T1 in
      perform (k 0 (int a) (int b)) (Suc p) (T1[b := Some (Write_end p)]))"
| "perform (Write fd s k) p T = perform (k (int (length s))) p T"
| "perform (Fstat fd k) p T = perform (k None) p T"
| "perform (Ps start count k) p T = perform (k []) p T"
| "perform (Sys c k) p T = perform (k 0) p T"
| "perform (Print fd s k) p T = perform k p T"
| "perform (Read fd n k) p T = perform (k None) p T"
| "perform Overrun p T = ([], p)"
| "perform Later p T = ([], p)"



lemma lowest_simps [simp]:
  "lowest (Some x # T) = Suc (lowest T)" "lowest (None # T) = 0"
  by (simp_all add: lowest_def)

lemma lowest_some [simp]: "lowest (map Some xs @ T) = length xs + lowest T"
  by (induction xs) simp_all




lemma fork1_perform [simp]:
  "perform (fork1 k) p T = (let (xs, p1) = perform (k 0) p T; (ys, p2) = perform (k 1) p1 T in (xs @ ys, p2))"
  by (simp add: fork1_def)





lemma parse_printed_line:
  assumes "good_cmd a"
  obtains c where "parsecmd (show_cmd a) = Parsed (c, nulterminate (length (show_cmd a)) c (show_cmd a)) []"
    and "denotes c a" and "\<forall>w\<in>tokens c. word_in (show_cmd a) w"
proof -
  let ?b = "show_cmd a"
  have nil: "skip_white [] = []" by (simp add: skip_white_def)
  then obtain c where c: "parseline (4 * length ?b + 4) ?b = Parsed c []" "denotes c a"
    using reads_cmd [OF assms, THEN conjunct1, unfolded reads_line_def, rule_format, of "[]" "4 * length ?b + 4"]
    by (auto simp: stops_def)
  have "sound ?b ?b (parseline (4 * length ?b + 4) ?b)" using sound_all by blast
  then have "\<forall>w\<in>tokens c. word_in ?b w" unfolding c(1) by simp
  then show thesis using that [of c] c nil by (simp add: parsecmd_def peek_def)
qed

text \<open>
  Claim C25.  A printed command is parsed back: for every command whose words are free of blanks and
  symbols and that has fewer than \<open>MAXARGS\<close> words per program, the shell parses the line that
  denotes it to the tree of that command, with the precedences of the pipe, the \<^verbatim>\<open>&\<close>, the \<^verbatim>\<open>;\<close> and the
  parentheses, the arguments in their order, and every redirection with its file, mode and
  descriptor.
\<close>

theorem parse_printed:
  assumes "good_cmd a"
  shows "\<exists>c buf. parsecmd (show_cmd a) = Parsed (c, buf) [] \<and> denotes c a"
  by (rule parse_printed_line [OF assms]) blast

theorem parse_printed_witness:
  "\<exists>c buf. parsecmd ''cat <in |(wc ;ls )&;wc >>out '' = Parsed (c, buf) [] \<and>
     denotes c (Sequence (Background (Pipeline (Redirect (Run [''cat'']) Input ''in'') (Sequence (Run [''wc'']) (Run [''ls'']))))
       (Redirect (Run [''wc'']) Append ''out''))"
  using parse_printed [of "Sequence (Background (Pipeline (Redirect (Run [''cat'']) Input ''in'')
    (Sequence (Run [''wc'']) (Run [''ls''])))) (Redirect (Run [''wc'']) Append ''out'')"]
  by (simp add: paren_def show_word_def show_redir_def good_word_def word_char_def whitespace_def symbols_def NUL_def MAXARGS_def
      del: denotes.simps)



end
