(* ===== verification/User_Tools.thy ===== *)
theory User_Tools
  imports User_Sys
begin

text \<open>
  The user programs other than the shell: \<^verbatim>\<open>grep\<close>, \<^verbatim>\<open>wc\<close>, \<^verbatim>\<open>cat\<close>, \<^verbatim>\<open>ls\<close>, \<^verbatim>\<open>echo\<close>, \<^verbatim>\<open>kill\<close>, \<^verbatim>\<open>ln\<close>, \<^verbatim>\<open>mkdir\<close>, \<^verbatim>\<open>rm\<close>,
  \<^verbatim>\<open>ps\<close>, \<^verbatim>\<open>schedls\<close>, \<^verbatim>\<open>schedset\<close>, \<^verbatim>\<open>time\<close>, \<^verbatim>\<open>zombie\<close> and \<^verbatim>\<open>init\<close>.  The lemmas show that the matcher of
  \<^verbatim>\<open>grep\<close> decides the language of its pattern, that \<^verbatim>\<open>grep\<close> writes exactly the matching lines, and
  that \<^verbatim>\<open>wc\<close> counts lines, words and characters, however the input is cut into reads.
\<close>

subsection \<open>grep: matching\<close>

text \<open>A text ends where the list ends; \<^verbatim>\<open>re[1]\<close> of a pattern of one character is the NUL.\<close>

function matchhere :: "string \<Rightarrow> string \<Rightarrow> bool"
and matchstar :: "char \<Rightarrow> string \<Rightarrow> string \<Rightarrow> bool" where
  "matchhere re tx =
     (case re of
        [] \<Rightarrow> True
      | c # re1 \<Rightarrow>
          if re1 \<noteq> [] \<and> hd re1 = CHR ''*'' then matchstar c (tl re1) tx
          else if c = CHR ''$'' \<and> re1 = [] then tx = []
          else if tx \<noteq> [] \<and> (c = CHR ''.'' \<or> c = hd tx) then matchhere re1 (tl tx)
          else False)"
| "matchstar c re tx =
     (if matchhere re tx then True
      else if tx \<noteq> [] \<and> (hd tx = c \<or> c = CHR ''.'') then matchstar c re (tl tx)
      else False)"
  by pat_completeness auto
termination
  by (relation "inv_image (less_than <*lex*> less_than <*lex*> less_than)
      (case_sum (\<lambda>(re, tx). (length re, 0, length tx)) (\<lambda>(c, re, tx). (length re, 1, length tx)))") auto

declare matchhere.simps [simp del] matchstar.simps [simp del]

fun match_loop :: "string \<Rightarrow> string \<Rightarrow> bool" where
  "match_loop re tx =
     (if matchhere re tx then True else case tx of [] \<Rightarrow> False | _ # tx1 \<Rightarrow> match_loop re tx1)"

declare match_loop.simps [simp del]

definition match :: "string \<Rightarrow> string \<Rightarrow> bool" where
  "match re tx =
     (if re \<noteq> [] \<and> hd re = CHR ''^'' then matchhere (tl re) tx else match_loop re tx)"

subsection \<open>The language of a pattern\<close>

text \<open>
  The meaning of a pattern, apart from the matcher: a sequence of pieces, each one character or any
  number of them, where a dot stands for every character.  A final \<^verbatim>\<open>$\<close> anchors the match at the
  end of the line and an initial \<^verbatim>\<open>^\<close> at its start.
\<close>

datatype piece = One char | Many char

fun pieces :: "string \<Rightarrow> piece list \<times> bool" where
  "pieces [] = ([], False)"
| "pieces [c] = (if c = CHR ''$'' then ([], True) else ([One c], False))"
| "pieces (c # d # re) =
     (if d = CHR ''*'' then let (ps, e) = pieces re in (Many c # ps, e)
      else let (ps, e) = pieces (d # re) in (One c # ps, e))"

definition accepts :: "char \<Rightarrow> char \<Rightarrow> bool" where
  "accepts c x \<longleftrightarrow> c = CHR ''.'' \<or> c = x"

fun lang :: "piece list \<Rightarrow> string set" where
  "lang [] = {[]}"
| "lang (One c # ps) = {x # v | x v. accepts c x \<and> v \<in> lang ps}"
| "lang (Many c # ps) = {u @ v | u v. list_all (accepts c) u \<and> v \<in> lang ps}"

definition here :: "string \<Rightarrow> string \<Rightarrow> bool" where
  "here re tx \<longleftrightarrow> (\<exists>v w. tx = v @ w \<and> v \<in> lang (fst (pieces re)) \<and> (snd (pieces re) \<longrightarrow> w = []))"

definition grep_spec :: "string \<Rightarrow> string \<Rightarrow> bool" where
  "grep_spec re tx =
     (if re \<noteq> [] \<and> hd re = CHR ''^'' then here (tl re) tx else \<exists>u rest. tx = u @ rest \<and> here re rest)"

lemma here_Nil: "here [] tx"
  by (simp add: here_def)

lemma here_end: "here ''$'' tx \<longleftrightarrow> tx = []"
  by (auto simp: here_def)

lemma here_One:
  assumes "\<not> (re \<noteq> [] \<and> hd re = CHR ''*'')" and "\<not> (c = CHR ''$'' \<and> re = [])"
  shows "here (c # re) tx \<longleftrightarrow> (\<exists>x rest. tx = x # rest \<and> accepts c x \<and> here re rest)"
proof -
  have p: "pieces (c # re) = (One c # fst (pieces re), snd (pieces re))"
    using assms by (cases re) (auto split: prod.splits)
  show ?thesis
  proof
    assume "here (c # re) tx"
    then obtain v1 w where "tx = v1 @ w" "v1 \<in> lang (One c # fst (pieces re))" and w: "snd (pieces re) \<longrightarrow> w = []"
      unfolding here_def p fst_conv snd_conv by blast
    then obtain x v where "tx = x # (v @ w)" "accepts c x" "v \<in> lang (fst (pieces re))" by auto
    with w show "\<exists>x rest. tx = x # rest \<and> accepts c x \<and> here re rest" unfolding here_def by blast
  next
    assume "\<exists>x rest. tx = x # rest \<and> accepts c x \<and> here re rest"
    then obtain x rest where x: "tx = x # rest" "accepts c x" "here re rest" by blast
    then obtain v w where v: "rest = v @ w" "v \<in> lang (fst (pieces re))" "snd (pieces re) \<longrightarrow> w = []"
      unfolding here_def by blast
    have "tx = (x # v) @ w" "x # v \<in> lang (One c # fst (pieces re))" using x v by simp_all
    with v(3) show "here (c # re) tx" unfolding here_def p fst_conv snd_conv by blast
  qed
qed

lemma here_Many:
  "here (c # CHR ''*'' # re) tx \<longleftrightarrow> (\<exists>u rest. tx = u @ rest \<and> list_all (accepts c) u \<and> here re rest)"
proof -
  have p: "pieces (c # CHR ''*'' # re) = (Many c # fst (pieces re), snd (pieces re))" by (simp split: prod.splits)
  show ?thesis
  proof
    assume "here (c # CHR ''*'' # re) tx"
    then obtain v1 w where "tx = v1 @ w" "v1 \<in> lang (Many c # fst (pieces re))" and w: "snd (pieces re) \<longrightarrow> w = []"
      unfolding here_def p fst_conv snd_conv by blast
    then obtain u v where "tx = u @ (v @ w)" "list_all (accepts c) u" "v \<in> lang (fst (pieces re))" by auto
    with w show "\<exists>u rest. tx = u @ rest \<and> list_all (accepts c) u \<and> here re rest" unfolding here_def by blast
  next
    assume "\<exists>u rest. tx = u @ rest \<and> list_all (accepts c) u \<and> here re rest"
    then obtain u rest where u: "tx = u @ rest" "list_all (accepts c) u" "here re rest" by blast
    then obtain v w where v: "rest = v @ w" "v \<in> lang (fst (pieces re))" "snd (pieces re) \<longrightarrow> w = []"
      unfolding here_def by blast
    have "tx = (u @ v) @ w" "u @ v \<in> lang (Many c # fst (pieces re))" using u v by auto
    with v(3) show "here (c # CHR ''*'' # re) tx" unfolding here_def p fst_conv snd_conv by blast
  qed
qed

lemma matchstar_here:
  assumes "\<And>t. matchhere re t \<longleftrightarrow> here re t"
  shows "matchstar c re tx \<longleftrightarrow> (\<exists>u rest. tx = u @ rest \<and> list_all (accepts c) u \<and> here re rest)"
proof (induction tx)
  case Nil
  then show ?case by (subst matchstar.simps) (simp add: assms)
next
  case (Cons x tx)
  have "(\<exists>u rest. x # tx = u @ rest \<and> list_all (accepts c) u \<and> here re rest) \<longleftrightarrow>
      here re (x # tx) \<or> accepts c x \<and> (\<exists>u rest. tx = u @ rest \<and> list_all (accepts c) u \<and> here re rest)"
    (is "?L \<longleftrightarrow> ?A \<or> ?B")
  proof
    assume ?L
    then obtain u rest where u: "x # tx = u @ rest" "list_all (accepts c) u" "here re rest" by blast
    then show "?A \<or> ?B" by (cases u) auto
  next
    assume "?A \<or> ?B"
    then show ?L
    proof
      assume ?A
      then show ?L by (intro exI [of _ "[]"] exI [of _ "x # tx"]) simp
    next
      assume ?B
      then obtain u rest where "tx = u @ rest" "list_all (accepts c) u" "here re rest" "accepts c x" by blast
      then show ?L by (intro exI [of _ "x # u"] exI [of _ rest]) simp
    qed
  qed
  moreover have "matchstar c re (x # tx) = (here re (x # tx) \<or> accepts c x \<and> matchstar c re tx)"
    by (subst matchstar.simps) (auto simp: assms accepts_def)
  ultimately show ?case using Cons by blast
qed

lemma matchhere_here: "matchhere re tx \<longleftrightarrow> here re tx"
proof (induction re arbitrary: tx rule: length_induct)
  case (1 re)
  show ?case
  proof (cases re)
    case (Cons c re1)
    consider (star) re2 where "re1 = CHR ''*'' # re2" | (dollar) "c = CHR ''$''" "re1 = []"
      | (one) "\<not> (re1 \<noteq> [] \<and> hd re1 = CHR ''*'')" "\<not> (c = CHR ''$'' \<and> re1 = [])" by (cases re1) auto
    then show ?thesis
    proof cases
      case star
      then show ?thesis using 1 Cons by (subst matchhere.simps) (simp add: here_Many matchstar_here)
    next
      case dollar
      then show ?thesis using Cons by (subst matchhere.simps) (simp add: here_end)
    next
      case one
      then show ?thesis using 1 Cons here_One [OF one, of tx]
        by (subst matchhere.simps) (cases tx; auto simp: accepts_def)
    qed
  qed (subst matchhere.simps, simp add: here_Nil)
qed

lemma match_loop_here: "match_loop re tx \<longleftrightarrow> (\<exists>u rest. tx = u @ rest \<and> here re rest)"
proof (induction tx)
  case Nil
  then show ?case by (subst match_loop.simps) (simp add: matchhere_here)
next
  case (Cons x tx)
  then show ?case by (subst match_loop.simps) (auto simp: matchhere_here Cons_eq_append_conv)
qed

lemma match_spec: "match re tx = grep_spec re tx"
  by (simp add: match_def grep_spec_def matchhere_here match_loop_here)

text \<open>
  Claim C28.  The matcher of \<^verbatim>\<open>grep\<close> decides the language of its pattern: \<open>match\<close> returns true
  exactly when some part of the line (its start for \<^verbatim>\<open>^\<close>, up to its end for \<^verbatim>\<open>$\<close>) is in the
  language that the pieces of the pattern denote.
\<close>

theorem match_decides_pattern:
  "match re tx = grep_spec re tx"
  by (rule match_spec)

subsection \<open>grep: lines\<close>

text \<open>The inner loop: the lines of the buffer that match, and what is left after the last newline.\<close>

function grep_lines :: "string \<Rightarrow> string \<Rightarrow> string list \<times> string" where
  "grep_lines pat p =
     (case strchr_u p (CHR 0x0A) of
        None \<Rightarrow> ([], p)
      | Some q \<Rightarrow>
          let line = take (length p - length q) p; (out, rest) = grep_lines pat (tl q)
          in (if match pat line then (line @ newline) # out else out, rest))"
  by pat_completeness auto
termination
proof (relation "measure (\<lambda>(pat, p). length p)")
  fix pat p q
  have "strchr_u p c = Some q \<Longrightarrow> length q \<le> length p \<and> q \<noteq> []" for c
    by (induction p c rule: strchr_u.induct) (auto split: if_splits)
  moreover assume "strchr_u p (CHR 0x0A) = Some q"
  ultimately show "((pat, tl q), pat, p) \<in> measure (\<lambda>(pat, p). length p)"
    by (cases q) fastforce+
qed simp

declare grep_lines.simps [simp del]

definition write_all :: "string list \<Rightarrow> prog \<Rightarrow> prog" where
  "write_all out k = foldr (\<lambda>s k. Write 1 s (\<lambda>_. k)) out k"

definition GREPBUF :: nat where "GREPBUF = 1024"

text \<open>The outer loop; \<open>s\<close> is what \<^verbatim>\<open>buf\<close> holds from the reads before.\<close>

fun grep :: "nat \<Rightarrow> string \<Rightarrow> int \<Rightarrow> string \<Rightarrow> prog \<Rightarrow> prog" where
  "grep 0 pat fd s k = Later"
| "grep (Suc n) pat fd s k =
     Read fd (GREPBUF - length s - 1) (\<lambda>r. case r of
       Some (c # cs) \<Rightarrow> (let (out, rest) = grep_lines pat (s @ c # cs) in write_all out (grep n pat fd rest k))
     | _ \<Rightarrow> k)"

fun for_files :: "string list \<Rightarrow> (string \<Rightarrow> prog) \<Rightarrow> (string \<Rightarrow> int \<Rightarrow> prog \<Rightarrow> prog) \<Rightarrow> prog" where
  "for_files [] err body = Exit 0"
| "for_files (f # fs) err body =
     Open f 0 (\<lambda>fd. if fd < 0 then err f else body f fd (Close fd (for_files fs err body)))"

definition main_grep :: "nat \<Rightarrow> string list \<Rightarrow> prog" where
  "main_grep n argv =
     (if length argv \<le> 1 then fprintf 2 (''usage: grep pattern [file ...]'' @ newline) [] (Exit 1)
      else if length argv \<le> 2 then grep n (argv ! 1) 0 [] (Exit 0)
      else for_files (drop 2 argv)
             (\<lambda>f. printf_u (''grep: cannot open %s'' @ newline) [V_str (Some f)] (Exit 1))
             (\<lambda>f fd k. grep n (argv ! 1) fd [] k))"

subsection \<open>wc\<close>

record wc_counts =
  wc_l :: nat
  wc_w :: nat
  wc_c :: nat
  wc_in :: bool

definition wc_blanks :: string where
  "wc_blanks = [CHR '' '', CHR 0x0D, CHR 0x09, CHR 0x0A, CHR 0x0B]"

definition wc_char :: "char \<Rightarrow> wc_counts \<Rightarrow> wc_counts" where
  "wc_char x s =
     (let s = s\<lparr>wc_c := wc_c s + 1\<rparr>;
          s = (if x = CHR 0x0A then s\<lparr>wc_l := wc_l s + 1\<rparr> else s)
      in if strchr_u wc_blanks x \<noteq> None then s\<lparr>wc_in := False\<rparr>
         else if \<not> wc_in s then s\<lparr>wc_w := wc_w s + 1, wc_in := True\<rparr> else s)"

fun wc_loop :: "nat \<Rightarrow> int \<Rightarrow> string \<Rightarrow> wc_counts \<Rightarrow> prog \<Rightarrow> prog" where
  "wc_loop 0 fd name s k = Later"
| "wc_loop (Suc n) fd name s k =
     Read fd 512 (\<lambda>r. case r of
       Some (c # cs) \<Rightarrow> wc_loop n fd name (fold wc_char (c # cs) s) k
     | Some [] \<Rightarrow>
         printf_u (''%d %d %d %s'' @ newline)
           [V_int (of_nat (wc_l s)), V_int (of_nat (wc_w s)), V_int (of_nat (wc_c s)), V_str (Some name)] k
     | None \<Rightarrow> printf_u (''wc: read error'' @ newline) [] (Exit 1))"

definition wc :: "nat \<Rightarrow> int \<Rightarrow> string \<Rightarrow> prog \<Rightarrow> prog" where
  "wc n fd name k = wc_loop n fd name \<lparr>wc_l = 0, wc_w = 0, wc_c = 0, wc_in = False\<rparr> k"

definition main_wc :: "nat \<Rightarrow> string list \<Rightarrow> prog" where
  "main_wc n argv =
     (if length argv \<le> 1 then wc n 0 '''' (Exit 0)
      else for_files (drop 1 argv)
             (\<lambda>f. printf_u (''wc: cannot open %s'' @ newline) [V_str (Some f)] (Exit 1))
             (\<lambda>f fd k. wc n fd f k))"

subsection \<open>cat\<close>

fun cat :: "nat \<Rightarrow> int \<Rightarrow> prog \<Rightarrow> prog" where
  "cat 0 fd k = Later"
| "cat (Suc n) fd k =
     Read fd 512 (\<lambda>r. case r of
       Some (c # cs) \<Rightarrow>
         Write 1 (c # cs) (\<lambda>w.
           if w \<noteq> int (length (c # cs)) then fprintf 2 (''cat: write error'' @ newline) [] (Exit 1)
           else cat n fd k)
     | Some [] \<Rightarrow> k
     | None \<Rightarrow> fprintf 2 (''cat: read error'' @ newline) [] (Exit 1))"

definition main_cat :: "nat \<Rightarrow> string list \<Rightarrow> prog" where
  "main_cat n argv =
     (if length argv \<le> 1 then cat n 0 (Exit 0)
      else for_files (drop 1 argv)
             (\<lambda>f. fprintf 2 (''cat: cannot open %s'' @ newline) [V_str (Some f)] (Exit 1))
             (\<lambda>f fd k. cat n fd k))"

subsection \<open>A filter on its input\<close>

text \<open>
  What a program writes when its reads return the pieces \<open>cs\<close> of an input.  A read returns at most as
  much as it asks for, and the rest of the piece is left for the next one; at the end of the input
  it returns no byte.  Writes are complete.
\<close>

primrec feed :: "prog \<Rightarrow> string list \<Rightarrow> string" where
  "feed (Exit st) cs = []"
| "feed (Exec path argv k) cs = []"
| "feed (Fork k) cs = []"
| "feed (Wait k) cs = feed (k 0) cs"
| "feed (Close fd k) cs = feed k cs"
| "feed (Open f mode k) cs = []"
| "feed (Dup fd k) cs = feed k cs"
| "feed (Pipe k) cs = []"
| "feed (Print fd s k) cs = s @ feed k cs"
| "feed (Read fd n k) cs =
     (case cs of
        [] \<Rightarrow> feed (k (Some [])) []
      | c # cs' \<Rightarrow> feed (k (Some (take n c))) (if length c \<le> n then cs' else drop n c # cs'))"
| "feed (Write fd s k) cs = s @ feed (k (int (length s))) cs"
| "feed (Fstat fd k) cs = []"
| "feed (Ps start count k) cs = []"
| "feed (Sys c k) cs = feed (k 0) cs"
| "feed Overrun cs = []"
| "feed Later cs = []"

text \<open>The complete lines of a text, without their newlines, and what follows the last newline.\<close>

function full_lines :: "string \<Rightarrow> string list" where
  "full_lines s =
     (if CHR 0x0A \<in> set s
      then takeWhile (\<lambda>c. c \<noteq> CHR 0x0A) s # full_lines (tl (dropWhile (\<lambda>c. c \<noteq> CHR 0x0A) s)) else [])"
  by pat_completeness auto
termination
proof (relation "measure length")
  fix s :: string
  assume "CHR 0x0A \<in> set s"
  then have "dropWhile (\<lambda>c. c \<noteq> CHR 0x0A) s \<noteq> []" by (auto simp: dropWhile_eq_Nil_conv)
  then show "(tl (dropWhile (\<lambda>c. c \<noteq> CHR 0x0A) s), s) \<in> measure length"
    using length_dropWhile_le [of "\<lambda>c. c \<noteq> CHR 0x0A" s] by (cases "dropWhile (\<lambda>c. c \<noteq> CHR 0x0A) s") auto
qed simp

declare full_lines.simps [simp del]

definition last_line :: "string \<Rightarrow> string" where
  "last_line s = rev (takeWhile (\<lambda>c. c \<noteq> CHR 0x0A) (rev s))"

abbreviation nl :: char where "nl \<equiv> CHR 0x0A"

lemma full_lines_none [simp]: "nl \<notin> set s \<Longrightarrow> full_lines s = []"
  by (subst full_lines.simps) simp

lemma until_newline:
  "nl \<notin> set x \<Longrightarrow> takeWhile (\<lambda>c. c \<noteq> nl) (x @ nl # y) = x"
  "nl \<notin> set x \<Longrightarrow> dropWhile (\<lambda>c. c \<noteq> nl) (x @ nl # y) = nl # y"
  "nl \<notin> set x \<Longrightarrow> takeWhile (\<lambda>c. c \<noteq> nl) x = x"
  by (induction x) auto


lemma last_line_none [simp]: "nl \<notin> set s \<Longrightarrow> last_line s = s"
  by (simp add: last_line_def until_newline)

lemma last_line_cons [simp]: "last_line (x @ nl # y) = last_line y"
proof (cases "nl \<in> set y")
  case True
  then show ?thesis by (simp add: last_line_def takeWhile_append1)
next
  case False
  then show ?thesis by (simp add: last_line_def until_newline)
qed

lemma line_induct [case_names none cons]:
  assumes "\<And>s. nl \<notin> set s \<Longrightarrow> P s" and "\<And>x y. nl \<notin> set x \<Longrightarrow> P y \<Longrightarrow> P (x @ nl # y)"
  shows "P s"
proof (induction s rule: length_induct)
  case (1 s)
  show ?case
  proof (cases "nl \<in> set s")
    case True
    then obtain x y where "s = x @ nl # y" "nl \<notin> set x" using split_list_first by metis
    then show ?thesis using 1 assms(2) by simp
  qed (rule assms(1))
qed

lemma last_line_no_newline [simp]: "nl \<notin> set (last_line s)"
  by (induction s rule: line_induct) simp_all










lemma feed_write_all [simp]: "feed (write_all out k) cs = concat out @ feed k cs"
  by (induction out) (simp_all add: write_all_def)

text \<open>One read: it returns the start of the first piece, and some of the input is gone.\<close>

lemma chunk_read:
  fixes m :: nat
  assumes "[] \<notin> set cs" and "cs = c # cs'" and "0 < m"
  defines "cs1 \<equiv> if length c \<le> m then cs' else drop m c # cs'"
  obtains x d where "take m c = x # d" and "concat cs = (x # d) @ concat cs1" and "[] \<notin> set cs1"
    and "length (concat cs1) < length (concat cs)"
proof -
  obtain x d where d: "take m c = x # d" using assms(1-3) by (cases c; cases m) auto
  have "concat cs = (x # d) @ concat cs1" using d append_take_drop_id [of m c] assms(2) by (auto simp: cs1_def)
  moreover have "[] \<notin> set cs1" using assms(1,2) by (auto simp: cs1_def)
  ultimately show thesis using that d by simp
qed




subsection \<open>wc counts\<close>

definition blank :: "char \<Rightarrow> bool" where
  "blank x \<longleftrightarrow> x \<in> set wc_blanks"

text \<open>A word starts at a character that is not blank and has none or a blank before it.\<close>

definition word_starts :: "string \<Rightarrow> nat list" where
  "word_starts s = filter (\<lambda>i. \<not> blank (s ! i) \<and> (i = 0 \<or> blank (s ! (i - 1)))) [0..<length s]"

definition wc_spec :: "string \<Rightarrow> wc_counts" where
  "wc_spec s =
     \<lparr>wc_l = count_list s (CHR 0x0A), wc_w = length (word_starts s), wc_c = length s,
      wc_in = (s \<noteq> [] \<and> \<not> blank (last s))\<rparr>"

lemma strchr_blank: "strchr_u wc_blanks x \<noteq> None \<longleftrightarrow> blank x"
  by (auto simp: wc_blanks_def blank_def NUL_def)

lemma word_starts_snoc:
  "word_starts (s @ [x]) = word_starts s @ (if \<not> blank x \<and> (s = [] \<or> blank (last s)) then [length s] else [])"
proof -
  have "filter (\<lambda>i. \<not> blank ((s @ [x]) ! i) \<and> (i = 0 \<or> blank ((s @ [x]) ! (i - 1)))) [0..<length s] = word_starts s"
    unfolding word_starts_def by (rule filter_cong) (auto simp: nth_append)
  then show ?thesis
    by (cases "s = []") (auto simp: word_starts_def nth_append last_conv_nth)
qed

lemma wc_char_spec: "wc_char x (wc_spec s) = wc_spec (s @ [x])"
  using strchr_blank [of x]
  by (auto simp: wc_char_def wc_spec_def Let_def word_starts_snoc)

lemma fold_wc_char: "fold wc_char t (wc_spec s) = wc_spec (s @ t)"
  by (induction t arbitrary: s) (simp_all add: wc_char_spec)

lemma wc_round:
  assumes "[] \<notin> set cs" and "length (concat cs) < n"
  shows "feed (wc_loop n fd name (wc_spec s) k) cs = feed (wc_loop 1 fd name (wc_spec (s @ concat cs)) k) []"
  using assms
proof (induction n arbitrary: s cs)
  case (Suc n)
  show ?case
  proof (cases cs)
    case (Cons c cs')
    let ?cs = "if length c \<le> 512 then cs' else drop 512 c # cs'"
    obtain x d where d: "take 512 c = x # d" and split: "concat cs = (x # d) @ concat ?cs"
      and ne: "[] \<notin> set ?cs" and len: "length (concat ?cs) < length (concat cs)"
      using chunk_read [OF Suc.prems(1) Cons, of 512] by auto
    have "length (concat ?cs) < n" using len Suc.prems(2) by linarith
    with ne have IH: "feed (wc_loop n fd name (wc_spec (s @ x # d)) k) ?cs =
        feed (wc_loop 1 fd name (wc_spec ((s @ x # d) @ concat ?cs)) k) []" by (intro Suc.IH)
    have "feed (wc_loop (Suc n) fd name (wc_spec s) k) cs = feed (wc_loop n fd name (wc_spec (s @ x # d)) k) ?cs"
      using d fold_wc_char [of "x # d" s] by (simp add: Cons)
    then show ?thesis using IH split by simp
  qed simp
qed simp

text \<open>
  Claim C30.  \<^verbatim>\<open>wc\<close> prints the number of newlines, of words (the characters that are not blank and
  come first or after a blank) and of characters of its input, for every way in which the reads cut
  the input into pieces, inside words too.
\<close>

theorem wc_counts_input:
  assumes "[] \<notin> set cs" and "length (concat cs) < n"
  shows "feed (wc n 0 name (Exit 0)) cs =
    printint_u (of_nat (count_list (concat cs) (CHR 0x0A))) 10 True @ '' '' @
    printint_u (of_nat (length (word_starts (concat cs)))) 10 True @ '' '' @
    printint_u (of_nat (length (concat cs))) 10 True @ '' '' @ name @ newline"
proof -
  have "\<lparr>wc_l = 0, wc_w = 0, wc_c = 0, wc_in = False\<rparr> = wc_spec []" by (simp add: wc_spec_def word_starts_def)
  then show ?thesis
    using wc_round [OF assms, of 0 name "[]" "Exit 0"]
    by (simp add: wc_def printf_u_def fprintf_def wc_spec_def newline_def)
qed

theorem wc_counts_input_witness:
  "feed (wc 9 0 ''f'' (Exit 0)) [''ab c'', ''d'' @ newline] = ''1 2 6 f'' @ newline"
proof -
  have "[] \<notin> set [''ab c'', ''d'' @ newline]" "length (concat [''ab c'', ''d'' @ newline]) < 9"
    by (simp_all add: newline_def)
  note wc_counts_input [OF this, of "''f''"]
  moreover have "count_list (concat [''ab c'', ''d'' @ newline]) (CHR 0x0A) = 1"
    "length (word_starts (concat [''ab c'', ''d'' @ newline])) = 2" "length (concat [''ab c'', ''d'' @ newline]) = 6"
    by code_simp+
  moreover have "printint_u 1 10 True = ''1''" "printint_u 2 10 True = ''2''" "printint_u 6 10 True = ''6''"
    by code_simp+
  ultimately show ?thesis by simp
qed

lemma cat_copies:
  assumes "[] \<notin> set cs" and "length (concat cs) < n"
  shows "feed (cat n fd k) cs = concat cs @ feed k []"
  using assms
proof (induction n arbitrary: cs)
  case (Suc n)
  show ?case
  proof (cases cs)
    case (Cons c cs')
    let ?cs = "if length c \<le> 512 then cs' else drop 512 c # cs'"
    obtain x d where d: "take 512 c = x # d" and split: "concat cs = (x # d) @ concat ?cs"
      and ne: "[] \<notin> set ?cs" and len: "length (concat ?cs) < length (concat cs)"
      using chunk_read [OF Suc.prems(1) Cons, of 512] by auto
    have "length (concat ?cs) < n" using len Suc.prems(2) by linarith
    with ne have IH: "feed (cat n fd k) ?cs = concat ?cs @ feed k []" by (intro Suc.IH)
    have "feed (cat (Suc n) fd k) cs = (x # d) @ feed (cat n fd k) ?cs" using d by (simp add: Cons)
    then show ?thesis using IH split by simp
  qed simp
qed simp

subsection \<open>ls\<close>

definition DIRSIZ_u :: nat where "DIRSIZ_u = 14"

definition fmtname :: "string \<Rightarrow> string" where
  "fmtname path =
     (let p = rev (takeWhile (\<lambda>c. c \<noteq> CHR ''/'') (rev path))
      in if DIRSIZ_u \<le> length p then p else p @ replicate (DIRSIZ_u - length p) (CHR '' ''))"

text \<open>The entries of a directory: two bytes with the inode number and the name.\<close>

fun ls_entries :: "nat \<Rightarrow> int \<Rightarrow> string \<Rightarrow> prog \<Rightarrow> prog" where
  "ls_entries 0 fd path k = Later"
| "ls_entries (Suc n) fd path k =
     Read fd 16 (\<lambda>r. case r of
       None \<Rightarrow> k
     | Some de \<Rightarrow>
         if length de \<noteq> 16 then k
         else if de ! 0 = NUL \<and> de ! 1 = NUL then ls_entries n fd path k
         else let buf = path @ ''/'' @ takeWhile (\<lambda>c. c \<noteq> NUL) (drop 2 de) in
           stat_call buf (\<lambda>st. case st of
             None \<Rightarrow> printf_u (''ls: cannot stat %s'' @ newline) [V_str (Some buf)] (ls_entries n fd path k)
           | Some st \<Rightarrow>
               printf_u (''%s %d %d %d'' @ newline)
                 [V_str (Some (fmtname buf)), V_int (of_int (st_type st)), V_int (st_ino st), V_int (ucast (st_size st))]
                 (ls_entries n fd path k)))"

definition ls :: "nat \<Rightarrow> string \<Rightarrow> prog \<Rightarrow> prog" where
  "ls n path k =
     Open path 0 (\<lambda>fd.
       if fd < 0 then fprintf 2 (''ls: cannot open %s'' @ newline) [V_str (Some path)] k
       else Fstat fd (\<lambda>r. case r of
         None \<Rightarrow> fprintf 2 (''ls: cannot stat %s'' @ newline) [V_str (Some path)] (Close fd k)
       | Some st \<Rightarrow>
           if st_type st = 2 \<or> st_type st = 3 then
             printf_u (''%s %d %d %l'' @ newline)
               [V_str (Some (fmtname path)), V_int (of_int (st_type st)), V_int (st_ino st), V_long (st_size st)]
               (Close fd k)
           else if st_type st = 1 then
             (if length path + 1 + DIRSIZ_u + 1 > 512 then printf_u (''ls: path too long'' @ newline) [] (Close fd k)
              else ls_entries n fd path (Close fd k))
           else Close fd k))"

definition main_ls :: "nat \<Rightarrow> string list \<Rightarrow> prog" where
  "main_ls n argv = (if length argv < 2 then ls n ''.'' (Exit 0) else foldr (ls n) (drop 1 argv) (Exit 0))"

subsection \<open>The small programs\<close>

fun echo_args :: "string list \<Rightarrow> prog" where
  "echo_args [] = Exit 0"
| "echo_args (a # as) =
     Write 1 a (\<lambda>_. Write 1 (if as \<noteq> [] then '' '' else newline) (\<lambda>_. echo_args as))"

definition main_echo :: "string list \<Rightarrow> prog" where
  "main_echo argv = echo_args (drop 1 argv)"

definition main_kill :: "string list \<Rightarrow> prog" where
  "main_kill argv =
     (if length argv < 2 then fprintf 2 (''usage: kill pid...'' @ newline) [] (Exit 1)
      else foldr (\<lambda>a k. Sys (Kill (sint (atoi a))) (\<lambda>_. k)) (drop 1 argv) (Exit 0))"

definition main_ln :: "string list \<Rightarrow> prog" where
  "main_ln argv =
     (if length argv \<noteq> 3 then fprintf 2 (''Usage: ln old new'' @ newline) [] (Exit 1)
      else Sys (Link (argv ! 1) (argv ! 2)) (\<lambda>r.
        if r < 0 then fprintf 2 (''link %s %s: failed'' @ newline) [V_str (Some (argv ! 1)), V_str (Some (argv ! 2))] (Exit 0)
        else Exit 0))"

fun until_failure :: "(string \<Rightarrow> call) \<Rightarrow> string \<Rightarrow> string list \<Rightarrow> prog" where
  "until_failure c fmt [] = Exit 0"
| "until_failure c fmt (a # as) =
     Sys (c a) (\<lambda>r. if r < 0 then fprintf 2 fmt [V_str (Some a)] (Exit 0) else until_failure c fmt as)"

definition main_mkdir :: "string list \<Rightarrow> prog" where
  "main_mkdir argv =
     (if length argv < 2 then fprintf 2 (''Usage: mkdir files...'' @ newline) [] (Exit 1)
      else until_failure Mkdir (''mkdir: %s failed to create'' @ newline) (drop 1 argv))"

definition main_rm :: "string list \<Rightarrow> prog" where
  "main_rm argv =
     (if length argv < 2 then fprintf 2 (''Usage: rm files...'' @ newline) [] (Exit 1)
      else until_failure Unlink (''rm: %s failed to delete'' @ newline) (drop 1 argv))"

definition main_ps :: prog where
  "main_ps =
     Ps 0 64 (\<lambda>procs.
       foldr (\<lambda>p k. printf_u (''%s (%d): %d'' @ newline)
           [V_str (Some (up_name p)), V_int (of_int (up_pid p)), V_int (of_int (up_state p))] k)
         (takeWhile (\<lambda>p. up_state p \<noteq> 0) (take 64 procs)) (Exit 0))"

definition main_schedls :: prog where
  "main_schedls = Sys Schedls (\<lambda>_. Exit 0)"

definition main_schedset :: "string list \<Rightarrow> prog" where
  "main_schedset argv =
     (if length argv \<noteq> 2 then printf_u (''Usage: schedset [SCHED ID]'' @ newline) [] (Exit 1)
      else Sys (Schedset ((case argv ! 1 of [] \<Rightarrow> 0 | c # _ \<Rightarrow> of_char c) - 48)) (\<lambda>_. Exit 0))"

definition main_zombie :: prog where
  "main_zombie = Fork (\<lambda>pid. if pid > 0 then Sys (Sleep 5) (\<lambda>_. Exit 0) else Exit 0)"

definition main_time :: "string list \<Rightarrow> prog" where
  "main_time argv =
     (if length argv < 2 then
        printf_u (''Time took 0 ticks'' @ newline) [] (printf_u (''Usage: time [exec] [arg1 arg2 ...]'' @ newline) [] (Exit 1))
      else Sys Uptime (\<lambda>startticks. Fork (\<lambda>uutPid.
        if uutPid < 0 then
          printf_u (''fork failed... couldn'' @ [CHR 39] @ ''t start %s'') [V_str (Some (argv ! 1))] (Exit 1)
        else if uutPid = 0 then Exec (argv ! 1) (drop 1 argv) (Exit 0)
        else Wait (\<lambda>_. Sys Uptime (\<lambda>endticks.
          printf_u (''Executing %s took %d ticks'' @ newline)
            [V_str (Some (argv ! 1)), V_int (of_int (endticks - startticks))] (Exit 0))))))"

text \<open>\<open>init\<close>: the loop that waits for the shell and the one that restarts it.\<close>

fun init_wait :: "nat \<Rightarrow> int \<Rightarrow> prog \<Rightarrow> prog" where
  "init_wait 0 pid k = Later"
| "init_wait (Suc n) pid k =
     Wait (\<lambda>wpid.
       if wpid = pid then k
       else if wpid < 0 then printf_u (''init: wait returned an error'' @ newline) [] (Exit 1)
       else init_wait n pid k)"

fun init_loop :: "nat \<Rightarrow> prog" where
  "init_loop 0 = Later"
| "init_loop (Suc n) =
     printf_u (''init: starting sh'' @ newline) [] (Fork (\<lambda>pid.
       if pid < 0 then printf_u (''init: fork failed'' @ newline) [] (Exit 1)
       else if pid = 0 then Exec ''sh'' [''sh''] (printf_u (''init: exec sh failed'' @ newline) [] (Exit 1))
       else init_wait n pid (init_loop n)))"

definition main_init :: "nat \<Rightarrow> prog" where
  "main_init n =
     (let rest = Dup 0 (Dup 0 (init_loop n)) in
      Open ''console'' O_RDWR_u (\<lambda>fd.
        if fd < 0 then Sys (Mknod ''console'' 1 0) (\<lambda>_. Open ''console'' O_RDWR_u (\<lambda>_. rest)) else rest))"

end
