(* ===== verification/Spec2Isabelle.thy ===== *)
theory Spec2Isabelle
  imports Xv6_Prelude Xv6_Spinlock Xv6_Memory Xv6_Riscv Xv6_Uart Xv6_Printf Xv6_Kalloc Xv6_VM Xv6_Proc
    Xv6_Console Xv6_Sleeplock Xv6_Bio Xv6_Log Xv6_Fs Xv6_File Xv6_Pipe Xv6_Exec Xv6_Life Xv6_Sysfile Xv6_Virtio Xv6_Trap Xv6_Invariant
    User_Sys User_Shell User_Tools
begin

text \<open>
  A verification library for an xv6 kernel with two schedulers (round robin and a multi-level
  feedback queue), a \<^verbatim>\<open>ps\<close> system call and user-level threads.

  \<^bold>\<open>How the code is modelled.\<close>  Kernel functions are pure functions on a state, of type
  \<open>('s, 'a) kfun\<close> (\<^theory_text>\<open>Xv6_Prelude\<close>): they return a result and a state (\<open>Ok\<close>), wait for
  another hart or process (\<open>Waits\<close>), panic (\<open>Panic\<close>) or never end (\<open>Diverges\<close>).  A function that
  can sleep ends in \<open>Waits Switched\<close> where the code calls \<^verbatim>\<open>swtch\<close>, and a second definition with the
  suffix \<open>_resume\<close> is the rest of it, run when the process is switched to again.  The state is one
  record, extended layer by layer, so that the code of a layer works on the state of every layer
  above: \<open>machine\<close> (harts, interrupt state, spin locks), \<open>dev\<close> (registers of the devices),
  \<open>kmem\<close> (memory and the free list), \<open>kvm\<close>, \<open>procs\<close>, \<open>consol\<close>, \<open>sleeplocks\<close>, \<open>bcache\<close> (buffers and
  the disk), \<open>logs\<close>, \<open>fsys\<close>, \<open>files\<close>, \<open>vdisk\<close> and \<open>traps\<close>.  Machine integers are words of their
  width; counters for which the code relies on not overflowing are integers.

  \<^bold>\<open>The theories\<close>, in the order of the layers, with the sources they model:
  \<^item> \<^theory_text>\<open>Xv6_Prelude\<close>: outcomes and sequencing, the rules for invariants (\<open>keeps\<close>) and for code
    that returns (\<open>runs\<close>), loops, lists.
  \<^item> \<^theory_text>\<open>Xv6_Spinlock\<close>: \<^verbatim>\<open>kernel/spinlock.c\<close>, sequentially and as interleaved steps of harts.
  \<^item> \<^theory_text>\<open>Xv6_Memory\<close>: \<^verbatim>\<open>kernel/string.c\<close> on byte memory.  \<^theory_text>\<open>Xv6_Riscv\<close>: constants, page-table
    entries, addresses.
  \<^item> \<^theory_text>\<open>Xv6_Uart\<close>, \<^theory_text>\<open>Xv6_Printf\<close>: \<^verbatim>\<open>uart.c\<close>, \<^verbatim>\<open>plic.c\<close>, \<^verbatim>\<open>printf.c\<close>.
  \<^item> \<^theory_text>\<open>Xv6_Kalloc\<close>, \<^theory_text>\<open>Xv6_VM\<close>: \<^verbatim>\<open>kalloc.c\<close>, \<^verbatim>\<open>vm.c\<close>.
  \<^item> \<^theory_text>\<open>Xv6_Proc\<close>: \<^verbatim>\<open>proc.c\<close> with both schedulers; \<^theory_text>\<open>Xv6_Life\<close>: \<^verbatim>\<open>userinit\<close>, \<^verbatim>\<open>fork\<close>, \<^verbatim>\<open>exit\<close>.
  \<^item> \<^theory_text>\<open>Xv6_Console\<close>: \<^verbatim>\<open>console.c\<close> and the transmit ring of \<^verbatim>\<open>uart.c\<close>.
  \<^item> \<^theory_text>\<open>Xv6_Sleeplock\<close>, \<^theory_text>\<open>Xv6_Bio\<close>, \<^theory_text>\<open>Xv6_Log\<close>, \<^theory_text>\<open>Xv6_Fs\<close>: \<^verbatim>\<open>sleeplock.c\<close>, \<^verbatim>\<open>bio.c\<close>, \<^verbatim>\<open>log.c\<close>, \<^verbatim>\<open>fs.c\<close>.
  \<^item> \<^theory_text>\<open>Xv6_File\<close>: \<^verbatim>\<open>file.c\<close>, \<^verbatim>\<open>pipe.c\<close>; \<^theory_text>\<open>Xv6_Pipe\<close>: lemmas on pipes; \<^theory_text>\<open>Xv6_Exec\<close>: \<^verbatim>\<open>exec.c\<close>; \<^theory_text>\<open>Xv6_Sysfile\<close>: \<^verbatim>\<open>sysfile.c\<close>
    and the argument functions of \<^verbatim>\<open>syscall.c\<close>.
  \<^item> \<^theory_text>\<open>Xv6_Virtio\<close>: \<^verbatim>\<open>virtio_disk.c\<close>; \<^theory_text>\<open>Xv6_Trap\<close>: \<^verbatim>\<open>sysproc.c\<close>, \<^verbatim>\<open>syscall.c\<close>, \<^verbatim>\<open>trap.c\<close>,
    \<^verbatim>\<open>main.c\<close>, \<^verbatim>\<open>start.c\<close>.
  \<^item> \<^theory_text>\<open>Xv6_Invariant\<close>: an invariant of the process table that all kernel code keeps.
  \<^item> \<^theory_text>\<open>User_Sys\<close>: system calls as user programs see them, \<^verbatim>\<open>user/printf.c\<close> and string functions of
    \<^verbatim>\<open>user/ulib.c\<close>; \<^theory_text>\<open>User_Shell\<close>: \<^verbatim>\<open>user/sh.c\<close>; \<^theory_text>\<open>User_Tools\<close>: \<^verbatim>\<open>grep\<close>, \<^verbatim>\<open>wc\<close>, \<^verbatim>\<open>cat\<close>, \<^verbatim>\<open>ls\<close>, \<^verbatim>\<open>init\<close> and
    the small programs.  A user process is a tree of its system calls, with a branch for every
    result of a call.

  \<^bold>\<open>What the lemmas show.\<close>
  \<^item> Locks: mutual exclusion of spin locks in every interleaving of the accesses of \<open>acquire\<close> and
    \<open>release\<close>, and the nesting of \<open>push_off\<close> and \<open>pop_off\<close>.
  \<^item> Memory: the page allocator is a stack of pages; \<open>mappages\<close> maps exactly its range on the
    three-level table; \<open>copyout\<close> and \<open>copyin\<close> write and read user memory through the table.
  \<^item> Processes: the round-robin pass is fair, the multi-level scheduler chooses by priority, a
    demoted process is promoted in time, \<open>wakeup\<close> and \<open>kill\<close> change exactly what they should, and
    process ids, priorities and timers stay valid in every reachable state of the kernel.
  \<^item> Disk: the buffer list implements least-recently-used replacement.  The locale
    \<open>block_cache\<close> states what the log relies on (reading, writing and pinning blocks), with the
    loops over blocks proved in it; its interpretation on the kernel's cache discharges the laws.
    A commit is atomic for every prefix of its disk writes that a crash leaves.
  \<^item> Pipes: the ring with its 32-bit counters is a bounded queue; writing appends the bytes of the
    process's memory and reading moves them from the front.
  \<^item> User programs: the shell's parser ends on every line, parses printed commands back, terminates
    its tokens, and runs exactly the programs of a command with the descriptors it means; the
    matcher of \<^verbatim>\<open>grep\<close> decides the language of its pattern, and \<^verbatim>\<open>grep\<close> and \<^verbatim>\<open>wc\<close> do their work however
    the reads cut the input; \<open>atoi\<close> reads back what \<open>printf\<close> writes.

  \<^bold>\<open>Bounds.\<close>  Recursions that do not end by their arguments carry a natural number.  The parsers of
  the shell get four times the length of the line plus four, which is proved to be enough for every
  line.  Loops of user programs over input or commands (\<open>grep\<close>, \<open>wc\<close>, \<open>cat\<close>, \<open>ls\<close>, the loops of the
  shell and of \<open>init\<close>) end in \<open>Later\<close> when the number is used up; the theorems on \<open>grep\<close> and \<open>wc\<close> say
  that more rounds than bytes of input are enough.  Kernel loops that poll or walk memory give
  \<open>Diverges\<close>.

  \<^bold>\<open>Not modelled.\<close>  The assembly files: \<^verbatim>\<open>swtch\<close>, the trampoline and the trap vectors are the points
  where runs of the model start and end.  The thread library \<^verbatim>\<open>user/uthread.c\<close> and \<^verbatim>\<open>user/lock.c\<close>:
  it reads thread structures through null pointers, so what it does depends on the bytes of the
  program image.  The allocator \<^verbatim>\<open>user/umalloc.c\<close>: no modelled program depends on its addresses.
  \<^verbatim>\<open>mkfs/mkfs.c\<close>: a host program.  \<^verbatim>\<open>kernel/ramdisk.c\<close>: not built.  The test programs
  (\<^verbatim>\<open>usertests.c\<close>, \<^verbatim>\<open>grind.c\<close>, \<^verbatim>\<open>cowtest.c\<close> and others), prototypes, linker scripts and build files.
  Of the hardware: the memory model is sequentially consistent, and address translation caches are
  not visible.
\<close>

end
